(* ===== verification/Transitions.thy ===== *)
theory Transitions imports Main begin

text \<open>
  Two contracts of the step relations in this library. \<open>invariant_system\<close>: every step keeps a
  predicate; \<open>decreasing_system\<close>: every step also lowers a bound on the work that is left. The
  components interpret them on their own steps.
\<close>

locale invariant_system =
  fixes step :: "'s \<Rightarrow> 's \<Rightarrow> bool"
    and good :: "'s \<Rightarrow> bool"
  assumes step_good: "step s t \<Longrightarrow> good s \<Longrightarrow> good t"
begin

lemma reachable_good: "step\<^sup>*\<^sup>* s t \<Longrightarrow> good s \<Longrightarrow> good t"
  by (induction rule: rtranclp_induct) (auto intro: step_good)

end

locale decreasing_system =
  fixes step :: "'s \<Rightarrow> 's \<Rightarrow> bool"
    and good_at :: "nat \<Rightarrow> 's \<Rightarrow> bool"
  assumes step_decreases: "good_at n s \<Longrightarrow> step s t \<Longrightarrow> \<exists>m < n. good_at m t"
begin

lemma run_ends: "good_at n s \<Longrightarrow> \<exists>t. step\<^sup>*\<^sup>* s t \<and> (\<nexists>u. step t u)"
proof (induction n arbitrary: s rule: less_induct)
  case (less n)
  show ?case
  proof (cases "\<exists>t. step s t")
    case True
    then obtain t where t: "step s t" by blast
    then obtain m where "m < n" "good_at m t" using step_decreases [OF less.prems] by blast
    then obtain u where "step\<^sup>*\<^sup>* t u" "\<nexists>v. step u v" using less.IH by blast
    then show ?thesis using converse_rtranclp_into_rtranclp [of step, OF t] by blast
  qed blast
qed

lemma no_infinite_run:
  assumes "good_at n (f 0)"
  shows "\<exists>k. \<not> step (f k) (f (Suc k))"
proof (rule ccontr)
  assume "\<nexists>k. \<not> step (f k) (f (Suc k))"
  then have "\<exists>m. m + k \<le> n \<and> good_at m (f k)" for k
  proof (induction k)
    case (Suc k)
    then obtain m where m: "m + k \<le> n" "good_at m (f k)" by blast
    then obtain m' where "m' < m" "good_at m' (f (Suc k))" using step_decreases Suc.prems by blast
    then show ?case using m(1) by (intro exI [of _ m']) simp
  qed (use assms in auto)
  from this [of "Suc n"] show False by simp
qed

end

sublocale decreasing_system \<subseteq> any: invariant_system step "\<lambda>s. \<exists>n. good_at n s"
  by unfold_locales (use step_decreases in blast)

end
