(* ===== verification/Rpc_Prelude.thy ===== *)
theory Rpc_Prelude imports Transitions "HOL-Library.Word" "HOL-Library.Monad_Syntax" begin

unbundle bit_operations_syntax

text \<open>
  Shared vocabulary of the development: the machine integers and byte strings the C++ code
  uses, the standard library's exceptions as values, and the generic lemmas on words and
  lists that several components need.

  A C++ \<open>std::string\<close>, a \<open>const char*\<close> with a length and a \<open>std::vector<char>\<close> are all a
  list of 8-bit words; a string literal of the source is \<open>lit ''...''\<close>.
\<close>

section \<open>Types\<close>

type_synonym u8 = "8 word"
type_synonym u16 = "16 word"
type_synonym u32 = "32 word"
type_synonym u64 = "64 word"
type_synonym bytes = "u8 list"

definition lit :: "string \<Rightarrow> bytes" where
  "lit s = map of_char s"

text \<open>
  The exceptions the code throws or catches, with the text they were made from. \<open>what()\<close> is a
  zero-terminated string: a text with a zero byte in it is seen up to there.

  \<open>undefined_behaviour\<close> is no exception: the code did something C++ does not define, and nothing is said
  of the program any more. It stands where an exception would, but no \<open>catch\<close> of the models handles it.
\<close>

datatype exn =
    invalid_argument bytes
  | logic_error bytes
  | out_of_range bytes
  | runtime_error bytes
  | other_exception bytes
  | undefined_behaviour

fun exn_text :: "exn \<Rightarrow> bytes" where
  "exn_text (invalid_argument s) = s"
| "exn_text (logic_error s) = s"
| "exn_text (out_of_range s) = s"
| "exn_text (runtime_error s) = s"
| "exn_text (other_exception s) = s"
| "exn_text undefined_behaviour = []"

definition what :: "exn \<Rightarrow> bytes" where
  "what e = takeWhile (\<lambda>c. c \<noteq> 0) (exn_text e)"

type_synonym 'a res = "exn + 'a"

section \<open>Collections of facts\<close>

named_theorems word_bounds \<open>what \<open>unat\<close> of a machine expression is\<close>
named_theorems codec_simps \<open>round-trip equations of the serialisation layers\<close>
named_theorems inv_intros \<open>preservation of component invariants\<close>

section \<open>Words\<close>

lemma length_lit [simp]: "length (lit s) = length s"
  by (simp add: lit_def)

lemma lit_append: "lit (s @ t) = lit s @ lit t"
  by (simp add: lit_def)

lemma unat_u8_less [word_bounds]: "unat (x :: u8) < 256"
  using unsigned_less [of x, where ?'a = nat] by simp

lemma unat_u16_less [word_bounds]: "unat (x :: u16) < 65536"
  using unsigned_less [of x, where ?'a = nat] by simp

lemma unat_u32_less [word_bounds]: "unat (x :: u32) < 4294967296"
  using unsigned_less [of x, where ?'a = nat] by simp

lemma unat_u64_less [word_bounds]: "unat (x :: u64) < 18446744073709551616"
  using unsigned_less [of x, where ?'a = nat] by simp

lemma and_255: "x AND 0xff = take_bit 8 (x :: 'a::len word)"
  by (simp add: take_bit_eq_mask mask_eq_exp_minus_1)

lemma word_of_nat_eqI: "unat (x :: 'a::len word) = k \<Longrightarrow> x = of_nat k"
  by (simp add: word_unat_eq_iff unat_of_nat) (metis mod_less unsigned_less)

lemma ucast_ucast_small:
  "unat (d :: 'a::len word) < 2 ^ LENGTH('b::len) \<Longrightarrow> ucast (ucast d :: 'b word) = d"
  by (simp add: word_unat_eq_iff unsigned_ucast_eq unsigned_take_bit_eq take_bit_nat_eq_self)

lemma sint_ucast_small:
  fixes d :: "'a::len word"
  assumes "- (2 ^ (LENGTH('b::len) - 1)) \<le> sint d" "sint d < 2 ^ (LENGTH('b) - 1)" "LENGTH('b) \<le> LENGTH('a)"
  shows "sint (ucast d :: 'b word) = sint d"
proof -
  have "(ucast d :: 'b word) = word_of_int (sint d)"
  proof (rule bit_word_eqI)
    fix n assume n: "n < LENGTH('b)"
    then have "min (LENGTH('a) - 1) n = n" using assms(3) by linarith
    then show "bit (ucast d :: 'b word) n = bit (word_of_int (sint d) :: 'b word) n"
      using n by (simp add: bit_simps)
  qed
  then have "sint (ucast d :: 'b word) = signed_take_bit (LENGTH('b) - 1) (sint d)"
    by (simp only: sint_sbintrunc')
  then show ?thesis using assms by (simp add: signed_take_bit_int_eq_self)
qed

lemma scast_ucast_small:
  fixes d :: "'a::len word"
  assumes "- (2 ^ (LENGTH('b::len) - 1)) \<le> sint d" "sint d < 2 ^ (LENGTH('b) - 1)" "LENGTH('b) \<le> LENGTH('a)"
  shows "scast (ucast d :: 'b word) = d"
proof -
  have "scast (ucast d :: 'b word) = (word_of_int (sint (ucast d :: 'b word)) :: 'a word)" by simp
  then show ?thesis by (simp only: sint_ucast_small [OF assms]) simp
qed

lemma sint_pos:
  assumes "sint (d :: 'a::len word) \<ge> 0"
  shows "sint d = int (unat d)"
proof -
  have "sint d < 2 ^ (LENGTH('a) - 1)" by (rule sint_lt)
  also have "(2 :: int) ^ (LENGTH('a) - 1) \<le> 2 ^ LENGTH('a)" by simp
  finally have "take_bit LENGTH('a) (sint d) = sint d" using assms by (simp add: take_bit_int_eq_self)
  then show ?thesis by (metis uint_sint of_nat_unat)
qed

lemma small_word_cases: "(l :: 'a::len word) < of_nat n \<Longrightarrow> \<exists>k < n. l = of_nat k"
proof (rule exI [of _ "unat l"], intro conjI)
  assume "l < of_nat n"
  then have "unat l < unat (of_nat n :: 'a word)" by (simp add: word_less_nat_alt)
  also have "\<dots> \<le> n" by (simp add: unat_of_nat)
  finally show "unat l < n" .
qed simp

lemma unat_ucast_small: "unat (d :: 'a::len word) < 2 ^ LENGTH('b::len) \<Longrightarrow> unat (ucast d :: 'b word) = unat d"
  by (simp add: unsigned_ucast_eq unsigned_take_bit_eq take_bit_nat_eq_self)

section \<open>Byte order\<close>

text \<open>
  The bytes of a machine word, low-order byte first (memory on the little-endian hosts the code
  is built for) and high-order byte first (network order, MessagePack's).
\<close>

fun to_le :: "nat \<Rightarrow> 'a::len word \<Rightarrow> bytes" where
  "to_le 0 x = []"
| "to_le (Suc k) x = ucast x # to_le k (drop_bit 8 x)"

fun of_le :: "bytes \<Rightarrow> 'a::len word" where
  "of_le [] = 0"
| "of_le (b # bs) = ucast b OR push_bit 8 (of_le bs)"

definition to_be :: "nat \<Rightarrow> 'a::len word \<Rightarrow> bytes" where
  "to_be k x = rev (to_le k x)"

definition of_be :: "bytes \<Rightarrow> 'a::len word" where
  "of_be bs = of_le (rev bs)"

lemma length_to_le [simp]: "length (to_le k x) = k"
  by (induction k arbitrary: x) auto

lemma length_to_be [simp]: "length (to_be k x) = k"
  by (simp add: to_be_def)

lemma of_le_to_le: "of_le (to_le k x) = take_bit (8 * k) x"
proof (induction k arbitrary: x)
  case (Suc k)
  show ?case
  proof (rule bit_word_eqI)
    fix n assume "n < LENGTH('a)"
    then show "bit (of_le (to_le (Suc k) x) :: 'a word) n = bit (take_bit (8 * Suc k) x) n"
      by (cases "n < 8") (auto simp: Suc.IH bit_simps)
  qed
qed simp

lemma of_be_to_be: "of_be (to_be k x) = take_bit (8 * k) x"
  by (simp add: of_be_def to_be_def of_le_to_le)

lemma of_le_to_le_full [codec_simps]: "LENGTH('a) \<le> 8 * k \<Longrightarrow> of_le (to_le k (x :: 'a::len word)) = x"
  by (simp add: of_le_to_le take_bit_word_eq_self)

lemma of_be_to_be_full [codec_simps]: "LENGTH('a) \<le> 8 * k \<Longrightarrow> of_be (to_be k (x :: 'a::len word)) = x"
  by (simp add: of_be_to_be take_bit_word_eq_self)

end
