(* ===== verification/Md5.thy ===== *)
theory Md5 imports Rpc_Prelude begin

unbundle bit_operations_syntax

text \<open>
  \<open>include/rest_rpc/md5.hpp\<close>: the MD5 hash that turns a function name into the 32-bit
  function id of a request. The definitions follow the C++ function by function, on 32-bit
  words; RFC 1321's description, and the proof that the code computes it, is in \<open>Md5_Rfc\<close>.
\<close>

section \<open>The code\<close>

record IntermediateData =
  im_a :: u32
  im_b :: u32
  im_c :: u32
  im_d :: u32

definition kConstants :: "u32 list" where
  "kConstants =
    [0xd76aa478, 0xe8c7b756, 0x242070db, 0xc1bdceee, 0xf57c0faf, 0x4787c62a,
     0xa8304613, 0xfd469501, 0x698098d8, 0x8b44f7af, 0xffff5bb1, 0x895cd7be,
     0x6b901122, 0xfd987193, 0xa679438e, 0x49b40821, 0xf61e2562, 0xc040b340,
     0x265e5a51, 0xe9b6c7aa, 0xd62f105d, 0x02441453, 0xd8a1e681, 0xe7d3fbc8,
     0x21e1cde6, 0xc33707d6, 0xf4d50d87, 0x455a14ed, 0xa9e3e905, 0xfcefa3f8,
     0x676f02d9, 0x8d2a4c8a, 0xfffa3942, 0x8771f681, 0x6d9d6122, 0xfde5380c,
     0xa4beea44, 0x4bdecfa9, 0xf6bb4b60, 0xbebfbc70, 0x289b7ec6, 0xeaa127fa,
     0xd4ef3085, 0x04881d05, 0xd9d4d039, 0xe6db99e5, 0x1fa27cf8, 0xc4ac5665,
     0xf4292244, 0x432aff97, 0xab9423a7, 0xfc93a039, 0x655b59c3, 0x8f0ccc92,
     0xffeff47d, 0x85845dd1, 0x6fa87e4f, 0xfe2ce6e0, 0xa3014314, 0x4e0811a1,
     0xf7537e82, 0xbd3af235, 0x2ad7d2bb, 0xeb86d391]"

definition kShifts :: "u32 list" where
  "kShifts = [7, 12, 17, 22, 5, 9, 14, 20, 4, 11, 16, 23, 6, 10, 15, 21]"

definition kInitialIntermediateData :: IntermediateData where
  "kInitialIntermediateData =
     \<lparr>im_a = 0x67452301, im_b = 0xefcdab89, im_c = 0x98badcfe, im_d = 0x10325476\<rparr>"

definition GetPaddedMessageLength :: "u32 \<Rightarrow> u32" where
  "GetPaddedMessageLength n = (((n + 1 + 8) + 63) div 64) * 64"

definition ExtractByte :: "u64 \<Rightarrow> u32 \<Rightarrow> u8" where
  "ExtractByte value i = ucast (drop_bit (unat (i * 8)) value AND 0xff)"

text \<open>
  \<open>data\<close> is the memory \<open>data\<close> points to; it is only read below \<open>n\<close>. The product \<open>n * 8\<close> is a
  \<open>uint32_t\<close> before it is widened to the \<open>uint64_t\<close> parameter.
\<close>

definition GetPaddedMessageByte :: "bytes \<Rightarrow> u32 \<Rightarrow> u32 \<Rightarrow> u32 \<Rightarrow> u8" where
  "GetPaddedMessageByte data n m i =
     (if i < n then data ! unat i
      else if i = n then 0x80
      else if i \<ge> m - 8 then ExtractByte (ucast (n * 8)) (i - (m - 8))
      else 0)"

definition GetPaddedMessageWord :: "bytes \<Rightarrow> u32 \<Rightarrow> u32 \<Rightarrow> u32 \<Rightarrow> u32" where
  "GetPaddedMessageWord data n m i =
     ucast (GetPaddedMessageByte data n m i) OR
     push_bit 8 (ucast (GetPaddedMessageByte data n m (i + 1))) OR
     push_bit 16 (ucast (GetPaddedMessageByte data n m (i + 2))) OR
     push_bit 24 (ucast (GetPaddedMessageByte data n m (i + 3)))"

definition GetRoundData :: "bytes \<Rightarrow> u32 \<Rightarrow> u32 \<Rightarrow> u32 \<Rightarrow> u32 list" where
  "GetRoundData data n m i =
     [GetPaddedMessageWord data n m i,
      GetPaddedMessageWord data n m (i + 4),
      GetPaddedMessageWord data n m (i + 8),
      GetPaddedMessageWord data n m (i + 12),
      GetPaddedMessageWord data n m (i + 16),
      GetPaddedMessageWord data n m (i + 20),
      GetPaddedMessageWord data n m (i + 24),
      GetPaddedMessageWord data n m (i + 28),
      GetPaddedMessageWord data n m (i + 32),
      GetPaddedMessageWord data n m (i + 36),
      GetPaddedMessageWord data n m (i + 40),
      GetPaddedMessageWord data n m (i + 44),
      GetPaddedMessageWord data n m (i + 48),
      GetPaddedMessageWord data n m (i + 52),
      GetPaddedMessageWord data n m (i + 56),
      GetPaddedMessageWord data n m (i + 60)]"

definition CalcF :: "u32 \<Rightarrow> u32 \<Rightarrow> u32 \<Rightarrow> u32 \<Rightarrow> u32" where
  "CalcF i b c d =
     (if i < 16 then d XOR (b AND (c XOR d))
      else if i < 32 then c XOR (d AND (b XOR c))
      else if i < 48 then b XOR c XOR d
      else c XOR (b OR NOT d))"

definition CalcF_data :: "u32 \<Rightarrow> IntermediateData \<Rightarrow> u32" where
  "CalcF_data i intermediate = CalcF i (im_b intermediate) (im_c intermediate) (im_d intermediate)"

definition CalcG :: "u32 \<Rightarrow> u32" where
  "CalcG i =
     (if i < 16 then i
      else if i < 32 then (5 * i + 1) mod 16
      else if i < 48 then (3 * i + 5) mod 16
      else (7 * i) mod 16)"

definition GetShift :: "u32 \<Rightarrow> u32" where
  "GetShift i = kShifts ! unat ((i div 16) * 4 + (i mod 4))"

definition LeftRotate :: "u32 \<Rightarrow> u32 \<Rightarrow> u32" where
  "LeftRotate value bits = push_bit (unat bits) value OR drop_bit (unat (32 - bits)) value"

definition ApplyStep :: "u32 \<Rightarrow> u32 list \<Rightarrow> IntermediateData \<Rightarrow> IntermediateData" where
  "ApplyStep i data intermediate =
     (let g = CalcG i;
          f = CalcF_data i intermediate + im_a intermediate + kConstants ! unat i + data ! unat g;
          s = GetShift i
      in \<lparr>im_a = im_d intermediate,
          im_b = im_b intermediate + LeftRotate f s,
          im_c = im_b intermediate,
          im_d = im_c intermediate\<rparr>)"

definition Add :: "IntermediateData \<Rightarrow> IntermediateData \<Rightarrow> IntermediateData" where
  "Add intermediate1 intermediate2 =
     \<lparr>im_a = im_a intermediate1 + im_a intermediate2, im_b = im_b intermediate1 + im_b intermediate2,
      im_c = im_c intermediate1 + im_c intermediate2, im_d = im_d intermediate1 + im_d intermediate2\<rparr>"

text \<open>The inner loop of \<open>ProcessMessage\<close>: \<open>for (uint32_t i = 0; i < 64; ++i)\<close>.\<close>

function round_loop :: "u32 \<Rightarrow> u32 list \<Rightarrow> IntermediateData \<Rightarrow> IntermediateData" where
  "round_loop i data intermediate1 =
     (if i < 64 then round_loop (i + 1) data (ApplyStep i data intermediate1)
      else intermediate1)"
  by pat_completeness auto
termination
proof (relation "measure (\<lambda>(i, data, s). 64 - unat i)", simp)
  fix i :: u32 and data :: "u32 list" and s
  assume "i < 64"
  then have "unat i < 64" by (simp add: word_less_nat_alt)
  then have "unat (i + 1) = unat i + 1" by (simp add: unat_word_ariths)
  with \<open>unat i < 64\<close> show "((i + 1, data, ApplyStep i data s), i, data, s) \<in> measure (\<lambda>(i, data, s). 64 - unat i)"
    by simp
qed

declare round_loop.simps [simp del]

text \<open>
  The outer loop, \<open>for (uint32_t offset = 0; offset < m; offset += 64)\<close>. The offset is a
  wrapping 32-bit integer, so for an \<open>m\<close> that is no multiple of 64 the loop need not end.
\<close>

partial_function (option) message_loop ::
    "bytes \<Rightarrow> u32 \<Rightarrow> u32 \<Rightarrow> u32 \<Rightarrow> IntermediateData \<Rightarrow> IntermediateData option" where
  "message_loop message n m offset intermediate0 =
     (if offset < m
      then message_loop message n m (offset + 64)
             (Add intermediate0 (round_loop 0 (GetRoundData message n m offset) intermediate0))
      else Some intermediate0)"

definition ProcessMessage :: "bytes \<Rightarrow> u32 \<Rightarrow> IntermediateData option" where
  "ProcessMessage message n =
     message_loop message n (GetPaddedMessageLength n) 0 kInitialIntermediateData"

text \<open>
  \<open>StringLength\<close> scans the memory from the pointer on for the terminating zero byte;
  \<open>None\<close> is a scan that leaves the memory without finding one.
\<close>

fun scan_zero :: "bytes \<Rightarrow> nat option" where
  "scan_zero [] = None"
| "scan_zero (x # xs) = (if x \<noteq> 0 then map_option Suc (scan_zero xs) else Some 0)"

definition StringLength :: "bytes \<Rightarrow> u32 option" where
  "StringLength string = map_option of_nat (scan_zero string)"

definition SwapEndian :: "u32 \<Rightarrow> u32" where
  "SwapEndian a =
     push_bit 24 (a AND 0xff) OR push_bit 16 (drop_bit 8 a AND 0xff) OR
     push_bit 8 (drop_bit 16 a AND 0xff) OR (drop_bit 24 a AND 0xff)"

definition Hash64 :: "bytes \<Rightarrow> u32 \<Rightarrow> u64 option" where
  "Hash64 data n =
     map_option (\<lambda>intermediate.
       push_bit 32 (ucast (SwapEndian (im_a intermediate))) OR ucast (SwapEndian (im_b intermediate)))
     (ProcessMessage data n)"

definition Hash32 :: "bytes \<Rightarrow> u32 \<Rightarrow> u32 option" where
  "Hash32 data n = map_option (\<lambda>intermediate. SwapEndian (im_a intermediate)) (ProcessMessage data n)"

text \<open>The two overloads of \<open>MD5Hash32\<close>: of a zero-terminated string, and of a buffer.\<close>

definition MD5Hash32 :: "bytes \<Rightarrow> u32 option" where
  "MD5Hash32 string = Option.bind (StringLength string) (\<lambda>n. Hash32 string n)"

definition MD5Hash32_len :: "bytes \<Rightarrow> u32 \<Rightarrow> u32 option" where
  "MD5Hash32_len string len = Hash32 string len"

section \<open>Termination of the block loop\<close>

lemma round_loop_step: "i < 64 \<Longrightarrow> round_loop i d s = round_loop (i + 1) d (ApplyStep i d s)"
  by (simp add: round_loop.simps [of i])

lemma round_loop_done: "\<not> i < 64 \<Longrightarrow> round_loop i d s = s"
  by (simp add: round_loop.simps [of i])

definition one_block :: "bytes \<Rightarrow> u32 \<Rightarrow> u32 \<Rightarrow> IntermediateData \<Rightarrow> u32 \<Rightarrow> IntermediateData" where
  "one_block message n m s offset = Add s (round_loop 0 (GetRoundData message n m offset) s)"

text \<open>
  With \<open>m = 64 * k\<close> the loop visits the offsets \<open>64 * j\<close>, \<open>64 * (j + 1)\<close>, ..., \<open>64 * (k - 1)\<close>:
  no offset wraps, because \<open>64 * k\<close> itself still fits.
\<close>

lemma message_loop_blocks:
  assumes "64 * k < 4294967296" and "j \<le> k"
  shows "message_loop message n (of_nat (64 * k)) (of_nat (64 * j)) s =
         Some (foldl (one_block message n (of_nat (64 * k))) s (map (\<lambda>i. of_nat (64 * i)) [j..<k]))"
  using assms(2)
proof (induction "k - j" arbitrary: j s)
  case 0
  then have "j = k" by simp
  then show ?case by (simp add: message_loop.simps)
next
  case (Suc x)
  then have jk: "j < k" by simp
  let ?m = "of_nat (64 * k) :: u32" and ?o = "of_nat (64 * j) :: u32"
  have lt: "?o < ?m"
    using jk assms(1) by (simp only: word_of_nat_less_iff take_bit_nat_def) simp
  have next_o: "?o + 64 = of_nat (64 * Suc j)" by simp
  have "message_loop message n ?m ?o s = message_loop message n ?m (of_nat (64 * Suc j)) (one_block message n ?m s ?o)"
    unfolding next_o [symmetric] one_block_def using lt by (subst message_loop.simps) simp
  also have "\<dots> = Some (foldl (one_block message n ?m) (one_block message n ?m s ?o)
                 (map (\<lambda>i. of_nat (64 * i)) [Suc j..<k]))"
    using Suc.hyps jk by (intro Suc.hyps(1)) auto
  also have "\<dots> = Some (foldl (one_block message n ?m) s (map (\<lambda>i. of_nat (64 * i)) [j..<k]))"
    using jk by (simp add: upt_conv_Cons)
  finally show ?case .
qed

definition n_blocks :: "u32 \<Rightarrow> nat" where
  "n_blocks n = unat ((n + 1 + 8) + 63) div 64"

lemma padded_length_blocks: "GetPaddedMessageLength n = of_nat (64 * n_blocks n)"
proof -
  have "GetPaddedMessageLength n = of_nat (unat ((n + 1 + 8 + 63) div 64) * 64)"
    by (simp add: GetPaddedMessageLength_def)
  then show ?thesis by (simp only: n_blocks_def unat_div_distrib mult.commute) simp
qed

lemma n_blocks_bound: "64 * n_blocks n < 4294967296"
proof -
  have "64 * n_blocks n \<le> unat (n + 1 + 8 + 63)" by (simp add: n_blocks_def)
  then show ?thesis using unat_u32_less [of "n + 1 + 8 + 63"] by linarith
qed

lemma unat_padded_length: "unat (GetPaddedMessageLength n) = 64 * n_blocks n"
  unfolding padded_length_blocks using n_blocks_bound by (simp only: unat_of_nat) simp

lemma process_message_blocks:
  "ProcessMessage message n =
   Some (foldl (one_block message n (GetPaddedMessageLength n)) kInitialIntermediateData
           (map (\<lambda>i. of_nat (64 * i)) [0..<n_blocks n]))"
  using message_loop_blocks [OF n_blocks_bound, of 0 n message n kInitialIntermediateData]
  by (simp add: ProcessMessage_def padded_length_blocks)

end
