(* ===== verification/Md5_Sines.thy ===== *)
theory Md5_Sines imports Complex_Main Md5 begin

text \<open>
  RFC 1321 defines its 64 constants by the sine: \<open>T[i]\<close> is the integer part of \<open>4294967296\<close> times
  \<open>abs (sin i)\<close>, \<open>i\<close> in radians. This theory takes that as the definition and proves the table of
  \<open>md5.hpp\<close> against it: the point of the circle at \<open>i\<close> is approximated with integers, scaled by \<open>2 ^ 64\<close>,
  by turning the one at 1 again and again, with an error that grows by a constant in each turn.
\<close>

definition rfc_T :: "nat \<Rightarrow> u32" where
  "rfc_T i = of_int \<lfloor>4294967296 * \<bar>sin (real i)\<bar>\<rfloor>"

section \<open>The first point\<close>

abbreviation scale :: int where
  "scale \<equiv> 18446744073709551616"

definition first_point :: "int \<times> int" where
  "first_point = (9966818358784711825, 15522399902203605024)"

definition point :: "int \<times> int \<Rightarrow> complex" where
  "point p = Complex (of_int (fst p) / of_int scale) (of_int (snd p) / of_int scale)"

text \<open>The first 24 terms of the series.\<close>

lemma sin_terms: "(\<Sum>m<24. sin_coeff m * 1 ^ m) = (4350744396907953273869 / 5170403347776995328000 :: real)"
  by (simp add: sin_coeff_def lessThan_nat_numeral lessThan_Suc fact_numeral)

lemma cos_terms: "(\<Sum>m<24. cos_coeff m * 1 ^ m) = (607300185015708631061 / 1124000727777607680000 :: real)"
  by (simp add: cos_coeff_def lessThan_nat_numeral lessThan_Suc fact_numeral)

lemma near_trans: "\<bar>x - q\<bar> \<le> u \<Longrightarrow> \<bar>q - p\<bar> \<le> v - u \<Longrightarrow> \<bar>x - p\<bar> \<le> (v :: real)"
  by linarith

lemma sin_one: "\<bar>sin 1 - of_int (snd first_point) / of_int scale\<bar> \<le> (1 / of_int scale :: real)"
  using Maclaurin_sin_bound [of 1 24] unfolding sin_terms
  by (rule near_trans) (simp add: first_point_def fact_numeral)

lemma cos_one: "\<bar>cos 1 - of_int (fst first_point) / of_int scale\<bar> \<le> (1 / of_int scale :: real)"
proof -
  obtain t :: real where t: "cos 1 = (\<Sum>m<24. cos_coeff m * 1 ^ m) + (cos (t + 1/2 * real 24 * pi) / fact 24) * 1 ^ 24"
    using Maclaurin_cos_expansion [of 1 24] by blast
  have "\<bar>cos (t + 1/2 * real 24 * pi) / fact 24\<bar> \<le> (1 / fact 24 :: real)"
    by (simp add: abs_cos_le_one divide_right_mono)
  then have "\<bar>cos 1 - 607300185015708631061 / 1124000727777607680000\<bar> \<le> (1 / fact 24 :: real)"
    using t unfolding cos_terms by simp
  then show ?thesis by (rule near_trans) (simp add: first_point_def fact_numeral)
qed

lemma cmod_Complex_le: "cmod (Complex a b) \<le> \<bar>a\<bar> + \<bar>b\<bar>"
  using cmod_le [of "Complex a b"] by simp

lemma first_point_near: "cmod (cis 1 - point first_point) \<le> 2 / of_int scale"
proof -
  have "cis 1 - point first_point =
      Complex (cos 1 - of_int (fst first_point) / of_int scale) (sin 1 - of_int (snd first_point) / of_int scale)"
    by (simp add: complex_eq_iff point_def)
  then have "cmod (cis 1 - point first_point) \<le> 1 / of_int scale + 1 / of_int scale"
    using order_trans [OF cmod_Complex_le add_mono [OF cos_one sin_one]] by (simp only:)
  then show ?thesis by simp
qed

section \<open>Turning by one\<close>

fun turn :: "int \<times> int \<Rightarrow> int \<times> int" where
  "turn (c, s) = ((c * fst first_point - s * snd first_point) div scale, (s * fst first_point + c * snd first_point) div scale)"

lemma div_near: "\<bar>of_int x / of_int scale - of_int (x div scale)\<bar> \<le> (1 :: real)"
proof -
  have "of_int (x div scale) = (of_int \<lfloor>of_int x / of_int scale :: real\<rfloor> :: real)"
    by (simp only: floor_divide_of_int_eq)
  then show ?thesis by linarith
qed

lemma turn_near: "cmod (point p * point first_point - point (turn p)) \<le> 2 / of_int scale"
proof -
  obtain c s where p: "p = (c, s)" by fastforce
  let ?x = "c * fst first_point - s * snd first_point" and ?y = "s * fst first_point + c * snd first_point"
  have scaled: "\<bar>of_int x / (of_int scale * of_int scale) - of_int (x div scale) / of_int scale\<bar> \<le> 1 / (of_int scale :: real)" for x
    using div_near [of x] by (simp add: field_simps)
  have "point p * point first_point - point (turn p) =
      Complex (of_int ?x / (of_int scale * of_int scale) - of_int (?x div scale) / of_int scale)
        (of_int ?y / (of_int scale * of_int scale) - of_int (?y div scale) / of_int scale)"
    by (simp add: complex_eq_iff point_def p diff_divide_distrib add_divide_distrib)
  then show ?thesis
    using cmod_Complex_le scaled [of ?x] scaled [of ?y] by (smt (verit) add_divide_distrib)
qed

lemma turn_step:
  assumes "cmod (cis x - point p) \<le> e" "e \<le> 1"
  shows "cmod (cis (x + 1) - point (turn p)) \<le> e + 6 / of_int scale"
proof -
  let ?d = "2 / of_int scale :: real"
  have split: "cis (x + 1) - point (turn p) = cis x * (cis 1 - point first_point) + (cis x - point p) * point first_point +
      (point p * point first_point - point (turn p))"
    by (simp add: algebra_simps flip: cis_mult)
  have one: "cmod (point first_point) \<le> 1 + ?d"
    using first_point_near norm_triangle_ineq2 [of "point first_point" "cis 1"] by (simp add: norm_minus_commute)
  have "cmod (cis (x + 1) - point (turn p)) \<le>
      cmod (cis x * (cis 1 - point first_point)) + cmod ((cis x - point p) * point first_point) +
      cmod (point p * point first_point - point (turn p))"
    unfolding split by (intro norm_triangle_mono order_refl)
  moreover have "cmod (cis x * (cis 1 - point first_point)) \<le> ?d"
    using first_point_near by (simp add: norm_mult)
  moreover have "cmod ((cis x - point p) * point first_point) \<le> e * (1 + ?d)"
    unfolding norm_mult by (intro mult_mono assms one) (use assms norm_ge_zero order_trans in blast)+
  moreover have "e * ?d \<le> 1 * ?d" using assms(2) by (intro mult_right_mono) simp_all
  ultimately show ?thesis using turn_near [of p] by (simp add: algebra_simps)
qed

section \<open>The table\<close>

fun sines :: "nat \<Rightarrow> int \<times> int \<Rightarrow> int list" where
  "sines 0 p = []"
| "sines (Suc n) p = snd p # sines n (turn p)"

lemma sines_near:
  "cmod (cis x - point p) \<le> e \<Longrightarrow> e + real n * (6 / of_int scale) \<le> 1 \<Longrightarrow> i < n \<Longrightarrow>
   \<bar>sin (x + real i) - of_int (sines n p ! i) / of_int scale\<bar> \<le> e + real n * (6 / of_int scale)"
proof (induction n arbitrary: x p e i)
  case (Suc n)
  have e: "e \<le> 1" using Suc.prems(2) by (simp add: add_divide_distrib)
  show ?case
  proof (cases i)
    case 0
    then show ?thesis
      using order_trans [OF abs_Im_le_cmod Suc.prems(1)] by (simp add: point_def add_increasing2)
  next
    case (Suc j)
    have "\<bar>sin (x + 1 + real j) - of_int (sines n (turn p) ! j) / of_int scale\<bar> \<le> (e + 6 / of_int scale) + real n * (6 / of_int scale)"
      using Suc.IH [OF turn_step [OF Suc.prems(1) e]] Suc.prems(2,3) Suc by (simp add: algebra_simps add_divide_distrib)
    then show ?thesis using Suc by (simp add: algebra_simps add_divide_distrib)
  qed
qed simp

text \<open>An integer part, read off an approximation that is far enough from the next integers.\<close>

definition reads_off :: "int \<Rightarrow> int \<Rightarrow> bool" where
  "reads_off s t \<longleftrightarrow> t * 4294967296 + 400 \<le> \<bar>s\<bar> \<and> \<bar>s\<bar> + 400 < (t + 1) * 4294967296"

lemma floor_read_off:
  assumes "\<bar>x - of_int s / of_int scale\<bar> \<le> (400 / of_int scale :: real)" "reads_off s t"
  shows "\<lfloor>4294967296 * \<bar>x\<bar>\<rfloor> = t"
proof -
  have "\<bar>\<bar>x\<bar> - of_int \<bar>s\<bar> / of_int scale\<bar> \<le> (400 / of_int scale :: real)"
    using assms(1) by (simp add: abs_if split: if_splits)
  then have near: "\<bar>4294967296 * \<bar>x\<bar> - of_int \<bar>s\<bar> / 4294967296\<bar> \<le> (400 / 4294967296 :: real)"
    by (simp add: abs_le_iff field_simps)
  have "of_int (t * 4294967296 + 400) \<le> (of_int \<bar>s\<bar> :: real)" "of_int (\<bar>s\<bar> + 400) < (of_int ((t + 1) * 4294967296) :: real)"
    using assms(2) unfolding reads_off_def of_int_le_iff of_int_less_iff by simp_all
  then have "of_int t + 400 / 4294967296 \<le> (of_int \<bar>s\<bar> / 4294967296 :: real)" "of_int \<bar>s\<bar> / 4294967296 + 400 / 4294967296 < (of_int t + 1 :: real)"
    by (simp_all add: field_simps)
  then show ?thesis using near by (intro floor_unique) linarith+
qed

lemma sines_read_off: "list_all2 reads_off (sines 64 first_point) (map uint kConstants)"
  by code_simp

lemma kConstants_sine:
  assumes "i < 64"
  shows "kConstants ! i = rfc_T (i + 1)"
proof -
  have k: "length kConstants = 64" by (simp add: kConstants_def)
  have "\<bar>sin (1 + real i) - of_int (sines 64 first_point ! i) / of_int scale\<bar> \<le> 2 / of_int scale + real 64 * (6 / of_int scale)"
    by (rule sines_near [OF first_point_near]) (use assms in simp_all)
  then have "\<bar>sin (real (i + 1)) - of_int (sines 64 first_point ! i) / of_int scale\<bar> \<le> 400 / of_int scale"
    by (simp add: add.commute)
  moreover have "reads_off (sines 64 first_point ! i) (uint (kConstants ! i))"
    using list_all2_nthD2 [OF sines_read_off, of i] assms by (simp add: k)
  ultimately have "\<lfloor>4294967296 * \<bar>sin (real (i + 1))\<bar>\<rfloor> = uint (kConstants ! i)" by (rule floor_read_off)
  then show ?thesis by (simp only: rfc_T_def) simp
qed

end
