(* ===== verification/Md5_Rfc.thy ===== *)
theory Md5_Rfc imports Md5_Sines begin

unbundle bit_operations_syntax

text \<open>
  RFC 1321's MD5, stated independently of the C++ code on whole byte lists, and the proof that
  \<open>ProcessMessage\<close> computes it. The RFC pads the message to a list and cuts it into blocks, uses
  the auxiliary functions \<open>F G H I\<close> in their textbook form, lists each round's message-word
  order and rotation amounts, takes its constants from the sine and gives the initial registers as
  bytes; the code computes padding bytes on the fly, uses cheaper forms of \<open>F\<close> and \<open>G\<close>, computes
  orders and amounts arithmetically and has its constants in tables. Only the record of the four
  registers is shared.
\<close>

section \<open>The reference\<close>

definition rfc_F :: "u32 \<Rightarrow> u32 \<Rightarrow> u32 \<Rightarrow> u32" where
  "rfc_F x y z = (x AND y) OR (NOT x AND z)"

definition rfc_G :: "u32 \<Rightarrow> u32 \<Rightarrow> u32 \<Rightarrow> u32" where
  "rfc_G x y z = (x AND z) OR (y AND NOT z)"

definition rfc_H :: "u32 \<Rightarrow> u32 \<Rightarrow> u32 \<Rightarrow> u32" where
  "rfc_H x y z = x XOR y XOR z"

definition rfc_I :: "u32 \<Rightarrow> u32 \<Rightarrow> u32 \<Rightarrow> u32" where
  "rfc_I x y z = y XOR (x OR NOT z)"

text \<open>
  Four consecutive operations \<open>[ABCD k s i] [DABC k s i] [CDAB k s i] [BCDA k s i]\<close>, each
  \<open>a = b + ((a + f(b,c,d) + X[k] + T[i]) <<< s)\<close>, on the register it names first. The operations are
  counted from 0 here and from 1 in the RFC.
\<close>

definition rfc_op ::
    "(u32 \<Rightarrow> u32 \<Rightarrow> u32 \<Rightarrow> u32) \<Rightarrow> u32 list \<Rightarrow> nat \<Rightarrow> nat \<Rightarrow> nat \<Rightarrow> u32 \<Rightarrow> u32 \<Rightarrow> u32 \<Rightarrow> u32 \<Rightarrow> u32" where
  "rfc_op f X k s i a b c d = b + word_rotl s (a + f b c d + X ! k + rfc_T (i + 1))"

fun rfc_quad ::
    "(u32 \<Rightarrow> u32 \<Rightarrow> u32 \<Rightarrow> u32) \<Rightarrow> u32 list \<Rightarrow> nat list \<Rightarrow> nat list \<Rightarrow> nat \<Rightarrow>
     IntermediateData \<Rightarrow> IntermediateData" where
  "rfc_quad f X [k1, k2, k3, k4] [s1, s2, s3, s4] i st =
     (let a = rfc_op f X k1 s1 i (im_a st) (im_b st) (im_c st) (im_d st);
          d = rfc_op f X k2 s2 (i + 1) (im_d st) a (im_b st) (im_c st);
          c = rfc_op f X k3 s3 (i + 2) (im_c st) d a (im_b st);
          b = rfc_op f X k4 s4 (i + 3) (im_b st) c d a
      in \<lparr>im_a = a, im_b = b, im_c = c, im_d = d\<rparr>)"
| "rfc_quad f X ks ss i st = st"

definition rfc_round1 :: "u32 list \<Rightarrow> IntermediateData \<Rightarrow> IntermediateData" where
  "rfc_round1 X st =
     rfc_quad rfc_F X [12, 13, 14, 15] [7, 12, 17, 22] 12
    (rfc_quad rfc_F X [8, 9, 10, 11] [7, 12, 17, 22] 8
    (rfc_quad rfc_F X [4, 5, 6, 7] [7, 12, 17, 22] 4
    (rfc_quad rfc_F X [0, 1, 2, 3] [7, 12, 17, 22] 0 st)))"

definition rfc_round2 :: "u32 list \<Rightarrow> IntermediateData \<Rightarrow> IntermediateData" where
  "rfc_round2 X st =
     rfc_quad rfc_G X [13, 2, 7, 12] [5, 9, 14, 20] 28
    (rfc_quad rfc_G X [9, 14, 3, 8] [5, 9, 14, 20] 24
    (rfc_quad rfc_G X [5, 10, 15, 4] [5, 9, 14, 20] 20
    (rfc_quad rfc_G X [1, 6, 11, 0] [5, 9, 14, 20] 16 st)))"

definition rfc_round3 :: "u32 list \<Rightarrow> IntermediateData \<Rightarrow> IntermediateData" where
  "rfc_round3 X st =
     rfc_quad rfc_H X [9, 12, 15, 2] [4, 11, 16, 23] 44
    (rfc_quad rfc_H X [13, 0, 3, 6] [4, 11, 16, 23] 40
    (rfc_quad rfc_H X [1, 4, 7, 10] [4, 11, 16, 23] 36
    (rfc_quad rfc_H X [5, 8, 11, 14] [4, 11, 16, 23] 32 st)))"

definition rfc_round4 :: "u32 list \<Rightarrow> IntermediateData \<Rightarrow> IntermediateData" where
  "rfc_round4 X st =
     rfc_quad rfc_I X [4, 11, 2, 9] [6, 10, 15, 21] 60
    (rfc_quad rfc_I X [8, 15, 6, 13] [6, 10, 15, 21] 56
    (rfc_quad rfc_I X [12, 3, 10, 1] [6, 10, 15, 21] 52
    (rfc_quad rfc_I X [0, 7, 14, 5] [6, 10, 15, 21] 48 st)))"

text \<open>Blocks of 16 words, each from four bytes, low-order byte first.\<close>

definition rfc_words :: "bytes \<Rightarrow> u32 list" where
  "rfc_words blk = map (\<lambda>i. of_le (take 4 (drop (4 * i) blk))) [0..<16]"

definition rfc_block :: "bytes \<Rightarrow> IntermediateData \<Rightarrow> IntermediateData" where
  "rfc_block blk st =
     (let X = rfc_words blk;
          st' = rfc_round4 X (rfc_round3 X (rfc_round2 X (rfc_round1 X st)))
      in \<lparr>im_a = im_a st' + im_a st, im_b = im_b st' + im_b st, im_c = im_c st' + im_c st, im_d = im_d st' + im_d st\<rparr>)"

text \<open>Padding: a one bit, zero bits up to 56 modulo 64, the bit length as 8 bytes, low first.\<close>

definition le_bytes :: "nat \<Rightarrow> nat \<Rightarrow> bytes" where
  "le_bytes w x = map (\<lambda>j. of_nat (x div 256 ^ j)) [0..<w]"

definition rfc_zeros :: "nat \<Rightarrow> nat" where
  "rfc_zeros n = (119 - n mod 64) mod 64"

definition rfc_pad :: "bytes \<Rightarrow> bytes" where
  "rfc_pad msg = msg @ [0x80] @ replicate (rfc_zeros (length msg)) 0 @ le_bytes 8 (8 * length msg)"

text \<open>The registers A, B, C and D start with these bytes, low-order first.\<close>

definition rfc_init :: IntermediateData where
  "rfc_init =
     \<lparr>im_a = of_le [0x01, 0x23, 0x45, 0x67], im_b = of_le [0x89, 0xab, 0xcd, 0xef],
      im_c = of_le [0xfe, 0xdc, 0xba, 0x98], im_d = of_le [0x76, 0x54, 0x32, 0x10]\<rparr>"

definition rfc_md5 :: "bytes \<Rightarrow> IntermediateData" where
  "rfc_md5 msg =
     foldl (\<lambda>st j. rfc_block (take 64 (drop (64 * j) (rfc_pad msg))) st)
       rfc_init [0..<length (rfc_pad msg) div 64]"

section \<open>The code's mixing steps are the RFC's\<close>

lemma mux_F: "d XOR (b AND (c XOR d)) = rfc_F b c d"
  unfolding rfc_F_def by (rule bit_word_eqI) (auto simp: bit_simps)

lemma mux_G: "c XOR (d AND (b XOR c)) = rfc_G b c d"
  unfolding rfc_G_def by (rule bit_word_eqI) (auto simp: bit_simps)

lemma word_ge_not_less: "m \<le> i \<Longrightarrow> n \<le> m \<Longrightarrow> \<not> i < (n :: 'a::len word)"
  by (meson leD order_trans)

lemma CalcF_rfc:
  "i < 16 \<Longrightarrow> CalcF i = rfc_F"
  "16 \<le> i \<Longrightarrow> i < 32 \<Longrightarrow> CalcF i = rfc_G"
  "32 \<le> i \<Longrightarrow> i < 48 \<Longrightarrow> CalcF i = rfc_H"
  "48 \<le> i \<Longrightarrow> CalcF i = rfc_I"
  by (simp_all add: CalcF_def fun_eq_iff word_ge_not_less mux_F rfc_H_def rfc_I_def)
    (simp add: mux_G flip: mux_F)

lemma LeftRotate_rotl:
  assumes "s < 32" "0 < s"
  shows "LeftRotate v (of_nat s) = word_rotl s v"
proof -
  have "unat (of_nat s :: u32) = s" "unat (32 - of_nat s :: u32) = 32 - s"
    using assms by (simp_all add: unat_of_nat unat_sub word_le_nat_alt)
  then have "LeftRotate v (of_nat s) = push_bit s v OR drop_bit (32 - s) v"
    by (simp add: LeftRotate_def)
  also have "\<dots> = word_rotl s v"
  proof (rule bit_word_eqI)
    fix n assume "n < LENGTH(32)"
    then show "bit (push_bit s v OR drop_bit (32 - s) v) n = bit (word_rotl s v) n"
    proof (cases "s \<le> n")
      case True
      then have ge: "32 \<le> n + (32 - s)" using assms by simp
      then have "(n + (32 - s)) mod 32 = n - s"
        using True \<open>n < LENGTH(32)\<close> assms by (simp add: le_mod_geq)
      moreover have "\<not> bit v (32 + n - s)"
        using ge assms bit_imp_le_length [of v "32 + n - s"] by auto
      ultimately show ?thesis using True assms \<open>n < LENGTH(32)\<close>
        by (simp add: bit_simps)
    next
      case False
      then have "(n + (32 - s)) mod 32 = n + (32 - s)" using assms by simp
      moreover have "32 + n - s = n + 32 - s" by simp
      ultimately show ?thesis using False assms \<open>n < LENGTH(32)\<close>
        by (simp add: bit_simps)
    qed
  qed
  finally show ?thesis .
qed

lemma ApplyStep_op:
  assumes "CalcF i = f" "GetShift i = of_nat s" "0 < s" "s < 32" "unat (CalcG i) = k" "unat i = j" "j < 64"
  shows "ApplyStep i X st =
    \<lparr>im_a = im_d st, im_b = rfc_op f X k s j (im_a st) (im_b st) (im_c st) (im_d st), im_c = im_b st, im_d = im_c st\<rparr>"
  using assms
  by (simp add: ApplyStep_def Let_def CalcF_data_def LeftRotate_rotl rfc_op_def kConstants_sine add_ac)

lemmas step_eval = CalcG_def GetShift_def kShifts_def

text \<open>Four steps of the code are one quadruple of the RFC.\<close>

definition four_steps :: "u32 \<Rightarrow> u32 list \<Rightarrow> IntermediateData \<Rightarrow> IntermediateData" where
  "four_steps i X st =
     ApplyStep (i + 3) X (ApplyStep (i + 2) X (ApplyStep (i + 1) X (ApplyStep i X st)))"

lemma four_steps_quad:
  assumes "CalcF i = f" "CalcF (i + 1) = f" "CalcF (i + 2) = f" "CalcF (i + 3) = f"
    and "GetShift i = of_nat s1" "GetShift (i + 1) = of_nat s2"
      "GetShift (i + 2) = of_nat s3" "GetShift (i + 3) = of_nat s4"
    and "0 < s1" "s1 < 32" "0 < s2" "s2 < 32" "0 < s3" "s3 < 32" "0 < s4" "s4 < 32"
    and "unat (CalcG i) = k1" "unat (CalcG (i + 1)) = k2"
      "unat (CalcG (i + 2)) = k3" "unat (CalcG (i + 3)) = k4"
    and "unat i = j" "unat (i + 1) = j + 1" "unat (i + 2) = j + 2" "unat (i + 3) = j + 3" "j + 3 < 64"
  shows "four_steps i X st = rfc_quad f X [k1, k2, k3, k4] [s1, s2, s3, s4] j st"
proof -
  have j: "j < 64" "j + 1 < 64" "j + 2 < 64" using assms(25) by simp_all
  note op = ApplyStep_op [OF assms(1,5,9,10,17,21) j(1)] ApplyStep_op [OF assms(2,6,11,12,18,22) j(2)]
    ApplyStep_op [OF assms(3,7,13,14,19,23) j(3)] ApplyStep_op [OF assms(4,8,15,16,20,24,25)]
  show ?thesis by (simp add: four_steps_def op Let_def)
qed

lemma round1_steps:
  "four_steps 12 X (four_steps 8 X (four_steps 4 X (four_steps 0 X st))) = rfc_round1 X st"
proof -
  have "four_steps 0 X st = rfc_quad rfc_F X [0, 1, 2, 3] [7, 12, 17, 22] 0 st" for st
    by (rule four_steps_quad) (simp_all add: step_eval CalcF_rfc)
  moreover have "four_steps 4 X st = rfc_quad rfc_F X [4, 5, 6, 7] [7, 12, 17, 22] 4 st" for st
    by (rule four_steps_quad) (simp_all add: step_eval CalcF_rfc)
  moreover have "four_steps 8 X st = rfc_quad rfc_F X [8, 9, 10, 11] [7, 12, 17, 22] 8 st" for st
    by (rule four_steps_quad) (simp_all add: step_eval CalcF_rfc)
  moreover have "four_steps 12 X st = rfc_quad rfc_F X [12, 13, 14, 15] [7, 12, 17, 22] 12 st" for st
    by (rule four_steps_quad) (simp_all add: step_eval CalcF_rfc)
  ultimately show ?thesis by (simp only: rfc_round1_def)
qed

lemma round2_steps:
  "four_steps 28 X (four_steps 24 X (four_steps 20 X (four_steps 16 X st))) = rfc_round2 X st"
proof -
  have "four_steps 16 X st = rfc_quad rfc_G X [1, 6, 11, 0] [5, 9, 14, 20] 16 st" for st
    by (rule four_steps_quad) (simp_all add: step_eval CalcF_rfc)
  moreover have "four_steps 20 X st = rfc_quad rfc_G X [5, 10, 15, 4] [5, 9, 14, 20] 20 st" for st
    by (rule four_steps_quad) (simp_all add: step_eval CalcF_rfc)
  moreover have "four_steps 24 X st = rfc_quad rfc_G X [9, 14, 3, 8] [5, 9, 14, 20] 24 st" for st
    by (rule four_steps_quad) (simp_all add: step_eval CalcF_rfc)
  moreover have "four_steps 28 X st = rfc_quad rfc_G X [13, 2, 7, 12] [5, 9, 14, 20] 28 st" for st
    by (rule four_steps_quad) (simp_all add: step_eval CalcF_rfc)
  ultimately show ?thesis by (simp only: rfc_round2_def)
qed

lemma round3_steps:
  "four_steps 44 X (four_steps 40 X (four_steps 36 X (four_steps 32 X st))) = rfc_round3 X st"
proof -
  have "four_steps 32 X st = rfc_quad rfc_H X [5, 8, 11, 14] [4, 11, 16, 23] 32 st" for st
    by (rule four_steps_quad) (simp_all add: step_eval CalcF_rfc)
  moreover have "four_steps 36 X st = rfc_quad rfc_H X [1, 4, 7, 10] [4, 11, 16, 23] 36 st" for st
    by (rule four_steps_quad) (simp_all add: step_eval CalcF_rfc)
  moreover have "four_steps 40 X st = rfc_quad rfc_H X [13, 0, 3, 6] [4, 11, 16, 23] 40 st" for st
    by (rule four_steps_quad) (simp_all add: step_eval CalcF_rfc)
  moreover have "four_steps 44 X st = rfc_quad rfc_H X [9, 12, 15, 2] [4, 11, 16, 23] 44 st" for st
    by (rule four_steps_quad) (simp_all add: step_eval CalcF_rfc)
  ultimately show ?thesis by (simp only: rfc_round3_def)
qed

lemma round4_steps:
  "four_steps 60 X (four_steps 56 X (four_steps 52 X (four_steps 48 X st))) = rfc_round4 X st"
proof -
  have "four_steps 48 X st = rfc_quad rfc_I X [0, 7, 14, 5] [6, 10, 15, 21] 48 st" for st
    by (rule four_steps_quad) (simp_all add: step_eval CalcF_rfc)
  moreover have "four_steps 52 X st = rfc_quad rfc_I X [12, 3, 10, 1] [6, 10, 15, 21] 52 st" for st
    by (rule four_steps_quad) (simp_all add: step_eval CalcF_rfc)
  moreover have "four_steps 56 X st = rfc_quad rfc_I X [8, 15, 6, 13] [6, 10, 15, 21] 56 st" for st
    by (rule four_steps_quad) (simp_all add: step_eval CalcF_rfc)
  moreover have "four_steps 60 X st = rfc_quad rfc_I X [4, 11, 2, 9] [6, 10, 15, 21] 60 st" for st
    by (rule four_steps_quad) (simp_all add: step_eval CalcF_rfc)
  ultimately show ?thesis by (simp only: rfc_round4_def)
qed

lemma round_loop_four: "i \<le> 60 \<Longrightarrow> round_loop i X st = round_loop (i + 4) X (four_steps i X st)"
proof -
  assume "i \<le> 60"
  then have le: "unat i \<le> 60" by (simp add: word_le_nat_alt)
  then have "unat (i + 1) = unat i + 1" "unat (i + 2) = unat i + 2" "unat (i + 3) = unat i + 3"
    by (simp_all add: unat_word_ariths)
  with le have "i < 64" "i + 1 < 64" "i + 2 < 64" "i + 3 < 64"
    by (simp_all add: word_less_nat_alt)
  moreover have "i + 1 + 1 = i + 2" "i + 2 + 1 = i + 3" "i + 3 + 1 = i + 4" by simp_all
  ultimately show ?thesis by (simp only: round_loop_step four_steps_def)
qed

lemma round_loop_rfc:
  "round_loop 0 X st = rfc_round4 X (rfc_round3 X (rfc_round2 X (rfc_round1 X st)))"
  unfolding round1_steps [symmetric] round2_steps [symmetric] round3_steps [symmetric]
    round4_steps [symmetric]
  by (simp add: round_loop_four round_loop_done)

section \<open>The code's padding is the RFC's\<close>

lemma length_le_bytes [simp]: "length (le_bytes w x) = w"
  by (simp add: le_bytes_def)

lemma pad_to_block: "(n :: nat) + 9 + (119 - n mod 64) mod 64 = 64 * ((n + 72) div 64)"
proof -
  define q r where "q = n div 64" and "r = n mod 64"
  then have n: "n = 64 * q + r" and r: "r < 64" by simp_all
  show ?thesis
  proof (cases "r < 56")
    case True
    then have "(119 - r) mod 64 = 55 - r" and "(64 * q + r + 72) div 64 = q + 1"
      by (simp_all add: le_mod_geq)
    with True show ?thesis unfolding n by simp
  next
    case False
    with r have "(119 - r) mod 64 = 119 - r" and "(64 * q + r + 72) div 64 = q + 2" by simp_all
    with False r show ?thesis unfolding n by simp
  qed
qed

lemma length_rfc_pad: "length (rfc_pad msg) = 64 * ((length msg + 72) div 64)"
  using pad_to_block [of "length msg"] by (simp add: rfc_pad_def rfc_zeros_def)

lemma n_blocks_small: "n < 4294967224 \<Longrightarrow> n_blocks (of_nat n) = (n + 72) div 64"
  by (simp add: n_blocks_def unat_word_ariths unat_of_nat add.assoc)

lemma ExtractByte_div: "j < 8 \<Longrightarrow> ExtractByte v (of_nat j) = of_nat (unat v div 256 ^ j)"
proof -
  assume "j < 8"
  then have sh: "unat (of_nat j * 8 :: u32) = 8 * j"
    by (simp add: unat_word_ariths unat_of_nat)
  have "unat (ExtractByte v (of_nat j)) = take_bit 8 (drop_bit (8 * j) (unat v))"
    by (simp add: ExtractByte_def sh and_255 unsigned_ucast_eq unat_drop_bit_eq unsigned_take_bit_eq)
  also have "\<dots> = unat v div 2 ^ (8 * j) mod 256"
    by (simp add: take_bit_eq_mod drop_bit_eq_div)
  also have "\<dots> = unat (of_nat (unat v div 256 ^ j) :: u8)"
    by (simp add: unat_of_nat power_mult)
  finally show ?thesis by (simp add: word_unat_eq_iff)
qed

lemma nth_le_bytes: "j < w \<Longrightarrow> le_bytes w x ! j = of_nat (x div 256 ^ j)"
  by (simp add: le_bytes_def)

lemma nth_rfc_pad:
  assumes "i < length (rfc_pad msg)"
  shows "rfc_pad msg ! i =
    (if i < length msg then msg ! i
     else if i = length msg then 0x80
     else if length (rfc_pad msg) - 8 \<le> i
       then of_nat ((8 * length msg) div 256 ^ (i - (length (rfc_pad msg) - 8)))
     else 0)"
proof -
  let ?n = "length msg" and ?z = "rfc_zeros (length msg)"
  have len: "length (rfc_pad msg) = ?n + (1 + (?z + 8))" by (simp add: rfc_pad_def)
  consider "i < ?n" | "i = ?n" | "?n < i" "i < ?n + 1 + ?z" | "?n + 1 + ?z \<le> i" by linarith
  then show ?thesis
  proof cases
    case 3
    then have "rfc_pad msg ! i = replicate ?z 0 ! (i - ?n - 1)"
      by (simp add: rfc_pad_def nth_append nth_Cons' less_diff_conv2)
    then show ?thesis using 3 by (simp add: len)
  next
    case 4
    then have "rfc_pad msg ! i = le_bytes 8 (8 * ?n) ! (i - (?n + 1 + ?z))"
      by (simp add: rfc_pad_def nth_append nth_Cons' less_diff_conv2 diff_add_eq)
    then show ?thesis using 4 assms by (simp add: len nth_le_bytes)
  qed (simp_all add: rfc_pad_def nth_append)
qed

text \<open>A message of fewer than \<open>2 ^ 29\<close> bytes: its bit length fits the 32-bit product.\<close>

lemma padded_byte:
  assumes small: "8 * length msg < 4294967296" and i: "i < length (rfc_pad msg)"
  shows "GetPaddedMessageByte (msg @ rest) (of_nat (length msg))
           (GetPaddedMessageLength (of_nat (length msg))) (of_nat i) = rfc_pad msg ! i"
proof -
  let ?n = "length msg" and ?N = "of_nat (length msg) :: u32" and ?I = "of_nat i :: u32"
  let ?L = "length (rfc_pad msg)" and ?m = "GetPaddedMessageLength (of_nat (length msg))"
  have m: "unat ?m = ?L"
    using small by (simp add: unat_padded_length n_blocks_small length_rfc_pad)
  have L: "?L < 4294967296" "?n + 9 \<le> ?L"
    using unat_u32_less [of ?m] m by (simp_all add: rfc_pad_def)
  have u: "unat ?N = ?n" "unat ?I = i"
    using small i L by (simp_all add: unat_of_nat)
  have m8: "unat (?m - 8) = ?L - 8"
    using L m by (simp add: unat_sub word_le_nat_alt)
  have lt: "?I < ?N \<longleftrightarrow> i < ?n" and eq: "?I = ?N \<longleftrightarrow> i = ?n"
    and ge: "?m - 8 \<le> ?I \<longleftrightarrow> ?L - 8 \<le> i"
    by (simp_all only: word_less_nat_alt word_le_nat_alt word_unat_eq_iff u m8)
  have tail: "ExtractByte (ucast (?N * 8)) (?I - (?m - 8)) = of_nat ((8 * ?n) div 256 ^ (i - (?L - 8)))"
    if "?L - 8 \<le> i"
  proof -
    have "unat (?I - (?m - 8)) = i - (?L - 8)"
      using that by (simp add: unat_sub ge u m8)
    then have j: "?I - (?m - 8) = of_nat (i - (?L - 8))"
      by (rule word_of_nat_eqI)
    have v: "unat (ucast (?N * 8) :: u64) = 8 * ?n"
      using small by (simp add: unsigned_ucast_eq unat_word_ariths u take_bit_nat_eq_self)
    show ?thesis using that i L unfolding j by (subst ExtractByte_div) (simp_all add: v)
  qed
  show ?thesis
    unfolding GetPaddedMessageByte_def nth_rfc_pad [OF i]
    by (simp only: lt eq ge u) (simp add: nth_append tail)
qed

lemma or_shifts:
  "ucast a OR push_bit 8 (ucast b) OR push_bit 16 (ucast c) OR push_bit 24 (ucast d)
     = of_le [a, b, c, d]"
  by (simp add: push_bit_or ac_simps)

lemma take4_drop: "i + 3 < length xs \<Longrightarrow> take 4 (drop i xs) = [xs ! i, xs ! (i + 1), xs ! (i + 2), xs ! (i + 3)]"
  by (rule nth_equalityI) (auto simp: numeral_eq_Suc less_Suc_eq nth_Cons')

lemma padded_word:
  assumes "8 * length msg < 4294967296" and "i + 3 < length (rfc_pad msg)"
  shows "GetPaddedMessageWord (msg @ rest) (of_nat (length msg))
           (GetPaddedMessageLength (of_nat (length msg))) (of_nat i)
         = of_le (take 4 (drop i (rfc_pad msg)))"
proof -
  have "(of_nat i + 1 :: u32) = of_nat (i + 1)" "(of_nat i + 2 :: u32) = of_nat (i + 2)"
    "(of_nat i + 3 :: u32) = of_nat (i + 3)" by simp_all
  then show ?thesis
    using assms by (simp only: GetPaddedMessageWord_def padded_byte or_shifts take4_drop)
qed

lemma upt16: "[0..<16] = [0, 1, 2, 3, 4, 5, 6, 7, 8, 9, 10, 11, 12, 13, 14, 15]"
  by (simp add: upt_conv_Cons)

lemma padded_round_data:
  assumes "8 * length msg < 4294967296" and "i + 64 \<le> length (rfc_pad msg)"
  shows "GetRoundData (msg @ rest) (of_nat (length msg))
           (GetPaddedMessageLength (of_nat (length msg))) (of_nat i)
         = rfc_words (take 64 (drop i (rfc_pad msg)))"
proof -
  let ?W = "GetPaddedMessageWord (msg @ rest) (of_nat (length msg))
     (GetPaddedMessageLength (of_nat (length msg)))"
  have word: "?W (of_nat i + of_nat (4 * j)) = of_le (take 4 (drop (4 * j) (take 64 (drop i (rfc_pad msg)))))"
    if "j < 16" for j
  proof -
    have "of_nat i + of_nat (4 * j) = (of_nat (i + 4 * j) :: u32)" by simp
    moreover have "take 4 (drop (4 * j) (take 64 (drop i (rfc_pad msg)))) = take 4 (drop (i + 4 * j) (rfc_pad msg))"
      using that by (simp add: drop_take min_def add.commute)
    ultimately show ?thesis
      using that assms padded_word [of msg "i + 4 * j" rest] by simp
  qed
  have "GetRoundData (msg @ rest) (of_nat (length msg)) (GetPaddedMessageLength (of_nat (length msg))) (of_nat i)
      = map (\<lambda>j. ?W (of_nat i + of_nat (4 * j))) [0..<16]"
    unfolding GetRoundData_def upt16 list.map by simp
  also have "\<dots> = rfc_words (take 64 (drop i (rfc_pad msg)))"
    unfolding rfc_words_def by (rule map_cong [OF refl]) (use word in simp)
  finally show ?thesis .
qed

lemma initial_rfc: "kInitialIntermediateData = rfc_init"
  by (simp add: kInitialIntermediateData_def rfc_init_def)

lemma process_message_rfc:
  assumes "8 * length msg < 4294967296"
  shows "ProcessMessage (msg @ rest) (of_nat (length msg)) = Some (rfc_md5 msg)"
proof -
  let ?n = "of_nat (length msg) :: u32"
  have k: "length (rfc_pad msg) div 64 = n_blocks ?n" "length (rfc_pad msg) = 64 * n_blocks ?n"
    using assms by (simp_all add: length_rfc_pad n_blocks_small)
  have "foldl (one_block (msg @ rest) ?n (GetPaddedMessageLength ?n)) s (map (\<lambda>i. of_nat (64 * i)) js)
      = foldl (\<lambda>st j. rfc_block (take 64 (drop (64 * j) (rfc_pad msg))) st) s js"
    if "set js \<subseteq> {..<n_blocks ?n}" for s js
    using that
  proof (induction js arbitrary: s)
    case (Cons j js)
    then have "one_block (msg @ rest) ?n (GetPaddedMessageLength ?n) s (of_nat (64 * j))
        = rfc_block (take 64 (drop (64 * j) (rfc_pad msg))) s"
      using padded_round_data [OF assms, of "64 * j" rest] k
      by (simp add: one_block_def rfc_block_def round_loop_rfc Let_def Add_def add.commute)
    with Cons show ?case by simp
  qed simp
  then show ?thesis
    unfolding process_message_blocks rfc_md5_def k initial_rfc by (simp add: lessThan_atLeast0)
qed

section \<open>Digests and function ids\<close>

definition rfc_digest :: "bytes \<Rightarrow> bytes" where
  "rfc_digest msg =
     (let st = rfc_md5 msg
      in le_bytes 4 (unat (im_a st)) @ le_bytes 4 (unat (im_b st)) @
         le_bytes 4 (unat (im_c st)) @ le_bytes 4 (unat (im_d st)))"

fun be_word :: "bytes \<Rightarrow> u32" where
  "be_word [x1, x2, x3, x4] =
     push_bit 24 (ucast x1) OR push_bit 16 (ucast x2) OR push_bit 8 (ucast x3) OR ucast x4"
| "be_word _ = 0"

lemma byte_of_word: "ucast (of_nat (unat (a :: u32) div 2 ^ k) :: u8) = drop_bit k a AND 0xff"
proof -
  have "unat (ucast (of_nat (unat a div 2 ^ k) :: u8) :: u32) = take_bit 8 (unat a div 2 ^ k)"
    by (simp add: unsigned_ucast_eq unsigned_of_nat)
  also have "\<dots> = unat (take_bit 8 (drop_bit k a))"
    by (simp only: unsigned_take_bit_eq unat_drop_bit_eq) (simp add: drop_bit_eq_div)
  finally show ?thesis by (simp only: and_255 word_unat_eq_iff)
qed

lemma le_bytes_4:
  "le_bytes 4 x = [of_nat (x div 2 ^ 0), of_nat (x div 2 ^ 8), of_nat (x div 2 ^ 16), of_nat (x div 2 ^ 24)]"
proof -
  have "[0..<4] = [0, 1, 2, 3]" by (simp add: upt_conv_Cons)
  then show ?thesis by (simp add: le_bytes_def)
qed

lemma SwapEndian_bytes: "SwapEndian a = be_word (le_bytes 4 (unat a))"
  unfolding le_bytes_4 be_word.simps byte_of_word SwapEndian_def drop_bit_0 id_apply ..

lemma scan_zero_append: "0 \<notin> set s \<Longrightarrow> scan_zero (s @ 0 # rest) = Some (length s)"
  by (induction s) auto

lemma StringLength_terminated: "0 \<notin> set s \<Longrightarrow> StringLength (s @ 0 # rest) = Some (of_nat (length s))"
  by (simp add: StringLength_def scan_zero_append)

lemma Hash32_rfc:
  assumes "8 * length msg < 4294967296"
  shows "Hash32 (msg @ rest) (of_nat (length msg)) = Some (be_word (take 4 (rfc_digest msg)))"
  using process_message_rfc [OF assms, of rest]
  by (simp add: Hash32_def SwapEndian_bytes rfc_digest_def Let_def)

text \<open>
  Evaluation in the kernel: \<open>word_norm\<close> brings a numeral back into 32 bits after each step, so
  that the numbers of a run stay small.
\<close>

definition word_norm :: "u32 \<Rightarrow> u32" where
  "word_norm x = x"

lemma of_int_take_bit_32: "(of_int (take_bit 32 i) :: u32) = of_int i"
  by (rule bit_word_eqI) (simp add: bit_simps)

lemma word_norm_num:
  "word_norm (numeral k) = of_int (take_bit 32 (numeral k))"
  "word_norm (- numeral k) = of_int (take_bit 32 (- numeral k))"
  "word_norm 0 = 0" "word_norm 1 = 1"
  by (simp_all only: word_norm_def of_int_take_bit_32 of_int_numeral of_int_neg_numeral)

lemma ApplyStep_eval:
  "ApplyStep i data st =
     (let f = word_norm (CalcF i (im_b st) (im_c st) (im_d st) + im_a st + kConstants ! unat i +
                data ! unat (CalcG i))
      in \<lparr>im_a = im_d st, im_b = word_norm (im_b st + LeftRotate f (GetShift i)),
          im_c = im_b st, im_d = im_c st\<rparr>)"
  by (simp add: ApplyStep_def word_norm_def CalcF_data_def Let_def)

lemmas md5_eval = round_loop_step round_loop_done ApplyStep_eval word_norm_num CalcF_def CalcG_def
  GetShift_def LeftRotate_def kConstants_def kShifts_def kInitialIntermediateData_def Let_def Add_def
  SwapEndian_def GetPaddedMessageByte_def ExtractByte_def GetRoundData_def GetPaddedMessageWord_def
  GetPaddedMessageLength_def

section \<open>Properties\<close>

text \<open>C28. On a message of fewer than \<open>2 ^ 29\<close> bytes, followed by anything in memory,
  \<open>ProcessMessage\<close> returns, and what it returns is RFC 1321's MD5 state of the message; of the RFC's constants the
  64 of the operations are the integer parts of the scaled sines.\<close>

theorem ProcessMessage_rfc:
  "8 * length msg < 4294967296 \<Longrightarrow>
     ProcessMessage (msg @ rest) (of_nat (length msg)) = Some (rfc_md5 msg)"
  by (rule process_message_rfc)

theorem ProcessMessage_rfc_witness:
  "ProcessMessage (lit ''add'' @ [0, 7]) 3 = Some (rfc_md5 (lit ''add''))"
  using ProcessMessage_rfc [of "lit ''add''" "[0, 7]"] by simp

text \<open>The function id of a zero-terminated name is the first four bytes of the name's
  MD5 digest, read high-order byte first.\<close>

theorem MD5Hash32_digest:
  "0 \<notin> set name \<Longrightarrow> 8 * length name < 4294967296 \<Longrightarrow>
     MD5Hash32 (name @ 0 # rest) = Some (be_word (take 4 (rfc_digest name)))"
  by (simp add: MD5Hash32_def StringLength_terminated Hash32_rfc)

theorem MD5Hash32_digest_witness:
  "MD5Hash32 (lit ''add'' @ [0]) = Some (be_word (take 4 (rfc_digest (lit ''add''))))"
  using MD5Hash32_digest [of "lit ''add''" "[]"] by (simp add: lit_def)

text \<open>The block loop ends for every message and every length, also where the padded length
  has wrapped around.\<close>

theorem ProcessMessage_returns: "\<exists>r. ProcessMessage message n = Some r"
  by (simp add: process_message_blocks)

text \<open>The padded length is the least multiple of 64 with room for the message, the marker
  byte and the 8-byte length, unless the 32-bit sum overflows.\<close>

theorem padded_length_least:
  "unat n < 4294967224 \<Longrightarrow>
     64 dvd unat (GetPaddedMessageLength n) \<and>
     unat n + 9 \<le> unat (GetPaddedMessageLength n) \<and> unat (GetPaddedMessageLength n) < unat n + 73"
proof -
  assume "unat n < 4294967224"
  then have "unat (n + 1 + 8 + 63) = unat n + 72" by (simp add: unat_word_ariths)
  then have "unat (GetPaddedMessageLength n) = 64 * ((unat n + 72) div 64)"
    by (simp add: unat_padded_length n_blocks_def)
  then show ?thesis by simp linarith
qed

theorem padded_length_least_witness:
  "64 dvd unat (GetPaddedMessageLength 56) \<and> 56 + 9 \<le> unat (GetPaddedMessageLength 56) \<and>
   unat (GetPaddedMessageLength 56) < 56 + 73"
  using padded_length_least [of 56] by simp

text \<open>The length trailer of the padding is only 32 bits wide: its last four bytes are zero
  whatever the length. From \<open>2 ^ 29\<close> bytes on, where the RFC writes a larger bit count there, the
  code hashes a different padding.\<close>

theorem length_trailer_truncated:
  assumes "unat n < 4294967224" and "unat i < unat (GetPaddedMessageLength n)"
    and "unat (GetPaddedMessageLength n) - 4 \<le> unat i"
  shows "GetPaddedMessageByte data n (GetPaddedMessageLength n) i = 0 \<and>
    (536870912 \<le> unat n \<longrightarrow> le_bytes 8 (8 * unat n) ! 4 \<noteq> 0)"
proof
  let ?m = "GetPaddedMessageLength n"
  have m: "unat n + 9 \<le> unat ?m"
  proof -
    have "unat (n + 1 + 8 + 63) = unat n + 72" using assms(1) by (simp add: unat_word_ariths)
    then show ?thesis by (simp add: unat_padded_length n_blocks_def)
  qed
  then have m8: "unat (?m - 8) = unat ?m - 8" by (simp add: unat_sub word_le_nat_alt)
  have ge: "?m - 8 \<le> i" and "\<not> i < n" and "i \<noteq> n"
    using assms(3) m m8 by (auto simp: word_le_nat_alt word_less_nat_alt)
  have j: "unat (i - (?m - 8)) = unat i - (unat ?m - 8)" using ge m8 by (simp add: unat_sub)
  define j where "j = unat i - (unat ?m - 8)"
  have j4: "4 \<le> j" "j < 8" using assms(2,3) m by (auto simp: j_def)
  have "ExtractByte (ucast (n * 8)) (i - (?m - 8)) = of_nat (unat (n * 8) div 256 ^ j)"
    using ExtractByte_div [of j "ucast (n * 8)"] j4 word_of_nat_eqI [OF j [folded j_def]]
    by (simp add: unsigned_ucast_eq take_bit_nat_eq_self unat_u32_less [THEN order.strict_trans])
  also have "unat (n * 8) div 256 ^ j = 0"
  proof -
    have "(256 :: nat) ^ 4 \<le> 256 ^ j" using j4 by (intro power_increasing) auto
    then show ?thesis using unat_u32_less [of "n * 8"] by simp
  qed
  finally show "GetPaddedMessageByte data n ?m i = 0"
    using ge \<open>\<not> i < n\<close> \<open>i \<noteq> n\<close> by (simp add: GetPaddedMessageByte_def)
  show "536870912 \<le> unat n \<longrightarrow> le_bytes 8 (8 * unat n) ! 4 \<noteq> 0"
  proof
    assume big: "536870912 \<le> unat n"
    have "unat n < 4294967296" by (rule unat_u32_less)
    with big have "1 \<le> 8 * unat n div 256 ^ 4" "8 * unat n div 256 ^ 4 < 256" by simp_all
    then have "unat (of_nat (8 * unat n div 256 ^ 4) :: u8) \<noteq> 0" by (simp add: unat_of_nat)
    then show "le_bytes 8 (8 * unat n) ! 4 \<noteq> 0" by (auto simp: nth_le_bytes)
  qed
qed

theorem length_trailer_truncated_witness:
  "GetPaddedMessageByte [] 0x20000000 (GetPaddedMessageLength 0x20000000) 536870972 = 0 \<and>
   le_bytes 8 (8 * 536870912) ! 4 \<noteq> 0"
  using length_trailer_truncated [of "0x20000000" 536870972 "[]"]
  by (simp add: GetPaddedMessageLength_def)

end
