(* ===== verification/Md5_Vectors.thy ===== *)
theory Md5_Vectors imports Md5_Rfc begin

text \<open>
  Test vectors of RFC 1321 for \<open>md5.hpp\<close>, evaluated in the kernel: they exercise every entry of
  the constant and shift tables and check the reference of \<open>Md5_Rfc\<close> against the RFC's own results.
\<close>

lemma vector_abc: "Hash64 (lit ''abc'') 3 = Some 0x900150983cd24fb0"
  unfolding Hash64_def process_message_blocks n_blocks_def lit_def
  by (simp add: md5_eval one_block_def)

lemma vector_digits:
  "Hash64 (lit ''12345678901234567890123456789012345678901234567890123456789012345678901234567890'') 80
     = Some 0x57edf4a22be3c955"
  unfolding Hash64_def process_message_blocks n_blocks_def lit_def
  by (simp add: md5_eval one_block_def upt_conv_Cons)

text \<open>Two of the RFC's test vectors (appendix A.5), a message of one block and one of two:
  the first eight bytes of their digests.\<close>

theorem md5_test_vectors:
  "Hash64 (lit ''abc'') 3 = Some 0x900150983cd24fb0 \<and>
   Hash64 (lit ''12345678901234567890123456789012345678901234567890123456789012345678901234567890'') 80
     = Some 0x57edf4a22be3c955"
  by (rule conjI [OF vector_abc vector_digits])

end
