(* ===== verification/Configure.thy ===== *)
theory Configure imports Rpc_Prelude begin

text \<open>
  \<open>include/rest_rpc/configure.hpp\<close>: reading \<open>rpc.conf\<close>. The file's contents are the bytes
  \<open>fgets\<close> yields; a line is at most 127 of them. \<open>Undefined\<close> and \<open>None\<close> stand for the two places
  without defined behaviour: a write before the start of an empty value, and reading from the null
  pointer of a file that could not be opened.
\<close>

section \<open>Trimming\<close>

abbreviation space :: u8 where "space \<equiv> 32"
abbreviation newline :: u8 where "newline \<equiv> 10"

definition BUFFER_SIZE :: nat where
  "BUFFER_SIZE = 128"

fun find_first_not_of :: "u8 \<Rightarrow> bytes \<Rightarrow> nat option" where
  "find_first_not_of c [] = None"
| "find_first_not_of c (x # xs) = (if x \<noteq> c then Some 0 else map_option Suc (find_first_not_of c xs))"

definition find_last_not_of :: "u8 \<Rightarrow> bytes \<Rightarrow> nat option" where
  "find_last_not_of c xs = map_option (\<lambda>i. length xs - Suc i) (find_first_not_of c (rev xs))"

fun find_char :: "u8 \<Rightarrow> bytes \<Rightarrow> nat option" where
  "find_char c [] = None"
| "find_char c (x # xs) = (if x = c then Some 0 else map_option Suc (find_char c xs))"

definition trim :: "bytes \<Rightarrow> bytes" where
  "trim s0 =
     (let s = (case find_first_not_of space s0 of Some i \<Rightarrow> drop i s0 | None \<Rightarrow> s0) in
      case find_last_not_of space s of Some i \<Rightarrow> take (Suc i) s | None \<Rightarrow> s)"

section \<open>Lines\<close>

text \<open>At most \<open>n\<close> characters of a line, what is left, and whether the end of the file was met.\<close>

fun fgets :: "nat \<Rightarrow> bytes \<Rightarrow> bytes \<times> bytes \<times> bool" where
  "fgets 0 cs = ([], cs, False)"
| "fgets (Suc n) [] = ([], [], True)"
| "fgets (Suc n) (c # cs) =
     (if c = newline then ([c], cs, False)
      else case fgets n cs of (l, rest, eof) \<Rightarrow> (c # l, rest, eof))"

datatype line = Skip | Entry bytes bytes | Undefined

definition parse_line :: "bytes \<Rightarrow> line" where
  "parse_line buf =
     (let str = trim (takeWhile (\<lambda>c. c \<noteq> 0) buf) in
      if str = [] \<or> hd str = of_char CHR ''#'' \<or> hd str = newline then Skip
      else case find_char (of_char CHR ''='') str of
        None \<Rightarrow> Skip
      | Some index \<Rightarrow>
          (let key = trim (take index str);
               value = drop (index + 1) str in
           if value = [] then Undefined
           else Entry key (trim (value[length value - 1 := space]))))"

section \<open>The file\<close>

definition insert_entry :: "bytes \<Rightarrow> bytes \<Rightarrow> (bytes \<Rightarrow> bytes option) \<Rightarrow> bytes \<Rightarrow> bytes option" where
  "insert_entry key value m = (if m key = None then m(key \<mapsto> value) else m)"

lemma fgets_progress: "fgets (Suc n) cs = (l, rest, False) \<Longrightarrow> length rest < length cs"
proof (induction n arbitrary: cs l rest)
  case (0 cs l rest)
  then show ?case by (cases cs) (auto split: if_splits)
next
  case (Suc n)
  show ?case
  proof (cases cs)
    case (Cons c cs')
    then show ?thesis using Suc.prems Suc.IH [of cs']
      by (auto split: if_splits prod.splits intro: less_SucI)
  qed (use Suc.prems in simp)
qed

lemma BUFFER_SIZE_Suc: "BUFFER_SIZE - 1 = Suc 126"
  by (simp add: BUFFER_SIZE_def)

function load_lines :: "bytes \<Rightarrow> (bytes \<Rightarrow> bytes option) \<Rightarrow> (bytes \<Rightarrow> bytes option) option" where
  "load_lines cs m =
     (case fgets (BUFFER_SIZE - 1) cs of (buf, rest, eof) \<Rightarrow>
        (case parse_line buf of
           Undefined \<Rightarrow> None
         | Skip \<Rightarrow> if eof then Some m else load_lines rest m
         | Entry key value \<Rightarrow>
             if eof then Some (insert_entry key value m) else load_lines rest (insert_entry key value m)))"
  by pat_completeness auto
termination
  by (relation "measure (\<lambda>(cs, m). length cs)") (auto simp only: BUFFER_SIZE_Suc in_measure prod.case dest!: fgets_progress [OF sym])

declare load_lines.simps [simp del]

definition load :: "bytes option \<Rightarrow> (bytes \<Rightarrow> bytes option) option" where
  "load config_file = (case config_file of None \<Rightarrow> None | Some cs \<Rightarrow> load_lines cs Map.empty)"

definition find_conf :: "bytes \<Rightarrow> (bytes \<Rightarrow> bytes option) \<Rightarrow> bytes" where
  "find_conf key configure_map = (case configure_map key of None \<Rightarrow> [] | Some value \<Rightarrow> value)"

section \<open>Trimming and reading, as specified\<close>

definition trimmed :: "bytes \<Rightarrow> bool" where
  "trimmed s \<longleftrightarrow> s \<noteq> [] \<and> hd s \<noteq> space \<and> last s \<noteq> space"

lemma find_first_spaces:
  "s \<noteq> [] \<Longrightarrow> hd s \<noteq> c \<Longrightarrow> find_first_not_of c (replicate n c @ s) = Some n"
  by (induction n) (auto simp: neq_Nil_conv)

lemma find_last_spaces:
  assumes "s \<noteq> []" "last s \<noteq> c"
  shows "find_last_not_of c (s @ replicate n c) = Some (length s - 1)"
  using find_first_spaces [of "rev s" c n] assms by (simp add: find_last_not_of_def hd_rev)

lemma trim_spaces [simp]:
  assumes "trimmed s"
  shows "trim (replicate a space @ s @ replicate b space) = s"
proof -
  have "hd (s @ replicate b space) \<noteq> space" using assms by (simp add: trimmed_def)
  then have "find_first_not_of space (replicate a space @ s @ replicate b space) = Some a"
    using assms by (intro find_first_spaces) (auto simp: trimmed_def)
  then show ?thesis using assms find_last_spaces [of s space b] by (simp add: trim_def trimmed_def)
qed

lemma find_char_split: "c \<notin> set s \<Longrightarrow> find_char c (s @ c # t) = Some (length s)"
  by (induction s) auto

lemma find_char_none: "c \<notin> set s \<Longrightarrow> find_char c s = None"
  by (induction s) auto

lemma fgets_line:
  "newline \<notin> set l \<Longrightarrow> length l < n \<Longrightarrow> fgets n (l @ newline # rest) = (l @ [newline], rest, False)"
proof (induction l arbitrary: n)
  case Nil
  then show ?case by (cases n) auto
next
  case (Cons x xs)
  then show ?case by (cases n) auto
qed

lemma fgets_last: "newline \<notin> set l \<Longrightarrow> length l < n \<Longrightarrow> fgets n l = (l, [], True)"
proof (induction l arbitrary: n)
  case Nil
  then show ?case by (cases n) auto
next
  case (Cons x xs)
  then show ?case by (cases n) auto
qed

text \<open>The three kinds of lines of a configuration file, with arbitrary spaces around key and value.\<close>

datatype conf_line = Comment bytes | Blank | Setting nat nat nat nat bytes bytes

fun render :: "conf_line \<Rightarrow> bytes" where
  "render (Comment text) = of_char CHR ''#'' # text"
| "render Blank = []"
| "render (Setting a b c d key value) =
     replicate a space @ key @ replicate b space @ of_char CHR ''='' #
     replicate c space @ value @ replicate d space"

fun conf_ok :: "conf_line \<Rightarrow> bool" where
  "conf_ok (Comment text) \<longleftrightarrow> True"
| "conf_ok Blank \<longleftrightarrow> True"
| "conf_ok (Setting a b c d key value) \<longleftrightarrow>
     trimmed key \<and> trimmed value \<and> of_char CHR ''='' \<notin> set key \<and> hd key \<noteq> of_char CHR ''#''"

fun setting :: "conf_line \<Rightarrow> (bytes \<times> bytes) list" where
  "setting (Setting a b c d key value) = [(key, value)]"
| "setting _ = []"

definition line_ok :: "conf_line \<Rightarrow> bool" where
  "line_ok l \<longleftrightarrow> conf_ok l \<and> newline \<notin> set (render l) \<and> 0 \<notin> set (render l) \<and> length (render l) < 127"

lemma trim_front: "s \<noteq> [] \<Longrightarrow> hd s \<noteq> space \<Longrightarrow> last s \<noteq> space \<Longrightarrow> trim (replicate a space @ s) = s"
  using trim_spaces [of s a 0] by (simp add: trimmed_def)

lemma takeWhile_no_zero: "0 \<notin> set s \<Longrightarrow> takeWhile (\<lambda>c. c \<noteq> (0 :: u8)) s = s"
  by (auto simp: takeWhile_eq_all_conv)

lemma parse_setting:
  assumes "trimmed key" "trimmed value" "of_char CHR ''='' \<notin> set key" "hd key \<noteq> of_char CHR ''#''"
    "newline \<notin> set key" "0 \<notin> set key" "0 \<notin> set (value @ [x])" "x \<noteq> space"
  shows "parse_line (replicate a space @ key @ replicate b space @ of_char CHR ''='' #
     replicate c space @ value @ replicate d space @ [x]) = Entry key value"
proof -
  let ?eq = "of_char CHR ''='' :: u8"
  let ?l = "key @ replicate b space @ ?eq # replicate c space @ value @ replicate d space @ [x]"
  have ne: "key \<noteq> []" "hd key \<noteq> space" "hd key \<noteq> newline"
    using assms(1,5) by (auto simp: trimmed_def neq_Nil_conv)
  have nz: "takeWhile (\<lambda>c. c \<noteq> 0) (replicate a space @ ?l) = replicate a space @ ?l"
    using assms by (intro takeWhile_no_zero) auto
  have tr: "trim (replicate a space @ ?l) = ?l"
    using ne assms(8) by (intro trim_front) auto
  have idx: "find_char ?eq ?l = Some (length (key @ replicate b space))"
    using find_char_split [of ?eq "key @ replicate b space"] assms(3) by auto
  have k: "trim (key @ replicate b space) = key" using trim_spaces [OF assms(1), of 0 b] by simp
  have v: "trim (replicate c space @ value @ replicate d space @ [space]) = value"
    using trim_spaces [OF assms(2), of c "Suc d"] by (simp add: replicate_append_same)
  show ?thesis
    unfolding parse_line_def Let_def nz tr idx using ne assms(4) k v by (simp add: list_update_append)
qed

lemma parse_rendered:
  assumes "line_ok l"
  shows "parse_line (render l @ [newline]) = (case setting l of [] \<Rightarrow> Skip | (k, v) # _ \<Rightarrow> Entry k v)"
proof (cases l)
  case (Setting a b c d key v)
  then show ?thesis using assms parse_setting [of key v newline a b c d]
    by (auto simp: line_ok_def)
next
  case (Comment s)
  let ?s = "of_char CHR ''#'' # s @ [newline] :: bytes"
  have "takeWhile (\<lambda>c. c \<noteq> 0) ?s = ?s" using assms Comment by (intro takeWhile_no_zero) (auto simp: line_ok_def)
  moreover have "trim ?s = ?s" using trim_front [of ?s 0] by simp
  ultimately show ?thesis using Comment by (simp add: parse_line_def)
next
  case Blank
  then show ?thesis using trim_front [of "[newline]" 0] by (simp add: parse_line_def)
qed

lemma load_rendered:
  assumes "line_ok l"
  shows "load_lines (render l @ newline # rest) m =
    load_lines rest (case setting l of [] \<Rightarrow> m | (k, v) # _ \<Rightarrow> insert_entry k v m)"
  using assms fgets_line [of "render l" 127 rest] parse_rendered [OF assms]
  by (subst load_lines.simps) (auto simp: BUFFER_SIZE_def line_ok_def split: list.splits)

lemma load_end: "load_lines [] m = Some m"
  by (subst load_lines.simps)
    (simp add: BUFFER_SIZE_def numeral_eq_Suc parse_line_def trim_def find_last_not_of_def)

lemma insert_entry_map_add:
  "map_of kvs ++ insert_entry k v m = map_of ((k, v) # kvs) ++ m"
  by (rule ext) (auto simp: insert_entry_def map_add_def split: option.splits)

lemma load_file:
  "\<forall>l \<in> set ls. line_ok l \<Longrightarrow>
   load_lines (concat (map (\<lambda>l. render l @ [newline]) ls)) m = Some (map_of (concat (map setting ls)) ++ m)"
proof (induction ls arbitrary: m)
  case (Cons l ls)
  then have "load_lines (concat (map (\<lambda>l. render l @ [newline]) (l # ls))) m =
    load_lines (concat (map (\<lambda>l. render l @ [newline]) ls))
      (case setting l of [] \<Rightarrow> m | (k, v) # _ \<Rightarrow> insert_entry k v m)"
    using load_rendered [of l "concat (map (\<lambda>l. render l @ [newline]) ls)" m] by simp
  then show ?case using Cons insert_entry_map_add by (cases l) (auto simp: fun_upd_def)
qed (simp add: load_end)

section \<open>Properties\<close>

text \<open>C29. A configuration file of comments, empty lines and settings, with any spaces around keys and
  values and lines of at most 127 characters, is read as what it says: each key has the value of
  its first setting.\<close>

theorem load_reads_settings:
  assumes "\<forall>l \<in> set ls. line_ok l"
  shows "\<exists>m. load (Some (concat (map (\<lambda>l. render l @ [newline]) ls))) = Some m \<and>
    find_conf key m = (case map_of (concat (map setting ls)) key of None \<Rightarrow> [] | Some value \<Rightarrow> value)"
  using load_file [OF assms, of Map.empty] by (simp add: load_def find_conf_def)

theorem load_reads_settings_witness:
  "\<exists>m. load (Some (concat (map (\<lambda>l. render l @ [newline])
      [Comment (lit ''rpc''), Setting 0 1 1 3 (lit ''rpcserver_ip'') (lit ''127.0.0.1''), Blank,
       Setting 0 1 1 0 (lit ''zookeeper_port'') (lit ''2181'')]))) = Some m \<and>
    find_conf (lit ''rpcserver_ip'') m =
      (case map_of (concat (map setting
        [Comment (lit ''rpc''), Setting 0 1 1 3 (lit ''rpcserver_ip'') (lit ''127.0.0.1''), Blank,
         Setting 0 1 1 0 (lit ''zookeeper_port'') (lit ''2181'')])) (lit ''rpcserver_ip'') of
         None \<Rightarrow> [] | Some value \<Rightarrow> value)"
  by (rule load_reads_settings) (simp add: line_ok_def trimmed_def lit_def of_char_def)

text \<open>A last line without a newline loses the last character of its value: the code blanks the
  last character of every value, taking it for the newline.\<close>

theorem unterminated_line_cut:
  assumes "trimmed key" "newline \<notin> set key" "0 \<notin> set key" "of_char CHR ''='' \<notin> set key"
    and "hd key \<noteq> of_char CHR ''#''" "trimmed value" "newline \<notin> set (value @ [x])" "0 \<notin> set (value @ [x])"
    and "x \<noteq> space" "length key + length value < 120"
  shows "\<exists>m. load (Some (key @ [of_char CHR ''=''] @ value @ [x])) = Some m \<and> find_conf key m = value"
proof -
  let ?l = "key @ of_char CHR ''='' # value @ [x]"
  have "fgets (BUFFER_SIZE - 1) ?l = (?l, [], True)"
    using assms by (intro fgets_last) (auto simp: BUFFER_SIZE_def)
  moreover have "parse_line ?l = Entry key value"
    using parse_setting [OF assms(1,6,4,5,2,3), of x 0 0 0 0] assms(8,9) by simp
  ultimately show ?thesis
    by (simp add: load_def find_conf_def insert_entry_def load_lines.simps)
qed

theorem unterminated_line_cut_witness:
  "\<exists>m. load (Some (lit ''port'' @ [of_char CHR ''=''] @ lit ''218'' @ [of_char CHR ''1''])) = Some m \<and>
    find_conf (lit ''port'') m = lit ''218''"
  by (rule unterminated_line_cut) (simp_all add: trimmed_def lit_def of_char_def)

end
