(* ===== verification/Zk_Session.thy ===== *)
theory Zk_Session imports Rpc_Prelude begin

text \<open>
  The session of \<open>include/rest_rpc/zookeeperclient.hpp\<close>: the constructor, \<open>start\<close>, the watcher and the
  destructor. \<open>start\<close> runs on the caller's thread and waits on a semaphore that lives in its own stack
  frame; the ZooKeeper C library calls \<open>global_watcher\<close> on a thread of its own whenever the session
  changes, from \<open>zookeeper_init\<close> until \<open>zookeeper_close\<close>.

  The steps of \<open>start\<close> are the calls that the other thread can observe. \<open>None\<close> is undefined behaviour:
  \<open>sem_post\<close> on a null pointer or on a semaphore that is gone.
\<close>

section \<open>State\<close>

datatype zk_phase = Unstarted | Initialised | Waiting | Started | Closed

text \<open>
  \<open>zc_handle\<close>: \<open>zhandle_\<close> is not null; \<open>zc_context\<close>: its context is the address of the semaphore;
  \<open>zc_sem\<close>: the semaphore's value while it exists. \<open>zc_events\<close> is a log: the type and state of every event
  that the library has passed to the watcher.
\<close>

record zk_client =
  zc_handle :: bool
  zc_context :: bool
  zc_sem :: "nat option"
  zc_phase :: zk_phase
  zc_events :: "(int \<times> int) list"

definition new_zk_client :: zk_client where
  "new_zk_client = \<lparr>zc_handle = False, zc_context = False, zc_sem = None, zc_phase = Unstarted, zc_events = []\<rparr>"

section \<open>Starting\<close>

text \<open>\<open>zookeeper_init\<close>, which may fail: \<open>start\<close> prints a message and goes on.\<close>

definition start_init :: "bool \<Rightarrow> zk_client \<Rightarrow> zk_client" where
  "start_init ok s = s\<lparr>zc_handle := ok, zc_phase := Initialised\<rparr>"

text \<open>\<open>sem_init\<close> and \<open>zoo_set_context\<close>, which needs a handle.\<close>

definition start_semaphore :: "zk_client \<Rightarrow> zk_client" where
  "start_semaphore s = s\<lparr>zc_sem := Some 0, zc_context := zc_handle s, zc_phase := Waiting\<rparr>"

text \<open>\<open>sem_wait\<close> gets through and \<open>start\<close> returns; \<open>None\<close> while it blocks.\<close>

definition start_return :: "zk_client \<Rightarrow> zk_client option" where
  "start_return s =
     (case zc_sem s of
        Some (Suc n) \<Rightarrow> Some (s\<lparr>zc_sem := None, zc_phase := Started\<rparr>)
      | _ \<Rightarrow> None)"

definition zk_destroy :: "zk_client \<Rightarrow> zk_client" where
  "zk_destroy s = s\<lparr>zc_handle := False, zc_phase := Closed\<rparr>"

section \<open>The watcher\<close>

text \<open>The constants \<open>ZOO_SESSION_EVENT\<close> and \<open>ZOO_CONNECTED_STATE\<close> of the library are parameters.\<close>

definition global_watcher :: "int \<Rightarrow> int \<Rightarrow> int \<Rightarrow> int \<Rightarrow> zk_client \<Rightarrow> zk_client option" where
  "global_watcher session_event connected_state type state s =
     (if type = session_event
      then if state = connected_state
           then if \<not> zc_context s then None
                else (case zc_sem s of None \<Rightarrow> None | Some n \<Rightarrow> Some (s\<lparr>zc_sem := Some (Suc n)\<rparr>))
           else Some s
      else Some s)"

inductive zk_step :: "int \<Rightarrow> int \<Rightarrow> zk_client \<Rightarrow> zk_client \<Rightarrow> bool" for session_event connected_state where
  zk_init: "zc_phase s = Unstarted \<Longrightarrow> zk_step session_event connected_state s (start_init ok s)"
| zk_semaphore: "zc_phase s = Initialised \<Longrightarrow> zk_step session_event connected_state s (start_semaphore s)"
| zk_return: "zc_phase s = Waiting \<Longrightarrow> start_return s = Some s' \<Longrightarrow> zk_step session_event connected_state s s'"
| zk_watch: "zc_handle s \<Longrightarrow> global_watcher session_event connected_state type state s = Some s' \<Longrightarrow>
    zk_step session_event connected_state s (s'\<lparr>zc_events := zc_events s @ [(type, state)]\<rparr>)"
| zk_close: "zc_phase s = Started \<Longrightarrow> zk_step session_event connected_state s (zk_destroy s)"

inductive_cases zk_stepE: "zk_step session_event connected_state s s'"

section \<open>Invariant\<close>

text \<open>While \<open>start\<close> waits, the semaphore counts the connected events.\<close>

definition zk_inv :: "int \<Rightarrow> int \<Rightarrow> zk_client \<Rightarrow> bool" where
  "zk_inv session_event connected_state s \<longleftrightarrow>
     (zc_sem s = (if zc_phase s = Waiting then Some (count_list (zc_events s) (session_event, connected_state)) else None)) \<and>
     (zc_phase s = Waiting \<longrightarrow> zc_context s = zc_handle s) \<and>
     (zc_phase s \<in> {Unstarted, Initialised} \<longrightarrow>
        \<not> zc_context s \<and> (session_event, connected_state) \<notin> set (zc_events s)) \<and>
     (\<not> zc_handle s \<longrightarrow> zc_phase s \<noteq> Closed \<longrightarrow> (session_event, connected_state) \<notin> set (zc_events s)) \<and>
     (zc_phase s = Started \<longrightarrow> zc_handle s \<and> (session_event, connected_state) \<in> set (zc_events s))"

lemma zk_inv_new: "zk_inv se cs new_zk_client"
  by (simp add: zk_inv_def new_zk_client_def)

lemma zk_inv_watcher:
  assumes "zk_inv se cs s" "zc_handle s" "global_watcher se cs ty st s = Some s'"
  shows "zk_inv se cs (s'\<lparr>zc_events := zc_events s @ [(ty, st)]\<rparr>)"
  using assms by (auto simp: zk_inv_def global_watcher_def split: if_splits)

lemma zk_inv_return:
  assumes "zk_inv se cs s" "zc_phase s = Waiting" "start_return s = Some s'"
  shows "zk_inv se cs s'"
proof -
  have "count_list (zc_events s) (se, cs) \<noteq> 0" using assms by (auto simp: zk_inv_def start_return_def split: nat.splits)
  then have "(se, cs) \<in> set (zc_events s)" by (simp add: count_list_0_iff)
  then show ?thesis using assms by (auto simp: zk_inv_def start_return_def split: nat.splits option.splits)
qed

lemma zk_inv_step: "zk_step se cs s s' \<Longrightarrow> zk_inv se cs s \<Longrightarrow> zk_inv se cs s'"
proof (induction rule: zk_step.induct)
  case (zk_watch s type state s')
  then show ?case using zk_inv_watcher by blast
next
  case (zk_return s s')
  then show ?case using zk_inv_return by blast
next
  case (zk_semaphore s)
  then show ?case by (auto simp: zk_inv_def start_semaphore_def count_list_0_iff)
qed (auto simp: zk_inv_def start_init_def zk_destroy_def)

interpretation zk_sys: invariant_system "zk_step se cs" "zk_inv se cs" for se cs
  by unfold_locales (rule zk_inv_step)

section \<open>Properties\<close>

text \<open>C35. \<open>start\<close> returns when, and only when, the library has reported the session as connected, so that
  its caller has a session that was connected; it is not woken by other events, and if \<open>zookeeper_init\<close>
  fails it never returns. But the watcher is safe only while \<open>start\<close> is waiting: of all events it is the
  connected one, before the semaphore is set, or later, as after a lost and regained connection, that
  posts a semaphore that does not exist.\<close>

theorem connected_event_only_while_waiting:
  assumes "(zk_step session_event connected_state)\<^sup>*\<^sup>* new_zk_client s"
  shows "(global_watcher session_event connected_state type state s = None
      \<longleftrightarrow> type = session_event \<and> state = connected_state \<and> (zc_phase s \<noteq> Waiting \<or> \<not> zc_handle s)) \<and>
    (zc_phase s = Started \<longrightarrow> zc_handle s \<and> (session_event, connected_state) \<in> set (zc_events s)) \<and>
    (zc_phase s = Waiting \<longrightarrow>
       (start_return s \<noteq> None \<longleftrightarrow> (session_event, connected_state) \<in> set (zc_events s)) \<and>
       (\<not> zc_handle s \<longrightarrow> start_return s = None))"
proof -
  have inv: "zk_inv session_event connected_state s" using zk_sys.reachable_good [OF assms zk_inv_new] .
  have "start_return s \<noteq> None \<longleftrightarrow> (session_event, connected_state) \<in> set (zc_events s)" if "zc_phase s = Waiting"
    using inv that count_list_0_iff [of "zc_events s" "(session_event, connected_state)"]
    by (auto simp: zk_inv_def start_return_def split: nat.splits)
  then show ?thesis using inv by (auto simp: zk_inv_def global_watcher_def)
qed

theorem connected_event_only_while_waiting_witness:
  "global_watcher (- 1) 3 (- 1) 3
     \<lparr>zc_handle = True, zc_context = True, zc_sem = None, zc_phase = Started, zc_events = [(- 1, 3)]\<rparr> = None"
proof -
  let ?s1 = "start_init True new_zk_client"
  let ?s2 = "start_semaphore ?s1"
  let ?s3 = "?s2\<lparr>zc_sem := Some 1, zc_events := [(- 1, 3)]\<rparr>"
  let ?s4 = "\<lparr>zc_handle = True, zc_context = True, zc_sem = None, zc_phase = Started, zc_events = [(- 1, 3)]\<rparr>"
  have "zk_step (- 1) 3 new_zk_client ?s1" by (rule zk_init) (simp add: new_zk_client_def)
  moreover have "zk_step (- 1) 3 ?s1 ?s2" by (rule zk_semaphore) (simp add: start_init_def)
  moreover have "zk_step (- 1) 3 ?s2 ?s3"
    using zk_watch [of ?s2 "- 1" 3 "- 1" 3 "?s2\<lparr>zc_sem := Some 1\<rparr>"]
    by (simp add: global_watcher_def start_semaphore_def start_init_def new_zk_client_def)
  moreover have "zk_step (- 1) 3 ?s3 ?s4"
    by (rule zk_return) (simp_all add: start_return_def start_semaphore_def start_init_def new_zk_client_def)
  ultimately have "(zk_step (- 1) 3)\<^sup>*\<^sup>* new_zk_client ?s4"
    by (meson converse_rtranclp_into_rtranclp rtranclp.rtrancl_refl)
  from connected_event_only_while_waiting [OF this] show ?thesis by simp
qed

end
