(* ===== verification/String_View.thy ===== *)
theory String_View imports Rpc_Prelude "HOL-Library.List_Lexorder" begin

text \<open>
  \<open>include/rest_rpc/string_view.hpp\<close>: the \<open>string_view\<close> through which replies and queued requests
  are passed, as it is compiled for C++11 (\<open>nonstd::basic_string_view<char>\<close>, exceptions on). A view
  is a pointer and a size: here the array it points into, an offset and a size. A \<open>const char*\<close> is
  an array and an offset.

  \<open>None\<close> is a failed \<open>assert\<close> or a read beyond the array (a \<open>const char*\<close> without terminating
  zero); \<open>std::out_of_range\<close> is \<open>Inl\<close>. \<open>size_type\<close> has 64 bits: no view is longer than \<open>npos - 1\<close>, so
  sizes and positions are \<open>nat\<close>.
\<close>

section \<open>Views\<close>

record view =
  vw_mem :: bytes
  vw_off :: nat
  vw_size :: nat
  vw_null :: bool

type_synonym cptr = "bytes \<times> nat"

definition npos :: nat where
  "npos = 2 ^ 64 - 1"

text \<open>The characters a view shows.\<close>

definition chars :: "view \<Rightarrow> bytes" where
  "chars v = take (vw_size v) (drop (vw_off v) (vw_mem v))"

definition view_ok :: "view \<Rightarrow> bool" where
  "view_ok v \<longleftrightarrow> vw_off v + vw_size v \<le> length (vw_mem v) \<and> length (vw_mem v) < npos \<and>
     (vw_null v \<longrightarrow> vw_size v = 0)"

fun cstr_length :: "bytes \<Rightarrow> nat \<Rightarrow> nat option" where
  "cstr_length [] result = None"
| "cstr_length (c # s) result = (if c = 0 then Some result else cstr_length s (result + 1))"

definition sv_default :: view where
  "sv_default = \<lparr>vw_mem = [], vw_off = 0, vw_size = 0, vw_null = True\<rparr>"

definition sv_of_ptr :: "cptr \<Rightarrow> nat \<Rightarrow> view" where
  "sv_of_ptr s count = \<lparr>vw_mem = fst s, vw_off = snd s, vw_size = count, vw_null = False\<rparr>"

definition sv_of_cstr :: "cptr \<Rightarrow> view option" where
  "sv_of_cstr s = map_option (sv_of_ptr s) (cstr_length (drop (snd s) (fst s)) 0)"

text \<open>A \<open>std::string\<close> is its characters and a terminating zero.\<close>

definition sv_of_string :: "bytes \<Rightarrow> view" where
  "sv_of_string s = sv_of_ptr (s @ [0], 0) (length s)"

text \<open>The view \<open>basic_string_view(&c, 1)\<close>.\<close>

definition sv_of_char :: "u8 \<Rightarrow> view" where
  "sv_of_char c = sv_of_ptr ([c], 0) 1"

definition sv_to_string :: "view \<Rightarrow> bytes" where
  "sv_to_string v = chars v"

definition to_string_view :: "bytes \<Rightarrow> view" where
  "to_string_view s = sv_of_ptr (s @ [0], 0) (length s)"

section \<open>Capacity and elements\<close>

definition sv_size :: "view \<Rightarrow> nat" where
  "sv_size v = vw_size v"

definition sv_length :: "view \<Rightarrow> nat" where
  "sv_length v = vw_size v"

definition sv_max_size :: nat where
  "sv_max_size = 2 ^ 64 - 1"

definition sv_empty :: "view \<Rightarrow> bool" where
  "sv_empty v \<longleftrightarrow> 0 = vw_size v"

definition data_at :: "view \<Rightarrow> nat \<Rightarrow> u8 option" where
  "data_at v pos = (if pos < sv_size v then Some (vw_mem v ! (vw_off v + pos)) else None)"

definition sv_index :: "view \<Rightarrow> nat \<Rightarrow> u8 option" where
  "sv_index v pos = data_at v pos"

definition sv_at :: "view \<Rightarrow> nat \<Rightarrow> u8 option res" where
  "sv_at v pos =
     (if pos \<ge> sv_size v then Inl (out_of_range (lit ''nonstd::string_view::at()''))
      else Inr (data_at v pos))"

definition sv_front :: "view \<Rightarrow> u8 option" where
  "sv_front v = data_at v 0"

text \<open>\<open>size() - 1\<close> of an empty view wraps around and fails the assertion.\<close>

definition sv_back :: "view \<Rightarrow> u8 option" where
  "sv_back v = data_at v (if sv_size v = 0 then npos else sv_size v - 1)"

section \<open>Modifiers\<close>

text \<open>The difference of two sizes, which wraps around.\<close>

definition size_minus :: "nat \<Rightarrow> nat \<Rightarrow> nat" where
  "size_minus a b = (if b \<le> a then a - b else 2 ^ 64 + a - b)"

definition remove_prefix :: "nat \<Rightarrow> view \<Rightarrow> view option" where
  "remove_prefix n v =
     (if n \<le> sv_size v then Some (v\<lparr>vw_off := vw_off v + n, vw_size := size_minus (vw_size v) n\<rparr>) else None)"

definition remove_suffix :: "nat \<Rightarrow> view \<Rightarrow> view option" where
  "remove_suffix n v = (if n \<le> sv_size v then Some (v\<lparr>vw_size := size_minus (vw_size v) n\<rparr>) else None)"

definition sv_swap :: "view \<times> view \<Rightarrow> view \<times> view" where
  "sv_swap p = (snd p, fst p)"

section \<open>String operations\<close>

text \<open>\<open>copy\<close> overwrites the first characters of the destination, an array, and yields their number; it must
  not go beyond the end of either array.\<close>

definition sv_copy :: "bytes \<Rightarrow> nat \<Rightarrow> nat \<Rightarrow> view \<Rightarrow> (bytes \<times> nat) res option" where
  "sv_copy dest n pos v =
     (if pos > sv_size v then Some (Inl (out_of_range (lit ''nonstd::string_view::copy()'')))
      else (let rlen = min n (size_minus (sv_size v) pos) in
            if length dest < rlen \<or> length (vw_mem v) < vw_off v + pos + rlen then None
            else Some (Inr (take rlen (drop (vw_off v + pos) (vw_mem v)) @ drop rlen dest, rlen))))"

definition sv_substr :: "view \<Rightarrow> nat \<Rightarrow> nat \<Rightarrow> view res" where
  "sv_substr v pos n =
     (if pos > sv_size v then Inl (out_of_range (lit ''nonstd::string_view::substr()''))
      else Inr (v\<lparr>vw_off := vw_off v + pos, vw_size := min n (size_minus (sv_size v) pos)\<rparr>))"

text \<open>\<open>std::char_traits<char>::compare\<close>: the bytes as unsigned numbers.\<close>

fun traits_compare :: "bytes \<Rightarrow> bytes \<Rightarrow> int" where
  "traits_compare (x # xs) (y # ys) = (if x < y then - 1 else if y < x then 1 else traits_compare xs ys)"
| "traits_compare _ _ = 0"

definition sv_compare :: "view \<Rightarrow> view \<Rightarrow> int" where
  "sv_compare v other =
     (let result = traits_compare (take (min (sv_size v) (sv_size other)) (chars v))
                     (take (min (sv_size v) (sv_size other)) (chars other))
      in if result \<noteq> 0 then result
         else if sv_size v = sv_size other then 0 else if sv_size v < sv_size other then - 1 else 1)"

definition sv_compare_sub :: "view \<Rightarrow> nat \<Rightarrow> nat \<Rightarrow> view \<Rightarrow> int res" where
  "sv_compare_sub v pos1 n1 other = map_sum id (\<lambda>w. sv_compare w other) (sv_substr v pos1 n1)"

definition sv_compare_subs :: "view \<Rightarrow> nat \<Rightarrow> nat \<Rightarrow> view \<Rightarrow> nat \<Rightarrow> nat \<Rightarrow> int res" where
  "sv_compare_subs v pos1 n1 other pos2 n2 =
     (case sv_substr v pos1 n1 of
        Inl e \<Rightarrow> Inl e
      | Inr w \<Rightarrow> map_sum id (sv_compare w) (sv_substr other pos2 n2))"

definition sv_compare_cstr :: "view \<Rightarrow> cptr \<Rightarrow> int option" where
  "sv_compare_cstr v s = map_option (sv_compare v) (sv_of_cstr s)"

definition sv_compare_sub_cstr :: "view \<Rightarrow> nat \<Rightarrow> nat \<Rightarrow> cptr \<Rightarrow> int res option" where
  "sv_compare_sub_cstr v pos1 n1 s = map_option (sv_compare_sub v pos1 n1) (sv_of_cstr s)"

definition sv_compare_sub_ptr :: "view \<Rightarrow> nat \<Rightarrow> nat \<Rightarrow> cptr \<Rightarrow> nat \<Rightarrow> int res" where
  "sv_compare_sub_ptr v pos1 n1 s n2 = sv_compare_sub v pos1 n1 (sv_of_ptr s n2)"

section \<open>Prefixes and suffixes\<close>

text \<open>\<open>compare(0, v.size(), v)\<close> cannot throw here.\<close>

definition starts_with :: "view \<Rightarrow> view \<Rightarrow> bool" where
  "starts_with v w \<longleftrightarrow> sv_size v \<ge> sv_size w \<and> sv_compare_sub v 0 (sv_size w) w = Inr 0"

definition starts_with_char :: "view \<Rightarrow> u8 \<Rightarrow> bool" where
  "starts_with_char v c = starts_with v (sv_of_char c)"

definition starts_with_cstr :: "view \<Rightarrow> cptr \<Rightarrow> bool option" where
  "starts_with_cstr v s = map_option (starts_with v) (sv_of_cstr s)"

definition ends_with :: "view \<Rightarrow> view \<Rightarrow> bool" where
  "ends_with v w \<longleftrightarrow>
     sv_size v \<ge> sv_size w \<and> sv_compare_sub v (sv_size v - sv_size w) npos w = Inr 0"

definition ends_with_char :: "view \<Rightarrow> u8 \<Rightarrow> bool" where
  "ends_with_char v c = ends_with v (sv_of_char c)"

definition ends_with_cstr :: "view \<Rightarrow> cptr \<Rightarrow> bool option" where
  "ends_with_cstr v s = map_option (ends_with v) (sv_of_cstr s)"

section \<open>The algorithms of the standard library\<close>

text \<open>Each yields the distance of the result from the first iterator, \<open>None\<close> for the last one.\<close>

fun std_search :: "bytes \<Rightarrow> bytes \<Rightarrow> nat option" where
  "std_search [] w = (if w = [] then Some 0 else None)"
| "std_search (c # h) w =
     (if take (length w) (c # h) = w then Some 0 else map_option Suc (std_search h w))"

fun std_find_end :: "bytes \<Rightarrow> bytes \<Rightarrow> nat option" where
  "std_find_end [] w = None"
| "std_find_end (c # h) w =
     (case std_find_end h w of
        Some i \<Rightarrow> Some (Suc i)
      | None \<Rightarrow> if w \<noteq> [] \<and> take (length w) (c # h) = w then Some 0 else None)"

fun std_find_if :: "(u8 \<Rightarrow> bool) \<Rightarrow> bytes \<Rightarrow> nat option" where
  "std_find_if p [] = None"
| "std_find_if p (c # h) = (if p c then Some 0 else map_option Suc (std_find_if p h))"

definition std_find_first_of :: "bytes \<Rightarrow> bytes \<Rightarrow> nat option" where
  "std_find_first_of h w = std_find_if (\<lambda>c. c \<in> set w) h"

text \<open>\<open>to_pos\<close> of a forward iterator that started at \<open>pos\<close>, and of a reverse one that started there.\<close>

definition to_pos :: "nat \<Rightarrow> nat option \<Rightarrow> nat" where
  "to_pos pos r = (case r of None \<Rightarrow> npos | Some i \<Rightarrow> pos + i)"

definition to_pos_reverse :: "nat \<Rightarrow> nat option \<Rightarrow> nat" where
  "to_pos_reverse pos r = (case r of None \<Rightarrow> npos | Some j \<Rightarrow> pos - j)"

section \<open>Searching\<close>

definition sv_find :: "view \<Rightarrow> view \<Rightarrow> nat \<Rightarrow> nat option" where
  "sv_find v w pos =
     (if sv_size w = 0 \<or> \<not> vw_null w
      then Some (if pos \<ge> sv_size v then npos else to_pos pos (std_search (drop pos (chars v)) (chars w)))
      else None)"

definition sv_find_char :: "view \<Rightarrow> u8 \<Rightarrow> nat \<Rightarrow> nat option" where
  "sv_find_char v c pos = sv_find v (sv_of_char c) pos"

definition sv_find_ptr :: "view \<Rightarrow> cptr \<Rightarrow> nat \<Rightarrow> nat \<Rightarrow> nat option" where
  "sv_find_ptr v s pos n = sv_find v (sv_of_ptr s n) pos"

definition sv_find_cstr :: "view \<Rightarrow> cptr \<Rightarrow> nat \<Rightarrow> nat option" where
  "sv_find_cstr v s pos = (case sv_of_cstr s of None \<Rightarrow> None | Some w \<Rightarrow> sv_find v w pos)"

definition sv_rfind :: "view \<Rightarrow> view \<Rightarrow> nat \<Rightarrow> nat" where
  "sv_rfind v w pos =
     (if sv_size v < sv_size w then npos
      else if sv_empty w then min (sv_size v) pos
      else (let last = min (sv_size v - sv_size w) pos + sv_size w in
            case std_find_end (take last (chars v)) (chars w) of
              Some result \<Rightarrow> result
            | None \<Rightarrow> npos))"

definition sv_rfind_char :: "view \<Rightarrow> u8 \<Rightarrow> nat \<Rightarrow> nat" where
  "sv_rfind_char v c pos = sv_rfind v (sv_of_char c) pos"

definition sv_rfind_ptr :: "view \<Rightarrow> cptr \<Rightarrow> nat \<Rightarrow> nat \<Rightarrow> nat" where
  "sv_rfind_ptr v s pos n = sv_rfind v (sv_of_ptr s n) pos"

definition sv_rfind_cstr :: "view \<Rightarrow> cptr \<Rightarrow> nat \<Rightarrow> nat option" where
  "sv_rfind_cstr v s pos = map_option (\<lambda>w. sv_rfind v w pos) (sv_of_cstr s)"

definition sv_find_first_of :: "view \<Rightarrow> view \<Rightarrow> nat \<Rightarrow> nat" where
  "sv_find_first_of v w pos =
     (if pos \<ge> sv_size v then npos else to_pos pos (std_find_first_of (drop pos (chars v)) (chars w)))"

definition sv_find_first_of_char :: "view \<Rightarrow> u8 \<Rightarrow> nat \<Rightarrow> nat" where
  "sv_find_first_of_char v c pos = sv_find_first_of v (sv_of_char c) pos"

definition sv_find_first_of_ptr :: "view \<Rightarrow> cptr \<Rightarrow> nat \<Rightarrow> nat \<Rightarrow> nat" where
  "sv_find_first_of_ptr v s pos n = sv_find_first_of v (sv_of_ptr s n) pos"

definition sv_find_first_of_cstr :: "view \<Rightarrow> cptr \<Rightarrow> nat \<Rightarrow> nat option" where
  "sv_find_first_of_cstr v s pos = map_option (\<lambda>w. sv_find_first_of v w pos) (sv_of_cstr s)"

text \<open>A position past the end is replaced by the last one; the reverse search starts there.\<close>

definition sv_find_last_of :: "view \<Rightarrow> view \<Rightarrow> nat \<Rightarrow> nat" where
  "sv_find_last_of v w pos0 =
     (if sv_empty v then npos
      else (let pos = (if pos0 \<ge> sv_size v then sv_size v - 1 else pos0) in
            to_pos_reverse pos (std_find_first_of (rev (take (pos + 1) (chars v))) (chars w))))"

definition sv_find_last_of_char :: "view \<Rightarrow> u8 \<Rightarrow> nat \<Rightarrow> nat" where
  "sv_find_last_of_char v c pos = sv_find_last_of v (sv_of_char c) pos"

definition sv_find_last_of_ptr :: "view \<Rightarrow> cptr \<Rightarrow> nat \<Rightarrow> nat \<Rightarrow> nat" where
  "sv_find_last_of_ptr v s pos count = sv_find_last_of v (sv_of_ptr s count) pos"

definition sv_find_last_of_cstr :: "view \<Rightarrow> cptr \<Rightarrow> nat \<Rightarrow> nat option" where
  "sv_find_last_of_cstr v s pos = map_option (\<lambda>w. sv_find_last_of v w pos) (sv_of_cstr s)"

definition not_in_view :: "view \<Rightarrow> u8 \<Rightarrow> bool" where
  "not_in_view v c \<longleftrightarrow> npos = sv_find_first_of_char v c 0"

definition sv_find_first_not_of :: "view \<Rightarrow> view \<Rightarrow> nat \<Rightarrow> nat" where
  "sv_find_first_not_of v w pos =
     (if pos \<ge> sv_size v then npos else to_pos pos (std_find_if (not_in_view w) (drop pos (chars v))))"

definition sv_find_first_not_of_char :: "view \<Rightarrow> u8 \<Rightarrow> nat \<Rightarrow> nat" where
  "sv_find_first_not_of_char v c pos = sv_find_first_not_of v (sv_of_char c) pos"

definition sv_find_first_not_of_ptr :: "view \<Rightarrow> cptr \<Rightarrow> nat \<Rightarrow> nat \<Rightarrow> nat" where
  "sv_find_first_not_of_ptr v s pos count = sv_find_first_not_of v (sv_of_ptr s count) pos"

definition sv_find_first_not_of_cstr :: "view \<Rightarrow> cptr \<Rightarrow> nat \<Rightarrow> nat option" where
  "sv_find_first_not_of_cstr v s pos = map_option (\<lambda>w. sv_find_first_not_of v w pos) (sv_of_cstr s)"

definition sv_find_last_not_of :: "view \<Rightarrow> view \<Rightarrow> nat \<Rightarrow> nat" where
  "sv_find_last_not_of v w pos0 =
     (if sv_empty v then npos
      else (let pos = (if pos0 \<ge> sv_size v then sv_size v - 1 else pos0) in
            to_pos_reverse pos (std_find_if (not_in_view w) (rev (take (pos + 1) (chars v))))))"

definition sv_find_last_not_of_char :: "view \<Rightarrow> u8 \<Rightarrow> nat \<Rightarrow> nat" where
  "sv_find_last_not_of_char v c pos = sv_find_last_not_of v (sv_of_char c) pos"

definition sv_find_last_not_of_ptr :: "view \<Rightarrow> cptr \<Rightarrow> nat \<Rightarrow> nat \<Rightarrow> nat" where
  "sv_find_last_not_of_ptr v s pos count = sv_find_last_not_of v (sv_of_ptr s count) pos"

definition sv_find_last_not_of_cstr :: "view \<Rightarrow> cptr \<Rightarrow> nat \<Rightarrow> nat option" where
  "sv_find_last_not_of_cstr v s pos = map_option (\<lambda>w. sv_find_last_not_of v w pos) (sv_of_cstr s)"

section \<open>Operators\<close>

definition sv_eq :: "view \<Rightarrow> view \<Rightarrow> bool" where
  "sv_eq lhs rhs \<longleftrightarrow> sv_compare lhs rhs = 0"

definition sv_ne :: "view \<Rightarrow> view \<Rightarrow> bool" where
  "sv_ne lhs rhs \<longleftrightarrow> sv_compare lhs rhs \<noteq> 0"

definition sv_lt :: "view \<Rightarrow> view \<Rightarrow> bool" where
  "sv_lt lhs rhs \<longleftrightarrow> sv_compare lhs rhs < 0"

definition sv_le :: "view \<Rightarrow> view \<Rightarrow> bool" where
  "sv_le lhs rhs \<longleftrightarrow> sv_compare lhs rhs \<le> 0"

definition sv_gt :: "view \<Rightarrow> view \<Rightarrow> bool" where
  "sv_gt lhs rhs \<longleftrightarrow> sv_compare lhs rhs > 0"

definition sv_ge :: "view \<Rightarrow> view \<Rightarrow> bool" where
  "sv_ge lhs rhs \<longleftrightarrow> sv_compare lhs rhs \<ge> 0"

text \<open>The overloads for an operand that converts to a view; two of them compare the sizes first.\<close>

definition sv_eq_converted :: "view \<Rightarrow> view \<Rightarrow> bool" where
  "sv_eq_converted lhs rhs \<longleftrightarrow> sv_size lhs = sv_size rhs \<and> sv_compare lhs rhs = 0"

definition sv_ne_converted :: "view \<Rightarrow> view \<Rightarrow> bool" where
  "sv_ne_converted lhs rhs \<longleftrightarrow> sv_size lhs \<noteq> sv_size rhs \<or> sv_compare lhs rhs \<noteq> 0"

section \<open>Output\<close>

record stream =
  os_good :: bool
  os_width :: int
  os_right :: bool
  os_fill :: u8
  os_out :: bytes

definition write_padding :: "int \<Rightarrow> stream \<Rightarrow> stream" where
  "write_padding n os = os\<lparr>os_out := os_out os @ replicate (nat n) (os_fill os)\<rparr>"

definition write_to_stream :: "stream \<Rightarrow> view \<Rightarrow> stream" where
  "write_to_stream os v =
     (if \<not> os_good os then os
      else
        (let len = int (sv_length v);
             pad = (len < os_width os);
             left_pad = (pad \<and> os_right os);
             os1 = (if left_pad then write_padding (os_width os - len) os else os);
             os2 = os1\<lparr>os_out := os_out os1 @ chars v\<rparr>;
             os3 = (if pad \<and> \<not> left_pad then write_padding (os_width os - len) os2 else os2)
         in os3\<lparr>os_width := 0\<rparr>))"

section \<open>Views as strings\<close>

text \<open>The abstraction of a view is the string it shows; each operation is one on that string.\<close>

lemma length_chars: "view_ok v \<Longrightarrow> length (chars v) = vw_size v"
  by (auto simp: view_ok_def chars_def)

lemma view_ok_string: "length s < npos - 1 \<Longrightarrow> view_ok (sv_of_string s) \<and> chars (sv_of_string s) = s"
  by (simp add: view_ok_def sv_of_string_def sv_of_ptr_def chars_def)

lemma view_ok_char: "view_ok (sv_of_char c)" "chars (sv_of_char c) = [c]"
  by (simp_all add: view_ok_def sv_of_char_def sv_of_ptr_def chars_def npos_def)

lemma cstr_length_zero:
  "0 \<notin> set s \<Longrightarrow> cstr_length (s @ 0 # rest) n = Some (n + length s)"
  by (induction s arbitrary: n) auto

lemma view_of_cstr:
  assumes "0 \<notin> set s" "length (pre @ s @ 0 # rest) < npos"
  shows "\<exists>v. sv_of_cstr (pre @ s @ 0 # rest, length pre) = Some v \<and> view_ok v \<and> chars v = s"
  using assms cstr_length_zero [OF assms(1), of rest 0]
  by (simp add: sv_of_cstr_def sv_of_ptr_def view_ok_def chars_def)

lemma data_at_chars: "view_ok v \<Longrightarrow> data_at v pos = (if pos < vw_size v then Some (chars v ! pos) else None)"
  by (simp add: data_at_def sv_size_def chars_def view_ok_def)

lemma size_minus_le [simp]: "b \<le> a \<Longrightarrow> size_minus a b = a - b"
  by (simp add: size_minus_def)

lemma remove_prefix_chars:
  "view_ok v \<Longrightarrow> remove_prefix n v = Some w \<Longrightarrow> view_ok w \<and> chars w = drop n (chars v)"
  by (auto simp: remove_prefix_def view_ok_def chars_def sv_size_def drop_take add.commute split: if_splits)

lemma remove_suffix_chars:
  assumes "view_ok v" "remove_suffix n v = Some w"
  shows "view_ok w \<and> chars w = take (length (chars v) - n) (chars v)"
proof -
  have w: "w = v\<lparr>vw_size := vw_size v - n\<rparr>" using assms(2) by (auto simp: remove_suffix_def sv_size_def split: if_splits)
  show ?thesis using assms(1) unfolding length_chars [OF assms(1)]
    by (auto simp: w view_ok_def chars_def min_def)
qed

lemma substr_chars:
  "view_ok v \<Longrightarrow> sv_substr v pos n = Inr w \<Longrightarrow>
   view_ok w \<and> vw_mem w = vw_mem v \<and> chars w = take n (drop pos (chars v))"
  by (auto simp: sv_substr_def view_ok_def chars_def sv_size_def drop_take add.commute split: if_splits)

lemma substr_result:
  assumes "view_ok v"
  shows "if pos \<le> length (chars v)
    then \<exists>w. sv_substr v pos n = Inr w \<and> view_ok w \<and> vw_mem w = vw_mem v \<and> chars w = take n (drop pos (chars v))
    else sv_substr v pos n = Inl (out_of_range (lit ''nonstd::string_view::substr()''))"
  using substr_chars [OF assms, of pos n]
  by (cases "sv_substr v pos n") (auto simp: sv_substr_def length_chars [OF assms] sv_size_def split: if_splits)

lemma copy_result:
  assumes "view_ok v"
  shows "sv_copy dest n pos v =
    (if length (chars v) < pos then Some (Inl (out_of_range (lit ''nonstd::string_view::copy()'')))
     else (let s = take n (drop pos (chars v)) in
           if length dest < length s then None else Some (Inr (s @ drop (length s) dest, length s))))"
proof (cases "pos > sv_size v")
  case False
  then have "take n (drop pos (chars v)) = take (min n (sv_size v - pos)) (drop (vw_off v + pos) (vw_mem v))"
    by (simp add: chars_def sv_size_def drop_take add.commute min.commute)
  moreover have "length (take n (drop pos (chars v))) = min n (sv_size v - pos)"
    using length_chars [OF assms] by (simp add: sv_size_def)
  moreover have "vw_off v + pos + min n (sv_size v - pos) \<le> length (vw_mem v)"
    using assms False by (auto simp: view_ok_def sv_size_def min_def)
  ultimately show ?thesis using False length_chars [OF assms] by (simp add: sv_copy_def sv_size_def Let_def)
qed (simp add: sv_copy_def length_chars [OF assms] sv_size_def)

lemma prefix_result:
  assumes "view_ok v"
  shows "if n \<le> length (chars v)
    then \<exists>w. remove_prefix n v = Some w \<and> view_ok w \<and> vw_mem w = vw_mem v \<and> chars w = drop n (chars v)
    else remove_prefix n v = None"
  using remove_prefix_chars [OF assms, of n]
  by (cases "remove_prefix n v") (auto simp: remove_prefix_def length_chars [OF assms] sv_size_def split: if_splits)

lemma suffix_result:
  assumes "view_ok v"
  shows "if n \<le> length (chars v)
    then \<exists>w. remove_suffix n v = Some w \<and> view_ok w \<and> vw_mem w = vw_mem v \<and> chars w = take (length (chars v) - n) (chars v)
    else remove_suffix n v = None"
  using remove_suffix_chars [OF assms, of n]
  by (cases "remove_suffix n v") (auto simp: remove_suffix_def length_chars [OF assms] sv_size_def split: if_splits)

text \<open>C33. \<open>substr\<close>, \<open>copy\<close>, \<open>remove_prefix\<close> and \<open>remove_suffix\<close> are the operations on the string the view
  shows, without touching its characters. They stay inside the array. For a start behind the end, and
  only then, \<open>substr\<close> and \<open>copy\<close> throw the documented \<open>out_of_range\<close>; for more characters than there
  are, and only then, \<open>remove_prefix\<close> and \<open>remove_suffix\<close> fail their assertion; and \<open>copy\<close> needs room for
  what it copies.\<close>

theorem sub_views_refine:
  assumes "view_ok v"
  shows "(if pos \<le> length (chars v)
      then \<exists>w. sv_substr v pos n = Inr w \<and> view_ok w \<and> vw_mem w = vw_mem v \<and> chars w = take n (drop pos (chars v))
      else sv_substr v pos n = Inl (out_of_range (lit ''nonstd::string_view::substr()''))) \<and>
   sv_copy dest n pos v =
     (if length (chars v) < pos then Some (Inl (out_of_range (lit ''nonstd::string_view::copy()'')))
      else (let s = take n (drop pos (chars v)) in
            if length dest < length s then None else Some (Inr (s @ drop (length s) dest, length s)))) \<and>
   (if n \<le> length (chars v)
      then \<exists>w. remove_prefix n v = Some w \<and> view_ok w \<and> vw_mem w = vw_mem v \<and> chars w = drop n (chars v)
      else remove_prefix n v = None) \<and>
   (if n \<le> length (chars v)
      then \<exists>w. remove_suffix n v = Some w \<and> view_ok w \<and> vw_mem w = vw_mem v \<and> chars w = take (length (chars v) - n) (chars v)
      else remove_suffix n v = None)"
  by (intro conjI substr_result copy_result prefix_result suffix_result assms)

theorem sub_views_refine_witness:
  "sv_copy (lit ''HELLO'') 3 1 (sv_of_string (lit ''hello'')) = Some (Inr (lit ''ellLO'', 3)) \<and>
   (\<exists>w. sv_substr (sv_of_string (lit ''hello'')) 1 3 = Inr w \<and> chars w = lit ''ell'')"
proof -
  have ok: "view_ok (sv_of_string (lit ''hello''))" "chars (sv_of_string (lit ''hello'')) = lit ''hello''"
    using view_ok_string [of "lit ''hello''"] by (simp_all add: npos_def)
  show ?thesis
    using sub_views_refine [OF ok(1), of 1 3 "lit ''HELLO''"] unfolding ok(2) by (auto simp: lit_def Let_def)
qed

section \<open>Comparison\<close>

lemma compare_lists:
  "(let r = traits_compare (take (min (length xs) (length ys)) xs) (take (min (length xs) (length ys)) ys);
        c = (if r \<noteq> 0 then r else if length xs = length ys then 0 else if length xs < length ys then - 1 else 1)
    in (c = 0 \<longleftrightarrow> xs = ys) \<and> (c < 0 \<longleftrightarrow> xs < ys))"
proof (induction xs arbitrary: ys)
  case Nil
  then show ?case by (cases ys) (auto simp: Let_def)
next
  case (Cons x xs)
  then show ?case
  proof (cases ys)
    case (Cons y zs)
    then show ?thesis using Cons.IH [of zs] by (auto simp: Let_def split: if_splits)
  qed (simp add: Let_def)
qed

lemma compare_chars:
  assumes "view_ok v" "view_ok w"
  shows "sv_compare v w = 0 \<longleftrightarrow> chars v = chars w" "sv_compare v w < 0 \<longleftrightarrow> chars v < chars w"
proof -
  let ?r = "traits_compare (take (min (length (chars v)) (length (chars w))) (chars v))
      (take (min (length (chars v)) (length (chars w))) (chars w))"
  have "sv_compare v w = (if ?r \<noteq> 0 then ?r else if length (chars v) = length (chars w) then 0
      else if length (chars v) < length (chars w) then - 1 else 1)"
    by (simp add: sv_compare_def sv_size_def Let_def length_chars [OF assms(1)] length_chars [OF assms(2)])
  then show "sv_compare v w = 0 \<longleftrightarrow> chars v = chars w" "sv_compare v w < 0 \<longleftrightarrow> chars v < chars w"
    using compare_lists [of "chars v" "chars w"] by (simp_all only: Let_def)
qed

text \<open>\<open>compare\<close> is the lexicographic order of the two strings by unsigned bytes, and all comparison
  operators, the ones for converted operands included, agree with it.\<close>

theorem compare_is_lexicographic:
  assumes "view_ok v" "view_ok w"
  shows "(sv_eq v w \<longleftrightarrow> chars v = chars w) \<and> (sv_ne v w \<longleftrightarrow> chars v \<noteq> chars w) \<and>
    (sv_lt v w \<longleftrightarrow> chars v < chars w) \<and> (sv_le v w \<longleftrightarrow> chars v \<le> chars w) \<and>
    (sv_gt v w \<longleftrightarrow> chars v > chars w) \<and> (sv_ge v w \<longleftrightarrow> chars v \<ge> chars w) \<and>
    (sv_eq_converted v w \<longleftrightarrow> chars v = chars w) \<and> (sv_ne_converted v w \<longleftrightarrow> chars v \<noteq> chars w)"
proof -
  note c = compare_chars [OF assms]
  have len: "sv_size v = length (chars v)" "sv_size w = length (chars w)"
    using length_chars assms by (simp_all add: sv_size_def)
  have lt: "sv_compare v w < 0 \<longleftrightarrow> chars v < chars w" "sv_compare v w \<le> 0 \<longleftrightarrow> chars v \<le> chars w"
    "0 < sv_compare v w \<longleftrightarrow> chars w < chars v" "0 \<le> sv_compare v w \<longleftrightarrow> chars w \<le> chars v"
    using c by (auto simp: less_le not_less)
  show ?thesis
    unfolding sv_eq_def sv_ne_def sv_lt_def sv_le_def sv_gt_def sv_ge_def sv_eq_converted_def sv_ne_converted_def len
    using c(1) lt by auto
qed

theorem compare_is_lexicographic_witness:
  "sv_lt (sv_of_string (lit ''ab'')) (sv_of_string (lit ''b'' @ [200])) \<and>
   \<not> sv_eq_converted (sv_of_string (lit ''ab'')) (sv_of_string (lit ''b'' @ [200]))"
proof -
  have ok: "view_ok (sv_of_string (lit ''ab''))" "chars (sv_of_string (lit ''ab'')) = lit ''ab''"
    "view_ok (sv_of_string (lit ''b'' @ [200]))" "chars (sv_of_string (lit ''b'' @ [200])) = lit ''b'' @ [200]"
    using view_ok_string [of "lit ''ab''"] view_ok_string [of "lit ''b'' @ [200]"] by (simp_all add: npos_def)
  show ?thesis
    using compare_is_lexicographic [OF ok(1,3)] ok(2,4) by (simp add: lit_def of_char_def)
qed

section \<open>Occurrences\<close>

text \<open>\<open>w\<close> occurs in \<open>s\<close> at position \<open>i\<close>.\<close>

definition occurs :: "bytes \<Rightarrow> bytes \<Rightarrow> nat \<Rightarrow> bool" where
  "occurs s w i \<longleftrightarrow> i \<le> length s \<and> take (length w) (drop i s) = w"

lemma occurs_0 [simp]: "occurs s w 0 \<longleftrightarrow> take (length w) s = w"
  by (simp add: occurs_def)

lemma occurs_Suc [simp]: "occurs (c # s) w (Suc i) \<longleftrightarrow> occurs s w i"
  by (simp add: occurs_def)

lemma occurs_drop: "pos \<le> length s \<Longrightarrow> occurs (drop pos s) w i \<longleftrightarrow> occurs s w (pos + i)"
  by (auto simp: occurs_def add.commute)

lemma occurs_length: "occurs s w i \<Longrightarrow> i + length w \<le> length s"
proof -
  assume "occurs s w i"
  then have "length (take (length w) (drop i s)) = length w" "i \<le> length s" by (auto simp: occurs_def)
  then show ?thesis by simp
qed

lemma occurs_take: "k \<le> length s \<Longrightarrow> occurs (take k s) w i \<longleftrightarrow> occurs s w i \<and> i + length w \<le> k"
proof
  assume k: "k \<le> length s" and o: "occurs (take k s) w i"
  then have "i + length w \<le> k" using occurs_length [OF o] by simp
  moreover from this have "take (length w) (drop i (take k s)) = take (length w) (drop i s)"
    by (simp add: drop_take min_def)
  ultimately show "occurs s w i \<and> i + length w \<le> k"
    using o k by (simp add: occurs_def)
qed (auto simp: occurs_def drop_take min_def)

lemma std_search_first:
  "case std_search h w of
     Some i \<Rightarrow> occurs h w i \<and> (\<forall>j < i. \<not> occurs h w j)
   | None \<Rightarrow> \<forall>j. \<not> occurs h w j"
proof (induction h)
  case Nil
  then show ?case by (auto simp: occurs_def)
next
  case (Cons c h)
  have split: "(\<forall>j. \<not> occurs (c # h) w j) \<longleftrightarrow> \<not> occurs (c # h) w 0 \<and> (\<forall>j. \<not> occurs h w j)"
    by (metis occurs_Suc not0_implies_Suc)
  have split': "(\<forall>j < Suc i. \<not> occurs (c # h) w j) \<longleftrightarrow> \<not> occurs (c # h) w 0 \<and> (\<forall>j < i. \<not> occurs h w j)" for i
    by (auto simp: less_Suc_eq_0_disj)
  show ?case using Cons
    by (auto simp: split split' simp del: occurs_0 split: option.splits) (simp_all add: occurs_def)
qed

lemma std_find_end_last:
  assumes "w \<noteq> []"
  shows "case std_find_end h w of
     Some i \<Rightarrow> occurs h w i \<and> (\<forall>j > i. \<not> occurs h w j)
   | None \<Rightarrow> \<forall>j. \<not> occurs h w j"
proof (induction h)
  case Nil
  then show ?case using assms by (simp add: occurs_def)
next
  case (Cons c h)
  have later: "(\<forall>j > i. \<not> occurs (c # h) w j) \<longleftrightarrow> (\<forall>j \<ge> i. \<not> occurs h w j)" for i
    by (metis Suc_le_D Suc_le_eq Suc_le_mono occurs_Suc)
  have all: "(\<forall>j. \<not> occurs (c # h) w j) \<longleftrightarrow> \<not> occurs (c # h) w 0 \<and> (\<forall>j. \<not> occurs h w j)"
    by (metis occurs_Suc not0_implies_Suc)
  show ?case
  proof (cases "std_find_end h w")
    case None
    then show ?thesis using Cons assms by (auto simp: later all simp del: occurs_0) (simp_all add: occurs_def)
  next
    case (Some i)
    then show ?thesis using Cons by (simp add: later Suc_le_eq)
  qed
qed

text \<open>What \<open>find\<close> and \<open>rfind\<close> look for.\<close>

definition is_first :: "bytes \<Rightarrow> bytes \<Rightarrow> nat \<Rightarrow> nat \<Rightarrow> bool" where
  "is_first s w pos r \<longleftrightarrow>
     (if r = npos then \<forall>i. pos \<le> i \<and> i < length s \<longrightarrow> \<not> occurs s w i
      else pos \<le> r \<and> r < length s \<and> occurs s w r \<and> (\<forall>i. pos \<le> i \<and> i < r \<longrightarrow> \<not> occurs s w i))"

definition is_last :: "bytes \<Rightarrow> bytes \<Rightarrow> nat \<Rightarrow> nat \<Rightarrow> bool" where
  "is_last s w pos r \<longleftrightarrow>
     (if r = npos then \<forall>i \<le> pos. \<not> occurs s w i
      else r \<le> pos \<and> occurs s w r \<and> (\<forall>i. r < i \<and> i \<le> pos \<longrightarrow> \<not> occurs s w i))"

lemma find_first:
  assumes "view_ok v" "view_ok w"
  shows "\<exists>r. sv_find v w pos = Some r \<and> is_first (chars v) (chars w) pos r"
proof (cases "pos \<ge> sv_size v")
  case True
  then have "sv_find v w pos = Some npos" using assms(2) by (auto simp: sv_find_def view_ok_def sv_size_def)
  then show ?thesis using True length_chars [OF assms(1)] by (auto simp: is_first_def sv_size_def)
next
  case False
  let ?s = "chars v" and ?w = "chars w"
  have len: "length ?s = sv_size v" using length_chars [OF assms(1)] by (simp add: sv_size_def)
  have small: "sv_size v < npos" using assms(1) by (simp add: view_ok_def sv_size_def)
  have le: "pos \<le> length ?s" using False len by simp
  note first = std_search_first [of "drop pos ?s" ?w]
  have r: "sv_find v w pos = Some (to_pos pos (std_search (drop pos ?s) ?w))"
    using False assms(2) by (auto simp: sv_find_def view_ok_def sv_size_def)
  show ?thesis
  proof (cases "std_search (drop pos ?s) ?w")
    case None
    then have "\<not> occurs ?s ?w i" if "pos \<le> i" for i
      using first occurs_drop [OF le, of ?w "i - pos"] that by simp
    then show ?thesis using r None by (simp add: to_pos_def is_first_def)
  next
    case (Some j)
    then have o: "occurs ?s ?w (pos + j)" "\<forall>k < j. \<not> occurs ?s ?w (pos + k)"
      using first by (simp_all add: occurs_drop [OF le])
    have "pos + j < sv_size v"
    proof (cases "?w = []")
      case True
      then have "j = 0" using Some False len by (cases "drop pos ?s") (auto simp: neq_Nil_conv)
      then show ?thesis using False by simp
    next
      case False
      then show ?thesis using occurs_length [OF o(1)] len by (cases ?w) auto
    qed
    moreover have "\<not> occurs ?s ?w i" if "pos \<le> i" "i < pos + j" for i
      using o(2) [rule_format, of "i - pos"] that by simp
    ultimately show ?thesis using r Some o(1) small by (simp add: to_pos_def is_first_def len)
  qed
qed

lemma rfind_last:
  assumes "view_ok v" "view_ok w"
  shows "is_last (chars v) (chars w) pos (sv_rfind v w pos)"
proof -
  let ?s = "chars v" and ?w = "chars w"
  have len: "length ?s = sv_size v" "length ?w = sv_size w"
    using length_chars assms by (simp_all add: sv_size_def)
  have small: "sv_size v < npos" using assms(1) by (simp add: view_ok_def sv_size_def)
  consider "sv_size v < sv_size w" | "sv_size w \<le> sv_size v" "?w = []" | "sv_size w \<le> sv_size v" "?w \<noteq> []"
    by fastforce
  then show ?thesis
  proof cases
    case 1
    then have "\<not> occurs ?s ?w i" for i using occurs_length [of ?s ?w i] len by auto
    then show ?thesis using 1 by (simp add: sv_rfind_def is_last_def)
  next
    case 2
    then have "sv_rfind v w pos = min (sv_size v) pos"
      using len(2) by (simp add: sv_rfind_def sv_empty_def sv_size_def)
    then show ?thesis using 2 small len(1) by (auto simp: is_last_def occurs_def)
  next
    case 3
    let ?last = "min (sv_size v - sv_size w) pos + sv_size w"
    have le: "?last \<le> length ?s" using 3(1) len(1) by simp
    have o: "occurs (take ?last ?s) ?w i \<longleftrightarrow> occurs ?s ?w i \<and> i \<le> pos" for i
      using occurs_take [OF le, of ?w i] occurs_length [of ?s ?w i] len by auto
    have no: "\<not> occurs ?s ?w npos" using occurs_length [of ?s ?w npos] small len by auto
    have "sv_rfind v w pos = (case std_find_end (take ?last ?s) ?w of Some r \<Rightarrow> r | None \<Rightarrow> npos)"
      using 3 len(2) by (auto simp: sv_rfind_def sv_empty_def sv_size_def Let_def)
    then show ?thesis
      using std_find_end_last [OF 3(2), of "take ?last ?s"] no
      by (cases "std_find_end (take ?last ?s) ?w") (auto simp: o is_last_def)
  qed
qed

text \<open>\<open>find\<close> from a position yields the first occurrence at or behind it and \<open>rfind\<close> the last one
  at or before it, \<open>npos\<close> when there is none. (At the very end of the string \<open>find\<close> reports no
  occurrence of the empty string; the standard's \<open>find\<close> does.)\<close>

theorem find_and_rfind:
  assumes "view_ok v" "view_ok w"
  shows "(\<exists>r. sv_find v w pos = Some r \<and> is_first (chars v) (chars w) pos r) \<and>
    is_last (chars v) (chars w) pos (sv_rfind v w pos)"
  using find_first [OF assms] rfind_last [OF assms] by blast

theorem find_and_rfind_witness:
  "sv_find (sv_of_string (lit ''abcabc'')) (sv_of_string (lit ''bc'')) 2 = Some 4 \<and>
   is_first (lit ''abcabc'') (lit ''bc'') 2 4 \<and> is_last (lit ''abcabc'') (lit ''bc'') 3 1"
proof -
  have ok: "view_ok (sv_of_string (lit ''abcabc''))" "chars (sv_of_string (lit ''abcabc'')) = lit ''abcabc''"
    "view_ok (sv_of_string (lit ''bc''))" "chars (sv_of_string (lit ''bc'')) = lit ''bc''"
    using view_ok_string [of "lit ''abcabc''"] view_ok_string [of "lit ''bc''"] by (simp_all add: npos_def)
  have r: "sv_find (sv_of_string (lit ''abcabc'')) (sv_of_string (lit ''bc'')) 2 = Some 4"
    "sv_rfind (sv_of_string (lit ''abcabc'')) (sv_of_string (lit ''bc'')) 3 = 1"
    unfolding sv_find_def sv_rfind_def ok(2,4)
    by (simp_all add: sv_of_string_def sv_of_ptr_def sv_size_def sv_empty_def to_pos_def lit_def of_char_def)
  show ?thesis
    using find_and_rfind [OF ok(1,3), of 2] find_and_rfind [OF ok(1,3), of 3] r ok(2,4) by simp
qed

section \<open>Character sets\<close>

lemma std_find_if_first:
  fixes p h
  shows "case std_find_if p h of
     Some i \<Rightarrow> i < length h \<and> p (h ! i) \<and> (\<forall>j < i. \<not> p (h ! j))
   | None \<Rightarrow> \<forall>c \<in> set h. \<not> p c"
  by (induction h) (auto split: option.splits simp: less_Suc_eq_0_disj)

lemma not_in_view_iff:
  assumes "view_ok w"
  shows "not_in_view w c \<longleftrightarrow> c \<notin> set (chars w)"
proof -
  have len: "length (chars w) = sv_size w" "sv_size w < npos"
    using length_chars [OF assms] assms by (simp_all add: sv_size_def view_ok_def)
  show ?thesis
    using std_find_if_first [where p = "\<lambda>d. d = c" and h = "chars w"] len
    by (cases "std_find_if (\<lambda>d. d = c) (chars w)")
      (auto simp: not_in_view_def sv_find_first_of_char_def sv_find_first_of_def view_ok_char to_pos_def
        std_find_first_of_def)
qed

text \<open>The first or last position in a range whose character satisfies \<open>p\<close>.\<close>

lemma find_if_from:
  assumes "view_ok v"
  shows "(let r = (if pos \<ge> sv_size v then npos else to_pos pos (std_find_if p (drop pos (chars v)))) in
    if r = npos then \<forall>i. pos \<le> i \<and> i < sv_size v \<longrightarrow> \<not> p (chars v ! i)
    else pos \<le> r \<and> r < sv_size v \<and> p (chars v ! r) \<and> (\<forall>i. pos \<le> i \<and> i < r \<longrightarrow> \<not> p (chars v ! i)))"
proof (cases "pos \<ge> sv_size v")
  case False
  have len: "length (chars v) = sv_size v" "sv_size v < npos"
    using length_chars [OF assms] assms by (simp_all add: sv_size_def view_ok_def)
  have at: "drop pos (chars v) ! (i - pos) = chars v ! i" if "pos \<le> i" "i < sv_size v" for i
    using that len by simp
  show ?thesis
  proof (cases "std_find_if p (drop pos (chars v))")
    case None
    then have "\<forall>c \<in> set (drop pos (chars v)). \<not> p c" using std_find_if_first [where p = p and h = "drop pos (chars v)"] by simp
    moreover have "chars v ! i \<in> set (drop pos (chars v))" if "pos \<le> i" "i < sv_size v" for i
      using that at [OF that] len nth_mem [of "i - pos" "drop pos (chars v)"] by simp
    ultimately show ?thesis using None False by (auto simp: Let_def to_pos_def)
  next
    case (Some k)
    then have k: "pos + k < sv_size v" "p (chars v ! (pos + k))"
      "\<forall>j < k. \<not> p (drop pos (chars v) ! j)"
      using std_find_if_first [where p = p and h = "drop pos (chars v)"] False len by (auto simp: less_diff_conv)
    have "\<not> p (chars v ! i)" if "pos \<le> i" "i < pos + k" for i
      using k(3) [rule_format, of "i - pos"] that k(1) len by simp
    then show ?thesis using Some False k len by (auto simp: Let_def to_pos_def)
  qed
qed (auto simp: Let_def)

lemma find_if_back:
  assumes "view_ok v" "0 < sv_size v"
  shows "(let q = (if pos \<ge> sv_size v then sv_size v - 1 else pos);
              r = to_pos_reverse q (std_find_if p (rev (take (q + 1) (chars v)))) in
    if r = npos then \<forall>i. i \<le> pos \<and> i < sv_size v \<longrightarrow> \<not> p (chars v ! i)
    else r \<le> pos \<and> r < sv_size v \<and> p (chars v ! r) \<and>
      (\<forall>i. r < i \<and> i \<le> pos \<and> i < sv_size v \<longrightarrow> \<not> p (chars v ! i)))"
proof -
  let ?q = "if pos \<ge> sv_size v then sv_size v - 1 else pos"
  let ?h = "rev (take (?q + 1) (chars v))"
  have len: "length (chars v) = sv_size v" "sv_size v < npos"
    using length_chars [OF assms(1)] assms by (simp_all add: sv_size_def view_ok_def)
  have q: "?q < sv_size v" "?q \<le> pos" "\<And>i. i \<le> ?q \<longleftrightarrow> i \<le> pos \<and> i < sv_size v" using assms(2) by auto
  have h: "length ?h = ?q + 1" "\<And>j. j \<le> ?q \<Longrightarrow> ?h ! j = chars v ! (?q - j)"
    using q len by (auto simp: rev_nth)
  note first = std_find_if_first [where p = p and h = ?h]
  show ?thesis
  proof (cases "std_find_if p ?h")
    case None
    have "\<not> p (chars v ! i)" if "i \<le> ?q" for i
    proof -
      have "?h ! (?q - i) \<in> set ?h" using that by (intro nth_mem) (simp only: h)
      then show ?thesis using first None h(2) [of "?q - i"] that by simp
    qed
    then show ?thesis using None q(3) by (simp add: Let_def to_pos_reverse_def)
  next
    case (Some j)
    then have j: "j \<le> ?q" "p (chars v ! (?q - j))" "\<forall>k < j. \<not> p (?h ! k)"
      using first h by auto
    have "\<not> p (chars v ! i)" if "?q - j < i" "i \<le> ?q" for i
      using j(3) [rule_format, of "?q - i"] h(2) [of "?q - i"] that by simp
    then show ?thesis using Some j q len(2) by (auto simp: Let_def to_pos_reverse_def)
  qed
qed

text \<open>The four searches for characters of a set and outside of it.\<close>

lemmas find_of_defs = sv_find_first_of_def sv_find_last_of_def sv_find_first_not_of_def
  sv_find_last_not_of_def std_find_first_of_def sv_empty_def

lemma find_first_of_spec:
  assumes "view_ok v" "view_ok w"
  shows "if sv_find_first_of v w pos = npos
    then \<forall>i. pos \<le> i \<and> i < sv_size v \<longrightarrow> chars v ! i \<notin> set (chars w)
    else pos \<le> sv_find_first_of v w pos \<and> sv_find_first_of v w pos < sv_size v \<and>
      chars v ! sv_find_first_of v w pos \<in> set (chars w)"
  using find_if_from [OF assms(1), of pos "\<lambda>c. c \<in> set (chars w)"]
  by (auto simp: find_of_defs Let_def split: if_splits)

lemma find_last_not_of_spec:
  assumes "view_ok v" "view_ok w" "0 < sv_size v"
  shows "if sv_find_last_not_of v w pos = npos
    then \<forall>i. i \<le> pos \<and> i < sv_size v \<longrightarrow> chars v ! i \<in> set (chars w)
    else sv_find_last_not_of v w pos \<le> pos \<and> chars v ! sv_find_last_not_of v w pos \<notin> set (chars w)"
  using find_if_back [OF assms(1,3), of pos "not_in_view w"] assms(3)
  unfolding not_in_view_iff [OF assms(2)] find_of_defs Let_def sv_size_def
  by (auto split: if_splits)

end
