(* ===== verification/String_View_Io.thy ===== *)
theory String_View_Io imports String_View begin

text \<open>
  The parts of \<open>include/rest_rpc/string_view.hpp\<close> by which a view leaves the library: iterators, the
  conversion to a string, the \<open>_sv\<close> literal, the hash, and \<open>operator<<\<close>, with which the example
  client prints what was published.
\<close>

section \<open>Iterators\<close>

text \<open>An iterator is its index into the array; a reverse iterator has the index of its base and
  refers to the element before it.\<close>

definition sv_begin :: "view \<Rightarrow> nat" where
  "sv_begin v = vw_off v"

definition sv_end :: "view \<Rightarrow> nat" where
  "sv_end v = vw_off v + vw_size v"

definition sv_cbegin :: "view \<Rightarrow> nat" where
  "sv_cbegin v = sv_begin v"

definition sv_cend :: "view \<Rightarrow> nat" where
  "sv_cend v = sv_end v"

definition sv_rbegin :: "view \<Rightarrow> nat" where
  "sv_rbegin v = sv_end v"

definition sv_rend :: "view \<Rightarrow> nat" where
  "sv_rend v = sv_begin v"

definition sv_crbegin :: "view \<Rightarrow> nat" where
  "sv_crbegin v = sv_rbegin v"

definition sv_crend :: "view \<Rightarrow> nat" where
  "sv_crend v = sv_rend v"

text \<open>What an algorithm sees between two forward and between two reverse iterators of a view.\<close>

definition forward_range :: "view \<Rightarrow> nat \<Rightarrow> nat \<Rightarrow> bytes" where
  "forward_range v i j = map (nth (vw_mem v)) [i..<j]"

definition reverse_range :: "view \<Rightarrow> nat \<Rightarrow> nat \<Rightarrow> bytes" where
  "reverse_range v i j = map (nth (vw_mem v)) (rev [j..<i])"

lemma forward_range_chars:
  assumes "view_ok v"
  shows "forward_range v (sv_begin v) (sv_end v) = chars v"
proof (rule nth_equalityI)
  have room: "vw_off v + vw_size v \<le> length (vw_mem v)" using assms by (simp add: view_ok_def)
  show "length (forward_range v (sv_begin v) (sv_end v)) = length (chars v)"
    using assms by (simp add: forward_range_def sv_begin_def sv_end_def length_chars)
  show "forward_range v (sv_begin v) (sv_end v) ! i = chars v ! i"
    if "i < length (forward_range v (sv_begin v) (sv_end v))" for i
    using that room by (simp add: forward_range_def sv_begin_def sv_end_def chars_def)
qed

section \<open>Conversions\<close>

text \<open>The member \<open>to_string\<close>, the free one, the conversion operator, and the literal.\<close>

definition to_string :: "view \<Rightarrow> bytes" where
  "to_string v = forward_range v (sv_begin v) (sv_end v)"

definition to_string_free :: "view \<Rightarrow> bytes" where
  "to_string_free v = forward_range v (sv_begin v) (sv_end v)"

definition string_of_view :: "view \<Rightarrow> bytes" where
  "string_of_view v = to_string v"

definition sv_literal :: "cptr \<Rightarrow> nat \<Rightarrow> view" where
  "sv_literal str len = sv_of_ptr str len"

text \<open>\<open>hash_string\<close> is \<open>std::hash<std::string>\<close>, the string made of \<open>data()\<close> and \<open>size()\<close>.\<close>

definition sv_hash :: "(bytes \<Rightarrow> nat) \<Rightarrow> view \<Rightarrow> nat" where
  "sv_hash hash_string v = hash_string (map (\<lambda>i. vw_mem v ! (vw_off v + i)) [0..<sv_size v])"

section \<open>Output\<close>

text \<open>An output stream: whether it has failed, its field width, fill and alignment, and its buffer
  with the characters it took and the number it still takes. \<open>sputc\<close> and \<open>sputn\<close> on a full buffer
  drop characters and say so in their result.\<close>

datatype adjustfield = Adjust_none | Adjust_left | Adjust_right | Adjust_internal

record ostream =
  os_fail :: bool
  os_width :: int
  os_fill :: u8
  os_adjust :: adjustfield
  os_taken :: bytes
  os_room :: nat

definition sputn :: "bytes \<Rightarrow> ostream \<Rightarrow> ostream" where
  "sputn s os = os\<lparr>os_taken := os_taken os @ take (os_room os) s, os_room := os_room os - length s\<rparr>"

definition sputc :: "u8 \<Rightarrow> ostream \<Rightarrow> ostream" where
  "sputc c os = sputn [c] os"

text \<open>The loop runs \<open>n\<close> times, not at all for a negative \<open>n\<close>.\<close>

primrec padding_loop :: "nat \<Rightarrow> ostream \<Rightarrow> ostream" where
  "padding_loop 0 os = os"
| "padding_loop (Suc n) os = padding_loop n (sputc (os_fill os) os)"

definition write_padding :: "ostream \<Rightarrow> int \<Rightarrow> ostream" where
  "write_padding os n = padding_loop (nat n) os"

text \<open>The sentry refuses a stream that has failed.\<close>

definition write_to_stream :: "ostream \<Rightarrow> view \<Rightarrow> ostream" where
  "write_to_stream os v =
     (if os_fail os then os
      else (let len = int (sv_length v);
                pad = len < os_width os;
                left_pad = (pad \<and> os_adjust os = Adjust_right);
                os1 = (if left_pad then write_padding os (os_width os - len) else os);
                os2 = sputn (forward_range v (sv_begin v) (sv_begin v + sv_length v)) os1;
                os3 = (if pad \<and> \<not> left_pad then write_padding os2 (os_width os2 - len) else os2)
            in os3\<lparr>os_width := 0\<rparr>))"

definition insert_view :: "ostream \<Rightarrow> view \<Rightarrow> ostream" where
  "insert_view os v = write_to_stream os v"

lemma sputn_sputn: "sputn t (sputn s os) = sputn (s @ t) os"
  by (simp add: sputn_def)

lemma sputn_fields [simp]:
  "os_fill (sputn s os) = os_fill os" "os_width (sputn s os) = os_width os" "sputn [] os = os"
  by (simp_all add: sputn_def)

lemma padding_loop_sputn: "padding_loop n os = sputn (replicate n (os_fill os)) os"
  by (induction n arbitrary: os) (simp_all add: sputc_def sputn_sputn)

text \<open>What the standard asks of an inserter: the padding goes behind the text only for \<open>left\<close>.\<close>

definition padding :: "ostream \<Rightarrow> view \<Rightarrow> bytes" where
  "padding os v = replicate (nat (os_width os - int (sv_length v))) (os_fill os)"

definition formatted :: "ostream \<Rightarrow> view \<Rightarrow> bytes" where
  "formatted os v =
     (if os_adjust os = Adjust_left then chars v @ padding os v else padding os v @ chars v)"

section \<open>Properties\<close>

text \<open>Iterators, conversions and hash see the viewed characters, in both directions.\<close>

theorem view_as_range:
  assumes "view_ok v"
  shows "forward_range v (sv_cbegin v) (sv_cend v) = chars v \<and>
    reverse_range v (sv_crbegin v) (sv_crend v) = rev (chars v) \<and>
    to_string v = chars v \<and> to_string_free v = chars v \<and> string_of_view v = chars v \<and>
    sv_hash h v = h (chars v)"
proof -
  have "map (\<lambda>i. vw_mem v ! (vw_off v + i)) [0..<sv_size v] = forward_range v (sv_begin v) (sv_end v)"
    by (rule nth_equalityI) (simp_all add: forward_range_def sv_begin_def sv_end_def sv_size_def)
  moreover have "reverse_range v (sv_end v) (sv_begin v) = rev (forward_range v (sv_begin v) (sv_end v))"
    by (simp add: reverse_range_def forward_range_def rev_map)
  ultimately show ?thesis using forward_range_chars [OF assms]
    by (simp add: sv_cbegin_def sv_cend_def sv_crbegin_def sv_crend_def sv_rbegin_def sv_rend_def
        to_string_def to_string_free_def string_of_view_def sv_hash_def)
qed

text \<open>Views that compare equal have equal hashes, whatever they point into.\<close>

theorem equal_views_hash_alike:
  assumes "view_ok v" "view_ok w" "sv_eq v w"
  shows "sv_hash h v = sv_hash h w"
  using assms compare_chars [of v w] view_as_range [of v h] view_as_range [of w h]
  by (simp add: sv_eq_def)

text \<open>A stream that has not failed takes the text with its padding, which stands in front for \<open>right\<close>
  and behind otherwise, as far as the buffer has room, and its width is reset; a failed one is left
  alone. With a field wider than the text and neither \<open>left\<close> nor \<open>right\<close> set, the default, this is
  not the order of the standard; and characters for which there was no room are lost without a sign in
  the state of the stream.\<close>

theorem insertion:
  assumes "view_ok v"
  shows "insert_view os v =
      (if os_fail os then os
       else (sputn (if os_adjust os = Adjust_right then padding os v @ chars v else chars v @ padding os v) os)
              \<lparr>os_width := 0\<rparr>)" (is ?written)
    and "os_adjust os \<in> {Adjust_left, Adjust_right} \<or> os_width os \<le> int (sv_length v) \<Longrightarrow> \<not> os_fail os \<Longrightarrow>
      insert_view os v = (sputn (formatted os v) os)\<lparr>os_width := 0\<rparr>" (is "_ \<Longrightarrow> _ \<Longrightarrow> ?standard")
proof -
  have shown: "forward_range v (sv_begin v) (sv_begin v + sv_length v) = chars v"
    using forward_range_chars [OF assms] by (simp add: sv_begin_def sv_end_def sv_length_def)
  show written: ?written
    by (cases "int (sv_length v) < os_width os")
      (simp_all add: insert_view_def write_to_stream_def shown write_padding_def padding_loop_sputn
        sputn_sputn padding_def Let_def)
  show ?standard if "os_adjust os \<in> {Adjust_left, Adjust_right} \<or> os_width os \<le> int (sv_length v)" "\<not> os_fail os"
    using that by (subst written) (auto simp: formatted_def padding_def)
qed

text \<open>\<open>std::cout << std::setw(4) << view\<close> writes \<open>ab\<close> and two blanks; the standard has the blanks first.\<close>

theorem insertion_default_adjust:
  "let os = \<lparr>os_fail = False, os_width = 4, os_fill = 32, os_adjust = Adjust_none, os_taken = [], os_room = 10\<rparr>;
       v = sv_of_string [97, 98]
   in os_taken (insert_view os v) = [97, 98, 32, 32] \<and> formatted os v = [32, 32, 97, 98]"
proof -
  have view: "view_ok (sv_of_string [97, 98])" "chars (sv_of_string [97, 98]) = [97, 98]"
    using view_ok_string [of "[97, 98]"] by (simp_all add: npos_def)
  have blanks: "padding \<lparr>os_fail = False, os_width = 4, os_fill = 32, os_adjust = Adjust_none, os_taken = [], os_room = 10\<rparr>
      (sv_of_string [97, 98]) = [32, 32]"
    by (simp add: padding_def sv_length_def sv_of_string_def sv_of_ptr_def numeral_2_eq_2)
  show ?thesis
    unfolding Let_def insertion(1) [OF view(1)] formatted_def view(2) blanks by (simp add: sputn_def)
qed

end
