(* ===== verification/Msgpack_Pack.thy ===== *)
theory Msgpack_Pack imports Rpc_Prelude begin

unbundle bit_operations_syntax

text \<open>
  The serialising half of the vendored MessagePack library that \<open>codec.h\<close> is written on:
  the dynamic value \<open>msgpack::object\<close> and the \<open>packer\<close> of \<open>thirdparty/msgpack/msgpack/v1\<close>.
  A packer appends to its stream; every \<open>pack_...\<close> below is the bytes it appends.

  Signed integers are kept as words and compared through \<open>sint\<close>. A float is its bit pattern: the
  code stores a float as a double and converts it back, which no operation of this program relies
  on.
\<close>

section \<open>Objects\<close>

datatype obj =
    NIL
  | BOOLEAN bool
  | POSITIVE_INTEGER u64
  | NEGATIVE_INTEGER u64
  | FLOAT32 u32
  | FLOAT64 u64
  | STR_obj bytes
  | BIN bytes
  | EXT u8 bytes
  | ARRAY "obj list"
  | MAP "(obj \<times> obj) list"

section \<open>Integers\<close>

definition pack_imp_uint8 :: "u8 \<Rightarrow> bytes" where
  "pack_imp_uint8 d = (if d < 128 then [d] else [0xcc, d])"

definition pack_imp_uint16 :: "u16 \<Rightarrow> bytes" where
  "pack_imp_uint16 d =
     (if d < 128 then [ucast d]
      else if d < 256 then [0xcc, ucast d]
      else 0xcd # to_be 2 d)"

definition pack_imp_uint32 :: "u32 \<Rightarrow> bytes" where
  "pack_imp_uint32 d =
     (if d < 256
      then (if d < 128 then [ucast d] else [0xcc, ucast d])
      else (if d < 65536 then 0xcd # to_be 2 (ucast d :: u16) else 0xce # to_be 4 d))"

definition pack_imp_uint64 :: "u64 \<Rightarrow> bytes" where
  "pack_imp_uint64 d =
     (if d < 256
      then (if d < 128 then [ucast d] else [0xcc, ucast d])
      else (if d < 65536 then 0xcd # to_be 2 (ucast d :: u16)
            else if d < 4294967296 then 0xce # to_be 4 (ucast d :: u32)
            else 0xcf # to_be 8 d))"

definition pack_imp_int8 :: "u8 \<Rightarrow> bytes" where
  "pack_imp_int8 d = (if sint d < - 32 then [0xd0, d] else [d])"

definition pack_imp_int16 :: "u16 \<Rightarrow> bytes" where
  "pack_imp_int16 d =
     (if sint d < - 32
      then (if sint d < - 128 then 0xd1 # to_be 2 d else [0xd0, ucast d])
      else if sint d < 128 then [ucast d]
      else (if sint d < 256 then [0xcc, ucast d] else 0xcd # to_be 2 d))"

definition pack_imp_int32 :: "u32 \<Rightarrow> bytes" where
  "pack_imp_int32 d =
     (if sint d < - 32
      then (if sint d < - 32768 then 0xd2 # to_be 4 d
            else if sint d < - 128 then 0xd1 # to_be 2 (ucast d :: u16)
            else [0xd0, ucast d])
      else if sint d < 128 then [ucast d]
      else (if sint d < 256 then [0xcc, ucast d]
            else if sint d < 65536 then 0xcd # to_be 2 (ucast d :: u16)
            else 0xce # to_be 4 d))"

definition pack_imp_int64 :: "u64 \<Rightarrow> bytes" where
  "pack_imp_int64 d =
     (if sint d < - 32
      then (if sint d < - 32768
            then (if sint d < - 2147483648 then 0xd3 # to_be 8 d
                  else 0xd2 # to_be 4 (ucast d :: u32))
            else (if sint d < - 128 then 0xd1 # to_be 2 (ucast d :: u16)
                  else [0xd0, ucast d]))
      else if sint d < 128 then [ucast d]
      else (if sint d < 65536
            then (if sint d < 256 then [0xcc, ucast d] else 0xcd # to_be 2 (ucast d :: u16))
            else (if sint d < 4294967296 then 0xce # to_be 4 (ucast d :: u32)
                  else 0xcf # to_be 8 d)))"

definition pack_fix_uint8 :: "u8 \<Rightarrow> bytes" where
  "pack_fix_uint8 d = [0xcc, d]"

definition pack_fix_uint16 :: "u16 \<Rightarrow> bytes" where
  "pack_fix_uint16 d = 0xcd # to_be 2 d"

definition pack_fix_uint32 :: "u32 \<Rightarrow> bytes" where
  "pack_fix_uint32 d = 0xce # to_be 4 d"

definition pack_fix_uint64 :: "u64 \<Rightarrow> bytes" where
  "pack_fix_uint64 d = 0xcf # to_be 8 d"

definition pack_fix_int8 :: "u8 \<Rightarrow> bytes" where
  "pack_fix_int8 d = [0xd0, d]"

definition pack_fix_int16 :: "u16 \<Rightarrow> bytes" where
  "pack_fix_int16 d = 0xd1 # to_be 2 d"

definition pack_fix_int32 :: "u32 \<Rightarrow> bytes" where
  "pack_fix_int32 d = 0xd2 # to_be 4 d"

definition pack_fix_int64 :: "u64 \<Rightarrow> bytes" where
  "pack_fix_int64 d = 0xd3 # to_be 8 d"

text \<open>
  The C++ integer types on the x86-64 ABI: \<open>short\<close> has 16 bits, \<open>int\<close> 32, \<open>long\<close> and
  \<open>long long\<close> 64.
\<close>

definition pack_short :: "u16 \<Rightarrow> bytes" where
  "pack_short d = pack_imp_int16 d"

definition pack_int :: "u32 \<Rightarrow> bytes" where
  "pack_int d = pack_imp_int32 d"

definition pack_long :: "u64 \<Rightarrow> bytes" where
  "pack_long d = pack_imp_int64 d"

definition pack_long_long :: "u64 \<Rightarrow> bytes" where
  "pack_long_long d = pack_imp_int64 d"

definition pack_unsigned_short :: "u16 \<Rightarrow> bytes" where
  "pack_unsigned_short d = pack_imp_uint16 d"

definition pack_unsigned_int :: "u32 \<Rightarrow> bytes" where
  "pack_unsigned_int d = pack_imp_uint32 d"

definition pack_unsigned_long :: "u64 \<Rightarrow> bytes" where
  "pack_unsigned_long d = pack_imp_uint64 d"

text \<open>\<open>wchar_t\<close> has 32 bits and a sign on x86-64 Linux.\<close>

definition pack_wchar :: "u32 \<Rightarrow> bytes" where
  "pack_wchar d = (if sint d < 0 then pack_imp_int64 (scast d) else pack_imp_uint64 (scast d))"

definition pack_unsigned_long_long :: "u64 \<Rightarrow> bytes" where
  "pack_unsigned_long_long d = pack_imp_uint64 d"

section \<open>The other types\<close>

definition pack_float :: "u32 \<Rightarrow> bytes" where
  "pack_float i = 0xca # to_be 4 i"

definition pack_double :: "u64 \<Rightarrow> bytes" where
  "pack_double i = 0xcb # to_be 8 i"

definition pack_nil :: bytes where
  "pack_nil = [0xc0]"

definition pack_true :: bytes where
  "pack_true = [0xc3]"

definition pack_false :: bytes where
  "pack_false = [0xc2]"

definition pack_array :: "u32 \<Rightarrow> bytes" where
  "pack_array n =
     (if n < 16 then [ucast (0x90 OR n)]
      else if n < 65536 then 0xdc # to_be 2 (ucast n :: u16)
      else 0xdd # to_be 4 n)"

definition pack_map :: "u32 \<Rightarrow> bytes" where
  "pack_map n =
     (if n < 16 then [ucast (0x80 OR n)]
      else if n < 65536 then 0xde # to_be 2 (ucast n :: u16)
      else 0xdf # to_be 4 n)"

definition pack_str :: "u32 \<Rightarrow> bytes" where
  "pack_str l =
     (if l < 32 then [ucast (0xa0 OR l)]
      else if l < 256 then [0xd9, ucast l]
      else if l < 65536 then 0xda # to_be 2 (ucast l :: u16)
      else 0xdb # to_be 4 l)"

definition pack_v4raw :: "u32 \<Rightarrow> bytes" where
  "pack_v4raw l =
     (if l < 32 then [ucast (0xa0 OR l)]
      else if l < 65536 then 0xda # to_be 2 (ucast l :: u16)
      else 0xdb # to_be 4 l)"

definition pack_bin :: "u32 \<Rightarrow> bytes" where
  "pack_bin l =
     (if l < 256 then [0xc4, ucast l]
      else if l < 65536 then 0xc5 # to_be 2 (ucast l :: u16)
      else 0xc6 # to_be 4 l)"

definition pack_ext :: "u64 \<Rightarrow> u8 \<Rightarrow> bytes" where
  "pack_ext l ty =
     (if l = 1 then [0xd4, ty]
      else if l = 2 then [0xd5, ty]
      else if l = 4 then [0xd6, ty]
      else if l = 8 then [0xd7, ty]
      else if l = 16 then [0xd8, ty]
      else if l < 256 then [0xc7, ucast l, ty]
      else if l < 65536 then 0xc8 # to_be 2 (ucast l :: u16) @ [ty]
      else 0xc9 # to_be 4 (ucast l :: u32) @ [ty])"

text \<open>\<open>append_buffer\<close> of a body: \<open>l\<close> bytes from the pointer.\<close>

definition pack_body :: "bytes \<Rightarrow> u32 \<Rightarrow> bytes" where
  "pack_body b l = take (unat l) b"

section \<open>Objects as a whole\<close>

text \<open>
  \<open>object_pack_visitor\<close> driven by \<open>object_parser\<close>: the parser's explicit stack visits a
  collection's elements in order, so it is a recursion over the object. Sizes are the
  \<open>uint32_t\<close> fields of the object.
\<close>

fun pack_obj :: "obj \<Rightarrow> bytes" where
  "pack_obj NIL = pack_nil"
| "pack_obj (BOOLEAN v) = (if v then pack_true else pack_false)"
| "pack_obj (POSITIVE_INTEGER v) = pack_imp_uint64 v"
| "pack_obj (NEGATIVE_INTEGER v) = pack_imp_int64 v"
| "pack_obj (FLOAT32 v) = pack_float v"
| "pack_obj (FLOAT64 v) = pack_double v"
| "pack_obj (STR_obj v) = pack_str (of_nat (length v)) @ pack_body v (of_nat (length v))"
| "pack_obj (BIN v) = pack_bin (of_nat (length v)) @ pack_body v (of_nat (length v))"
| "pack_obj (EXT ty v) = pack_ext (of_nat (length v)) ty @ pack_body v (of_nat (length v))"
| "pack_obj (ARRAY xs) = pack_array (of_nat (length xs)) @ concat (map pack_obj xs)"
| "pack_obj (MAP kvs) =
     pack_map (of_nat (length kvs)) @ concat (map (\<lambda>(k, v). pack_obj k @ pack_obj v) kvs)"

text \<open>
  The objects the library itself builds: sizes fit their \<open>uint32_t\<close> field and a negative
  integer is negative (a non-negative one is a \<open>POSITIVE_INTEGER\<close>).
\<close>

fun wf_obj :: "obj \<Rightarrow> bool" where
  "wf_obj (NEGATIVE_INTEGER v) \<longleftrightarrow> sint v < 0"
| "wf_obj (STR_obj v) \<longleftrightarrow> length v < 2 ^ 32"
| "wf_obj (BIN v) \<longleftrightarrow> length v < 2 ^ 32"
| "wf_obj (EXT ty v) \<longleftrightarrow> length v < 2 ^ 32 - 1"
| "wf_obj (ARRAY xs) \<longleftrightarrow> length xs < 2 ^ 32 \<and> (\<forall>x \<in> set xs. wf_obj x)"
| "wf_obj (MAP kvs) \<longleftrightarrow> length kvs < 2 ^ 32 \<and> (\<forall>(k, v) \<in> set kvs. wf_obj k \<and> wf_obj v)"
| "wf_obj _ \<longleftrightarrow> True"

lemma pack_body_full [simp]: "length v < 2 ^ 32 \<Longrightarrow> pack_body v (of_nat (length v)) = v"
  by (simp add: pack_body_def unat_of_nat)

lemma pack_obj_nonempty: "pack_obj x \<noteq> []"
  by (cases x) (simp_all add: pack_nil_def pack_true_def pack_false_def pack_imp_uint64_def
    pack_imp_int64_def pack_float_def pack_double_def pack_str_def pack_bin_def pack_ext_def
    pack_array_def pack_map_def)

end
