(* ===== verification/Msgpack_Parse.thy ===== *)
theory Msgpack_Parse imports Msgpack_Pack begin

unbundle bit_operations_syntax

text \<open>
  The parsing half of the vendored MessagePack library: the byte-driven state machine
  \<open>context::execute\<close> of \<open>thirdparty/msgpack/msgpack/v3/parse.hpp\<close> with the visitor
  \<open>create_object_visitor\<close> that builds the object, as \<open>msgpack::unpack\<close> runs them on one
  complete buffer, with no reference function and the default limits (all \<open>0xffffffff\<close>, which
  no 32-bit size exceeds).

  The context's stack (container kind, elements left) and the visitor's stack (the slot the next
  object goes to) are pushed and popped together; a \<open>frame\<close> is one entry of both. The slots of
  a map are the flat sequence key, value, key, value, as in the visitor's storage. An object is
  complete when its last slot is; the buffer's positions are natural numbers.
\<close>

section \<open>States\<close>

datatype parse_return =
    PARSE_SUCCESS
  | PARSE_EXTRA_BYTES
  | PARSE_CONTINUE
  | PARSE_PARSE_ERROR
  | PARSE_STOP_VISITOR

datatype unpack_state =
    CS_HEADER
  | CS_BIN_8 | CS_BIN_16 | CS_BIN_32
  | CS_EXT_8 | CS_EXT_16 | CS_EXT_32
  | CS_FLOAT | CS_DOUBLE
  | CS_UINT_8 | CS_UINT_16 | CS_UINT_32 | CS_UINT_64
  | CS_INT_8 | CS_INT_16 | CS_INT_32 | CS_INT_64
  | CS_FIXEXT_1 | CS_FIXEXT_2 | CS_FIXEXT_4 | CS_FIXEXT_8 | CS_FIXEXT_16
  | CS_STR_8 | CS_STR_16 | CS_STR_32
  | CS_ARRAY_16 | CS_ARRAY_32 | CS_MAP_16 | CS_MAP_32
  | ACS_STR_VALUE | ACS_BIN_VALUE | ACS_EXT_VALUE

datatype container_type = CT_ARRAY_ITEM | CT_MAP_KEY | CT_MAP_VALUE

record frame =
  m_type :: container_type
  m_rest :: u32
  m_slots :: "obj list"

record parse_ctx =
  m_current :: nat
  m_trail :: nat
  m_cs :: unpack_state
  m_stack :: "frame list"
  fixed_trail_again :: bool

text \<open>The states and trail lengths of the selectors from \<open>0xc4\<close> to \<open>0xdf\<close>.\<close>

definition trail_table :: "(unpack_state \<times> nat) list" where
  "trail_table =
     [(CS_BIN_8, 1), (CS_BIN_16, 2), (CS_BIN_32, 4), (CS_EXT_8, 1), (CS_EXT_16, 2), (CS_EXT_32, 4),
      (CS_FLOAT, 4), (CS_DOUBLE, 8), (CS_UINT_8, 1), (CS_UINT_16, 2), (CS_UINT_32, 4),
      (CS_UINT_64, 8), (CS_INT_8, 1), (CS_INT_16, 2), (CS_INT_32, 4), (CS_INT_64, 8),
      (CS_FIXEXT_1, 2), (CS_FIXEXT_2, 3), (CS_FIXEXT_4, 5), (CS_FIXEXT_8, 9), (CS_FIXEXT_16, 17),
      (CS_STR_8, 1), (CS_STR_16, 2), (CS_STR_32, 4), (CS_ARRAY_16, 2), (CS_ARRAY_32, 4),
      (CS_MAP_16, 2), (CS_MAP_32, 4)]"

section \<open>Handing an object to the innermost container\<close>

datatype consumed = More "frame list" | Complete obj

fun pairs_of :: "'a list \<Rightarrow> ('a \<times> 'a) list" where
  "pairs_of (k # v # xs) = (k, v) # pairs_of xs"
| "pairs_of _ = []"

text \<open>
  \<open>unpack_stack::consume\<close>, with the visitor's slot filled by \<open>x\<close>: a finished container is
  itself handed to the one around it.
\<close>

fun consume :: "frame list \<Rightarrow> obj \<Rightarrow> consumed" where
  "consume [] x = Complete x"
| "consume (e # st) x =
     (let slots = m_slots e @ [x] in
      case m_type e of
        CT_ARRAY_ITEM \<Rightarrow>
          (if m_rest e - 1 = 0 then consume st (ARRAY slots)
           else More (e\<lparr>m_rest := m_rest e - 1, m_slots := slots\<rparr> # st))
      | CT_MAP_KEY \<Rightarrow> More (e\<lparr>m_type := CT_MAP_VALUE, m_slots := slots\<rparr> # st)
      | CT_MAP_VALUE \<Rightarrow>
          (if m_rest e - 1 = 0 then consume st (MAP (pairs_of slots))
           else More (e\<lparr>m_rest := m_rest e - 1, m_type := CT_MAP_KEY, m_slots := slots\<rparr> # st)))"

section \<open>One turn of the loop\<close>

datatype parse_step =
    Continue_at parse_ctx
  | Return parse_return nat "obj option"
  | Raise exn

definition after_visit_proc :: "parse_ctx \<Rightarrow> obj \<Rightarrow> parse_step" where
  "after_visit_proc c x =
     (case consume (m_stack c) x of
        Complete r \<Rightarrow> Return PARSE_SUCCESS (m_current c + 1) (Some r)
      | More st \<Rightarrow>
          Continue_at (c\<lparr>m_stack := st, m_current := m_current c + 1, m_cs := CS_HEADER\<rparr>))"

definition start_aggregate :: "parse_ctx \<Rightarrow> container_type \<Rightarrow> u32 \<Rightarrow> parse_step" where
  "start_aggregate c ty sz =
     (if sz = 0
      then after_visit_proc c (if ty = CT_ARRAY_ITEM then ARRAY [] else MAP [])
      else Continue_at (c\<lparr>m_stack := \<lparr>m_type = ty, m_rest = sz, m_slots = []\<rparr> # m_stack c,
                          m_current := m_current c + 1, m_cs := CS_HEADER\<rparr>))"

definition visit_negative_integer :: "u64 \<Rightarrow> obj" where
  "visit_negative_integer v = (if sint v \<ge> 0 then POSITIVE_INTEGER v else NEGATIVE_INTEGER v)"

text \<open>
  \<open>visit_ext\<close> copies \<open>size\<close> bytes, the first of which is the type. The \<open>uint32_t\<close> size of an
  extension of \<open>2 ^ 32 - 1\<close> bytes wraps to 0 and copies nothing.
\<close>

definition visit_ext :: "bytes \<Rightarrow> u32 \<Rightarrow> obj" where
  "visit_ext v sz = EXT (v ! 0) (take (unat sz - 1) (drop 1 v))"

text \<open>
  A \<open>STR\<close>, \<open>BIN\<close> or \<open>EXT\<close> length has been read: either the value is empty, or its bytes are
  the next trail.
\<close>

definition expect_body :: "parse_ctx \<Rightarrow> nat \<Rightarrow> unpack_state \<Rightarrow> obj \<Rightarrow> parse_step" where
  "expect_body c trail cs no_body =
     (let c' = c\<lparr>m_trail := trail\<rparr> in
      if trail = 0 then after_visit_proc c' no_body
      else Continue_at (c'\<lparr>m_cs := cs, fixed_trail_again := True\<rparr>))"

text \<open>
  The \<open>switch (m_cs)\<close>: \<open>n\<close> is the buffer from the trail's first byte on, \<open>c\<close> the context
  with \<open>m_current\<close> on the trail's last byte.
\<close>

definition visit_trail :: "bytes \<Rightarrow> parse_ctx \<Rightarrow> parse_step" where
  "visit_trail n c =
     (case m_cs c of
         CS_FLOAT \<Rightarrow> after_visit_proc c (FLOAT32 (of_be (take 4 n)))
       | CS_DOUBLE \<Rightarrow> after_visit_proc c (FLOAT64 (of_be (take 8 n)))
       | CS_UINT_8 \<Rightarrow> after_visit_proc c (POSITIVE_INTEGER (ucast (of_be (take 1 n) :: u8)))
       | CS_UINT_16 \<Rightarrow> after_visit_proc c (POSITIVE_INTEGER (ucast (of_be (take 2 n) :: u16)))
       | CS_UINT_32 \<Rightarrow> after_visit_proc c (POSITIVE_INTEGER (ucast (of_be (take 4 n) :: u32)))
       | CS_UINT_64 \<Rightarrow> after_visit_proc c (POSITIVE_INTEGER (of_be (take 8 n)))
       | CS_INT_8 \<Rightarrow> after_visit_proc c (visit_negative_integer (scast (of_be (take 1 n) :: u8)))
       | CS_INT_16 \<Rightarrow> after_visit_proc c (visit_negative_integer (scast (of_be (take 2 n) :: u16)))
       | CS_INT_32 \<Rightarrow> after_visit_proc c (visit_negative_integer (scast (of_be (take 4 n) :: u32)))
       | CS_INT_64 \<Rightarrow> after_visit_proc c (visit_negative_integer (of_be (take 8 n)))
       | CS_FIXEXT_1 \<Rightarrow> after_visit_proc c (visit_ext n 2)
       | CS_FIXEXT_2 \<Rightarrow> after_visit_proc c (visit_ext n 3)
       | CS_FIXEXT_4 \<Rightarrow> after_visit_proc c (visit_ext n 5)
       | CS_FIXEXT_8 \<Rightarrow> after_visit_proc c (visit_ext n 9)
       | CS_FIXEXT_16 \<Rightarrow> after_visit_proc c (visit_ext n 17)
       | CS_STR_8 \<Rightarrow> expect_body c (unat (of_be (take 1 n) :: u8)) ACS_STR_VALUE (STR_obj [])
       | CS_STR_16 \<Rightarrow> expect_body c (unat (of_be (take 2 n) :: u16)) ACS_STR_VALUE (STR_obj [])
       | CS_STR_32 \<Rightarrow> expect_body c (unat (of_be (take 4 n) :: u32)) ACS_STR_VALUE (STR_obj [])
       | CS_BIN_8 \<Rightarrow> expect_body c (unat (of_be (take 1 n) :: u8)) ACS_BIN_VALUE (BIN [])
       | CS_BIN_16 \<Rightarrow> expect_body c (unat (of_be (take 2 n) :: u16)) ACS_BIN_VALUE (BIN [])
       | CS_BIN_32 \<Rightarrow> expect_body c (unat (of_be (take 4 n) :: u32)) ACS_BIN_VALUE (BIN [])
       | CS_EXT_8 \<Rightarrow> expect_body c (unat (of_be (take 1 n) :: u8) + 1) ACS_EXT_VALUE NIL
       | CS_EXT_16 \<Rightarrow> expect_body c (unat (of_be (take 2 n) :: u16) + 1) ACS_EXT_VALUE NIL
       | CS_EXT_32 \<Rightarrow> expect_body c (unat (of_be (take 4 n) :: u32) + 1) ACS_EXT_VALUE NIL
       | ACS_STR_VALUE \<Rightarrow> after_visit_proc c (STR_obj (take (unat (of_nat (m_trail c) :: u32)) n))
       | ACS_BIN_VALUE \<Rightarrow> after_visit_proc c (BIN (take (unat (of_nat (m_trail c) :: u32)) n))
       | ACS_EXT_VALUE \<Rightarrow> after_visit_proc c (visit_ext n (of_nat (m_trail c)))
       | CS_ARRAY_16 \<Rightarrow> start_aggregate c CT_ARRAY_ITEM (ucast (of_be (take 2 n) :: u16))
       | CS_ARRAY_32 \<Rightarrow> start_aggregate c CT_ARRAY_ITEM (of_be (take 4 n))
       | CS_MAP_16 \<Rightarrow> start_aggregate c CT_MAP_KEY (ucast (of_be (take 2 n) :: u16))
       | CS_MAP_32 \<Rightarrow> start_aggregate c CT_MAP_KEY (of_be (take 4 n))
       | CS_HEADER \<Rightarrow> Raise (other_exception (lit ''parse error'')))"

definition read_trail :: "bytes \<Rightarrow> parse_ctx \<Rightarrow> parse_step" where
  "read_trail data c0 =
     (let c = (if fixed_trail_again c0
               then c0\<lparr>m_current := m_current c0 + 1, fixed_trail_again := False\<rparr> else c0) in
      if length data - m_current c < m_trail c then Return PARSE_CONTINUE (m_current c) None
      else visit_trail (drop (m_current c) data) (c\<lparr>m_current := m_current c + m_trail c - 1\<rparr>))"

definition execute_step :: "bytes \<Rightarrow> parse_ctx \<Rightarrow> parse_step" where
  "execute_step data c0 =
     (if m_cs c0 = CS_HEADER
      then
        (let c = c0\<lparr>fixed_trail_again := False\<rparr>;
             b = data ! m_current c
         in
         if b \<le> 0x7f then after_visit_proc c (POSITIVE_INTEGER (ucast b))
         else if 0xe0 \<le> b then after_visit_proc c (visit_negative_integer (scast b))
         else if 0xc4 \<le> b \<and> b \<le> 0xdf
         then (case trail_table ! unat (b - 0xc4) of (cs, trail) \<Rightarrow>
                 read_trail data (c\<lparr>m_trail := trail, m_cs := cs, fixed_trail_again := True\<rparr>))
         else if 0xa0 \<le> b \<and> b \<le> 0xbf
         then (let c' = c\<lparr>m_trail := unat (b AND 0x1f)\<rparr> in
               if m_trail c' = 0 then after_visit_proc c' (STR_obj [])
               else read_trail data (c'\<lparr>m_cs := ACS_STR_VALUE, fixed_trail_again := True\<rparr>))
         else if 0x90 \<le> b \<and> b \<le> 0x9f then start_aggregate c CT_ARRAY_ITEM (ucast b AND 0x0f)
         else if 0x80 \<le> b \<and> b \<le> 0x8f then start_aggregate c CT_MAP_KEY (ucast b AND 0x0f)
         else if b = 0xc2 then after_visit_proc c (BOOLEAN False)
         else if b = 0xc3 then after_visit_proc c (BOOLEAN True)
         else if b = 0xc0 then after_visit_proc c NIL
         else Raise (other_exception (lit ''parse error'')))
      else read_trail data c0)"

partial_function (option) execute_loop ::
    "bytes \<Rightarrow> parse_ctx \<Rightarrow> (parse_return \<times> nat \<times> obj option) res option" where
  "execute_loop data c =
     (case execute_step data c of
        Return ret off x \<Rightarrow> Some (Inr (ret, off, x))
      | Raise e \<Rightarrow> Some (Inl e)
      | Continue_at c' \<Rightarrow>
          (if m_current c' \<noteq> length data then execute_loop data c'
           else Some (Inr (PARSE_CONTINUE, m_current c', None))))"

definition initial_ctx :: "parse_ctx" where
  "initial_ctx =
     \<lparr>m_current = 0, m_trail = 0, m_cs = CS_HEADER, m_stack = [], fixed_trail_again = False\<rparr>"

text \<open>
  \<open>parse_imp\<close> and the \<open>unpack\<close> on top of it: bytes that stop short raise
  \<open>insufficient_bytes\<close>; bytes after the first object are ignored (\<open>PARSE_EXTRA_BYTES\<close>). The
  value is the object and the offset behind it. That the loop returns is \<open>execute_returns\<close>.
\<close>

definition parse_imp :: "bytes \<Rightarrow> (parse_return \<times> nat \<times> obj option) res" where
  "parse_imp data =
     (if length data = 0 then Inl (other_exception (lit ''insufficient bytes''))
      else case the (execute_loop data initial_ctx) of
        Inl e \<Rightarrow> Inl e
      | Inr (ret, noff, x) \<Rightarrow>
          (case ret of
             PARSE_CONTINUE \<Rightarrow> Inl (other_exception (lit ''insufficient bytes''))
           | PARSE_SUCCESS \<Rightarrow>
               (if noff < length data then Inr (PARSE_EXTRA_BYTES, noff, x) else Inr (ret, noff, x))
           | _ \<Rightarrow> Inr (ret, noff, x)))"

definition msgpack_unpack :: "bytes \<Rightarrow> obj res" where
  "msgpack_unpack data =
     (case parse_imp data of
        Inl e \<Rightarrow> Inl e
      | Inr (ret, off, x) \<Rightarrow>
          (case (ret, x) of
             (PARSE_SUCCESS, Some r) \<Rightarrow> Inr r
           | (PARSE_EXTRA_BYTES, Some r) \<Rightarrow> Inr r
           | _ \<Rightarrow> Inr NIL))"

end
