(* ===== verification/Msgpack_Roundtrip.thy ===== *)
theory Msgpack_Roundtrip imports Msgpack_Parse begin

unbundle bit_operations_syntax

text \<open>
  What the parser does on the packer's output. \<open>execute_returns\<close>: the byte loop ends on every
  buffer. \<open>unpack_pack_obj\<close>: the bytes of a packed object, followed by anything, parse to that
  object and to the offset behind it. Between them, per kind of value, what one visit of the loop
  does (\<open>reads\<close>, \<open>opens\<close>), and the two lemmas on the elements of a container.
\<close>

section \<open>The loop ends\<close>

definition ready :: "bytes \<Rightarrow> parse_ctx \<Rightarrow> bool" where
  "ready data c \<longleftrightarrow>
     m_current c < length data \<and> (m_cs c = CS_HEADER \<or> fixed_trail_again c \<and> m_trail c > 0)"

lemma after_visit_ready:
  "after_visit_proc c x = Continue_at c' \<Longrightarrow> m_current c' = m_current c + 1 \<and> m_cs c' = CS_HEADER"
  by (auto simp: after_visit_proc_def split: consumed.splits)

lemma start_aggregate_ready:
  "start_aggregate c ty n = Continue_at c' \<Longrightarrow> m_current c' = m_current c + 1 \<and> m_cs c' = CS_HEADER"
  by (auto simp: start_aggregate_def dest: after_visit_ready split: if_splits)

lemma expect_body_ready:
  "expect_body c n cs x = Continue_at c' \<Longrightarrow>
     m_current c' = m_current c + 1 \<and> m_cs c' = CS_HEADER \<or>
     m_current c' = m_current c \<and> fixed_trail_again c' \<and> m_trail c' > 0"
  by (auto simp: expect_body_def Let_def dest: after_visit_ready split: if_splits)

lemma read_trail_ready:
  assumes "read_trail data c = Continue_at c'" "fixed_trail_again c" "m_trail c > 0" "m_current c < length data"
  shows "m_current c < m_current c' \<and> m_current c' \<le> length data \<and>
         (m_cs c' = CS_HEADER \<or> fixed_trail_again c' \<and> m_trail c' > 0 )"
proof -
  have "m_trail c \<le> length data - (m_current c + 1)"
    using assms by (auto simp: read_trail_def Let_def split: if_splits)
  then have *: "m_current c + 1 + m_trail c \<le> length data"
    using assms(3,4) by linarith
  show ?thesis
    using assms(1-3) * unfolding read_trail_def visit_trail_def
    by (auto simp: Let_def split: if_splits unpack_state.splits
      dest!: after_visit_ready start_aggregate_ready expect_body_ready)
qed

lemma trail_table_positive: "(cs, n) \<in> set trail_table \<Longrightarrow> n > 0"
  by (auto simp: trail_table_def)

lemma selector_index: "0xc4 \<le> (b :: u8) \<Longrightarrow> b \<le> 0xdf \<Longrightarrow> unat (b - 0xc4) < length trail_table"
  by (simp add: trail_table_def unat_sub word_le_nat_alt)

lemma execute_step_ready:
  assumes "execute_step data c = Continue_at c'" "ready data c"
  shows "m_current c < m_current c' \<and> m_current c' \<le> length data \<and>
         (m_cs c' = CS_HEADER \<or> fixed_trail_again c' \<and> m_trail c' > 0)"
proof (cases "m_cs c = CS_HEADER")
  case False
  then have "read_trail data c = Continue_at c'" using assms(1) by (simp add: execute_step_def)
  then show ?thesis using assms(2) False by (intro read_trail_ready) (auto simp: ready_def)
next
  case True
  have cur: "m_current c < length data" using assms(2) by (simp add: ready_def)
  let ?b = "data ! m_current c"
  obtain cs n where tt: "trail_table ! unat (?b - 0xc4) = (cs, n)" by fastforce
  have n: "n > 0" if "0xc4 \<le> ?b" "?b \<le> 0xdf"
    using trail_table_positive selector_index [OF that] tt by (metis nth_mem)
  show ?thesis
    using assms(1) True cur n tt
    by (auto simp: execute_step_def Let_def split: if_splits
      dest!: after_visit_ready start_aggregate_ready read_trail_ready)
qed

lemma execute_loop_returns:
  "m_current c \<le> length data \<Longrightarrow> ready data c \<Longrightarrow> \<exists>r. execute_loop data c = Some r"
proof (induction "length data - m_current c" arbitrary: c rule: less_induct)
  case less
  show ?case
  proof (cases "execute_step data c")
    case (Continue_at c')
    note step = execute_step_ready [OF this less.prems(2)]
    show ?thesis
    proof (cases "m_current c' = length data")
      case False
      with step have "ready data c'" by (auto simp: ready_def)
      then have "\<exists>r. execute_loop data c' = Some r"
        using step less.prems by (intro less.hyps) (auto simp: ready_def)
      then show ?thesis using Continue_at by (subst execute_loop.simps) simp
    qed (use Continue_at in \<open>subst execute_loop.simps, simp\<close>)
  qed (subst execute_loop.simps, simp)+
qed

lemma execute_returns: "data \<noteq> [] \<Longrightarrow> \<exists>r. execute_loop data initial_ctx = Some r"
  by (rule execute_loop_returns) (auto simp: ready_def initial_ctx_def)

section \<open>One value\<close>

definition resume :: "bytes \<Rightarrow> nat \<Rightarrow> nat \<Rightarrow> frame list \<Rightarrow> obj \<Rightarrow> (parse_return \<times> nat \<times> obj option) res option" where
  "resume data cur trail st x =
     (case consume st x of
        Complete r \<Rightarrow> Some (Inr (PARSE_SUCCESS, cur, Some r))
      | More st' \<Rightarrow>
          (if cur \<noteq> length data
           then execute_loop data \<lparr>m_current = cur, m_trail = trail, m_cs = CS_HEADER,
                                    m_stack = st', fixed_trail_again = False\<rparr>
           else Some (Inr (PARSE_CONTINUE, cur, None))))"

lemma loop_after_visit:
  assumes "execute_step data c0 = after_visit_proc c x" "\<not> fixed_trail_again c"
  shows "execute_loop data c0 = resume data (m_current c + 1) (m_trail c) (m_stack c) x"
  using assms by (subst execute_loop.simps)
    (cases c; simp add: after_visit_proc_def resume_def split: consumed.splits)

definition reads :: "bytes \<Rightarrow> parse_ctx \<Rightarrow> nat \<Rightarrow> obj \<Rightarrow> bool" where
  "reads data c k x \<longleftrightarrow>
     (\<exists>trail. execute_loop data c = resume data (m_current c + k) trail (m_stack c) x)"

lemma reads_now:
  "execute_step data c = after_visit_proc c' x \<Longrightarrow> \<not> fixed_trail_again c' \<Longrightarrow>
   m_stack c' = m_stack c \<Longrightarrow> m_current c' + 1 = m_current c + k \<Longrightarrow> reads data c k x"
  using loop_after_visit [of data c c' x] unfolding reads_def by metis

lemma reads_later:
  "execute_step data c = Continue_at c' \<Longrightarrow> m_current c' \<noteq> length data \<Longrightarrow> reads data c' k' x \<Longrightarrow>
   m_stack c' = m_stack c \<Longrightarrow> m_current c' + k' = m_current c + k \<Longrightarrow> reads data c k x"
  unfolding reads_def by (subst execute_loop.simps) simp

lemma drop_Cons_facts:
  assumes "drop cur data = b # t"
  shows "data ! cur = b" "drop (Suc cur) data = t" "length data = Suc (cur + length t)"
proof -
  have "length (drop cur data) = Suc (length t)" using assms by simp
  then show "length data = Suc (cur + length t)" by (simp only: length_drop)
  show "data ! cur = b" using assms by (rule nth_via_drop)
  show "drop (Suc cur) data = t" by (metis assms drop_Suc tl_drop list.sel(3))
qed

lemma read_trail_again:
  assumes "fixed_trail_again c" "drop (Suc (m_current c)) data = u @ rest"
    "length data = Suc (m_current c + length (u @ rest))" "m_trail c = length u"
  shows "read_trail data c =
           visit_trail (u @ rest) (c\<lparr>m_current := m_current c + length u, fixed_trail_again := False\<rparr>)"
  using assms by (cases c) (simp add: read_trail_def Let_def)

lemma step_selector:
  assumes "m_cs c = CS_HEADER" "drop (m_current c) data = b # u @ rest"
    "0xc4 \<le> b" "b \<le> 0xdf" "trail_table ! unat (b - 0xc4) = (cs, length u)"
  shows "execute_step data c =
           visit_trail (u @ rest) (c\<lparr>m_trail := length u, m_cs := cs, fixed_trail_again := False,
                                     m_current := m_current c + length u\<rparr>)"
proof -
  note facts = drop_Cons_facts [OF assms(2)]
  have "\<not> b \<le> 0x7f" using assms(3) by (auto simp: word_le_nat_alt)
  moreover have "\<not> 0xe0 \<le> b" using assms(4) by (auto simp: word_le_nat_alt)
  ultimately show ?thesis
    using assms facts by (cases c) (simp add: execute_step_def Let_def read_trail_again)
qed

lemma reads_selector:
  assumes "m_cs c = CS_HEADER" "drop (m_current c) data = b # u @ rest"
    "0xc4 \<le> b" "b \<le> 0xdf" "trail_table ! unat (b - 0xc4) = (cs, length u)"
    "\<And>c'. m_cs c' = cs \<Longrightarrow> m_trail c' = length u \<Longrightarrow> visit_trail (u @ rest) c' = after_visit_proc c' x"
  shows "reads data c (Suc (length u)) x"
  by (rule reads_now [where c' = "c\<lparr>m_trail := length u, m_cs := cs, fixed_trail_again := False,
      m_current := m_current c + length u\<rparr>"]) (simp_all add: step_selector [OF assms(1-5)] assms(6))

lemma reads_body:
  assumes "m_cs c = CS_HEADER" "drop (m_current c) data = b # u @ body @ rest" "body \<noteq> []"
    "0xc4 \<le> b" "b \<le> 0xdf" "trail_table ! unat (b - 0xc4) = (cs, length u)"
    "\<And>c'. m_cs c' = cs \<Longrightarrow> m_trail c' = length u \<Longrightarrow>
        visit_trail (u @ body @ rest) c' = expect_body c' (length body) cs' y"
    "\<And>c'. m_cs c' = cs' \<Longrightarrow> m_trail c' = length body \<Longrightarrow>
        visit_trail (body @ rest) c' = after_visit_proc c' x"
    "cs' \<noteq> CS_HEADER"
  shows "reads data c (Suc (length u + length body)) x"
proof -
  let ?c = "c\<lparr>m_trail := length body, m_cs := cs', fixed_trail_again := True, m_current := m_current c + length u\<rparr>"
  note facts = drop_Cons_facts [OF assms(2)]
  have "execute_step data c = Continue_at ?c"
    using assms(3) by (subst step_selector [OF assms(1,2,4-6)]) (simp add: assms(7) expect_body_def)
  moreover have "m_current ?c \<noteq> length data" using facts(3) by simp
  moreover have "drop (Suc (m_current ?c)) data = body @ rest"
    using arg_cong [OF facts(2), of "drop (length u)"] by (simp add: add.commute)
  then have "execute_step data ?c = after_visit_proc (?c\<lparr>m_current := m_current c + length u + length body, fixed_trail_again := False\<rparr>) x"
    using assms(9) facts(3) by (simp add: execute_step_def read_trail_again [where u = body and rest = rest] assms(8))
  then have "reads data ?c (Suc (length body)) x" by (rule reads_now) simp_all
  ultimately show ?thesis by (rule reads_later) simp_all
qed

lemma fixstr_byte:
  assumes "(l :: u32) < 32"
  defines "b \<equiv> ucast (0xa0 OR l) :: u8"
  shows "\<not> b \<le> 0x7f" "\<not> 0xe0 \<le> b" "\<not> 0xc4 \<le> b" "0xa0 \<le> b" "b \<le> 0xbf" "unat (b AND 0x1f) = unat l"
proof -
  have "\<exists>k<32. l = of_nat k" using small_word_cases [of l 32] assms by simp
  then obtain k :: nat where k: "l = of_nat k" "k < 32" by blast
  have "\<forall>k \<in> set [0..<32]. (let b = ucast (0xa0 OR (of_nat k :: u32)) :: u8 in \<not> b \<le> 0x7f \<and> \<not> 0xe0 \<le> b \<and> \<not> 0xc4 \<le> b \<and> 0xa0 \<le> b \<and> b \<le> 0xbf \<and> unat (b AND 0x1f) = k)"
    by code_simp
  then have "let b = ucast (0xa0 OR (of_nat k :: u32)) :: u8 in \<not> b \<le> 0x7f \<and> \<not> 0xe0 \<le> b \<and> \<not> 0xc4 \<le> b \<and> 0xa0 \<le> b \<and> b \<le> 0xbf \<and> unat (b AND 0x1f) = k" using k by simp
  then show "\<not> b \<le> 0x7f" "\<not> 0xe0 \<le> b" "\<not> 0xc4 \<le> b" "0xa0 \<le> b" "b \<le> 0xbf" "unat (b AND 0x1f) = unat l"
    using k by (simp_all add: b_def Let_def unat_of_nat)
qed

lemma table_at:
  "trail_table ! (0) = (CS_BIN_8, Suc 0)"
  "trail_table ! (Suc 0) = (CS_BIN_16, 2)"
  "trail_table ! (2) = (CS_BIN_32, 4)"
  "trail_table ! (3) = (CS_EXT_8, Suc 0)"
  "trail_table ! (4) = (CS_EXT_16, 2)"
  "trail_table ! (5) = (CS_EXT_32, 4)"
  "trail_table ! (6) = (CS_FLOAT, 4)"
  "trail_table ! (7) = (CS_DOUBLE, 8)"
  "trail_table ! (8) = (CS_UINT_8, Suc 0)"
  "trail_table ! (9) = (CS_UINT_16, 2)"
  "trail_table ! (10) = (CS_UINT_32, 4)"
  "trail_table ! (11) = (CS_UINT_64, 8)"
  "trail_table ! (12) = (CS_INT_8, Suc 0)"
  "trail_table ! (13) = (CS_INT_16, 2)"
  "trail_table ! (14) = (CS_INT_32, 4)"
  "trail_table ! (15) = (CS_INT_64, 8)"
  "trail_table ! (16) = (CS_FIXEXT_1, 2)"
  "trail_table ! (17) = (CS_FIXEXT_2, 3)"
  "trail_table ! (18) = (CS_FIXEXT_4, 5)"
  "trail_table ! (19) = (CS_FIXEXT_8, 9)"
  "trail_table ! (20) = (CS_FIXEXT_16, 17)"
  "trail_table ! (21) = (CS_STR_8, Suc 0)"
  "trail_table ! (22) = (CS_STR_16, 2)"
  "trail_table ! (23) = (CS_STR_32, 4)"
  "trail_table ! (24) = (CS_ARRAY_16, 2)"
  "trail_table ! (25) = (CS_ARRAY_32, 4)"
  "trail_table ! (26) = (CS_MAP_16, 2)"
  "trail_table ! (27) = (CS_MAP_32, 4)"
  by (simp_all add: trail_table_def)

lemma reads_fixed:
  assumes "m_cs c = CS_HEADER" "drop (m_current c) data = b # rest"
    "execute_step data c = after_visit_proc (c\<lparr>fixed_trail_again := False\<rparr>) x"
  shows "reads data c 1 x"
  by (rule reads_now [OF assms(3)]) simp_all

lemma reads_positive_fixnum:
  assumes "m_cs c = CS_HEADER" "drop (m_current c) data = b # rest" "b \<le> 0x7f"
  shows "reads data c 1 (POSITIVE_INTEGER (ucast b))"
  using assms drop_Cons_facts(1) [OF assms(2)]
  by (intro reads_fixed [OF assms(1,2)]) (simp add: execute_step_def Let_def)

lemma reads_negative_fixnum:
  assumes "m_cs c = CS_HEADER" "drop (m_current c) data = b # rest" "0xe0 \<le> b"
  shows "reads data c 1 (visit_negative_integer (scast b))"
proof -
  have "\<not> b \<le> 0x7f" using assms(3) by (auto simp: word_le_nat_alt)
  then show ?thesis using assms drop_Cons_facts(1) [OF assms(2)]
    by (intro reads_fixed [OF assms(1,2)]) (simp add: execute_step_def Let_def)
qed

lemma reads_constant:
  assumes "m_cs c = CS_HEADER" "drop (m_current c) data = b # rest"
    "(b, x) \<in> {(0xc0, NIL), (0xc2, BOOLEAN False), (0xc3, BOOLEAN True)}"
  shows "reads data c 1 x"
  using assms drop_Cons_facts(1) [OF assms(2)]
  by (intro reads_fixed [OF assms(1,2)]) (auto simp: execute_step_def Let_def)

lemma reads_uint:
  assumes "m_cs c = CS_HEADER" "drop (m_current c) data = pack_imp_uint64 d @ rest"
  shows "reads data c (length (pack_imp_uint64 d)) (POSITIVE_INTEGER d)"
proof -
  consider "d < 128" | "d < 256" "\<not> d < 128" | "d < 65536" "\<not> d < 256"
    | "d < 4294967296" "\<not> d < 65536" | "\<not> d < 4294967296" by blast
  then show ?thesis
  proof cases
    case 1
    then have "unat d < 128" "d < 256" by (simp_all add: word_less_nat_alt)
    moreover from this have "(ucast d :: u8) \<le> 0x7f"
      by (simp add: word_le_nat_alt unsigned_ucast_eq unsigned_take_bit_eq take_bit_nat_eq_self)
    moreover have "ucast (ucast d :: u8) = d" by (rule ucast_ucast_small) (use \<open>unat d < 128\<close> in simp)
    ultimately show ?thesis
      using reads_positive_fixnum [OF assms(1), where b = "ucast d" and rest = rest] assms(2) 1
      by (simp add: pack_imp_uint64_def)
  next
    case 2
    then have "ucast (ucast d :: u8) = d" by (simp add: word_less_nat_alt ucast_ucast_small)
    then show ?thesis
      using reads_selector [OF assms(1), where b = "0xcc" and u = "[ucast d]" and rest = rest and cs = CS_UINT_8
          and x = "POSITIVE_INTEGER d"] assms(2) 2
      by (simp add: pack_imp_uint64_def table_at visit_trail_def of_be_def)
  next
    case 3
    then have "ucast (ucast d :: u16) = d" by (simp add: word_less_nat_alt ucast_ucast_small)
    moreover have "\<not> d < 128" using 3 by (simp add: word_less_nat_alt)
    ultimately show ?thesis
      using reads_selector [OF assms(1), where b = "0xcd" and u = "to_be 2 (ucast d :: u16)" and rest = rest and cs = CS_UINT_16
          and x = "POSITIVE_INTEGER d"] assms(2) 3
      by (simp add: pack_imp_uint64_def table_at visit_trail_def codec_simps)
  next
    case 4
    then have "ucast (ucast d :: u32) = d" by (simp add: word_less_nat_alt ucast_ucast_small)
    moreover have "\<not> d < 256" using 4 by (simp add: word_less_nat_alt)
    ultimately show ?thesis
      using reads_selector [OF assms(1), where b = "0xce" and u = "to_be 4 (ucast d :: u32)" and rest = rest and cs = CS_UINT_32
          and x = "POSITIVE_INTEGER d"] assms(2) 4
      by (simp add: pack_imp_uint64_def table_at visit_trail_def codec_simps)
  next
    case 5
    then have "\<not> d < 256" "\<not> d < 65536" by (simp_all add: word_less_nat_alt)
    then show ?thesis
      using reads_selector [OF assms(1), where b = "0xcf" and u = "to_be 8 d" and rest = rest and cs = CS_UINT_64
          and x = "POSITIVE_INTEGER d"] assms(2) 5
      by (simp add: pack_imp_uint64_def table_at visit_trail_def codec_simps)
  qed
qed

lemma visit_negative [simp]: "sint d < 0 \<Longrightarrow> visit_negative_integer d = NEGATIVE_INTEGER d"
  by (simp add: visit_negative_integer_def)

lemma negative_fixnum_byte:
  assumes "- 32 \<le> sint (d :: 'a::len word)" "sint d < 0" "8 \<le> LENGTH('a)"
  shows "0xe0 \<le> (ucast d :: u8)"
proof -
  have "(ucast d :: u8) = word_of_int (sint (ucast d :: u8))" by simp
  also have "sint (ucast d :: u8) = sint d" using assms by (intro sint_ucast_small) simp_all
  finally have "(ucast d :: u8) = word_of_int (sint d)" .
  moreover have "\<forall>k \<in> set [-32..-1]. 0xe0 \<le> (word_of_int k :: u8)" by code_simp
  moreover have "sint d \<in> set [-32..-1]" using assms by simp
  ultimately show ?thesis by metis
qed

lemma reads_negative:
  assumes "m_cs c = CS_HEADER" "drop (m_current c) data = pack_imp_int64 d @ rest" "sint d < 0"
  shows "reads data c (length (pack_imp_int64 d)) (NEGATIVE_INTEGER d)"
proof -
  consider "- 32 \<le> sint d" | "- 128 \<le> sint d" "sint d < - 32" | "- 32768 \<le> sint d" "sint d < - 128"
    | "- 2147483648 \<le> sint d" "sint d < - 32768" | "sint d < - 2147483648" by linarith
  then show ?thesis
  proof cases
    case 1
    have "scast (ucast d :: u8) = d" using 1 assms(3) by (intro scast_ucast_small) simp_all
    moreover have "0xe0 \<le> (ucast d :: u8)" using 1 assms(3) by (intro negative_fixnum_byte) simp_all
    ultimately show ?thesis
      using reads_negative_fixnum [OF assms(1), where b = "ucast d" and rest = rest] assms(2,3) 1
      by (simp add: pack_imp_int64_def)
  next
    case 2
    have "scast (ucast d :: u8) = d" using 2 by (intro scast_ucast_small) simp_all
    then show ?thesis
      using reads_selector [OF assms(1), where b = "0xd0" and u = "[ucast d]" and rest = rest and cs = CS_INT_8
          and x = "NEGATIVE_INTEGER d"] assms(2,3) 2
      by (simp add: pack_imp_int64_def table_at visit_trail_def of_be_def)
  next
    case 3
    have "scast (ucast d :: u16) = d" using 3 by (intro scast_ucast_small) simp_all
    then show ?thesis
      using reads_selector [OF assms(1), where b = "0xd1" and u = "to_be 2 (ucast d :: u16)" and rest = rest
          and cs = CS_INT_16 and x = "NEGATIVE_INTEGER d"] assms(2,3) 3
      by (simp add: pack_imp_int64_def table_at visit_trail_def codec_simps)
  next
    case 4
    have "scast (ucast d :: u32) = d" using 4 by (intro scast_ucast_small) simp_all
    then show ?thesis
      using reads_selector [OF assms(1), where b = "0xd2" and u = "to_be 4 (ucast d :: u32)" and rest = rest
          and cs = CS_INT_32 and x = "NEGATIVE_INTEGER d"] assms(2,3) 4
      by (simp add: pack_imp_int64_def table_at visit_trail_def codec_simps)
  next
    case 5
    then show ?thesis
      using reads_selector [OF assms(1), where b = "0xd3" and u = "to_be 8 d" and rest = rest
          and cs = CS_INT_64 and x = "NEGATIVE_INTEGER d"] assms(2,3)
      by (simp add: pack_imp_int64_def table_at visit_trail_def codec_simps)
  qed
qed

lemma reads_float:
  assumes "m_cs c = CS_HEADER" "drop (m_current c) data = pack_float d @ rest"
  shows "reads data c (length (pack_float d)) (FLOAT32 d)"
  using reads_selector [OF assms(1), where b = "0xca" and u = "to_be 4 d" and rest = rest
      and cs = CS_FLOAT and x = "FLOAT32 d"] assms(2)
  by (simp add: pack_float_def table_at visit_trail_def codec_simps)

lemma reads_double:
  assumes "m_cs c = CS_HEADER" "drop (m_current c) data = pack_double d @ rest"
  shows "reads data c (length (pack_double d)) (FLOAT64 d)"
  using reads_selector [OF assms(1), where b = "0xcb" and u = "to_be 8 d" and rest = rest
      and cs = CS_DOUBLE and x = "FLOAT64 d"] assms(2)
  by (simp add: pack_double_def table_at visit_trail_def codec_simps)

lemma of_be_1 [simp]: "of_be [b] = (b :: u8)"
  by (simp add: of_be_def)

lemma length_word_cases:
  assumes "length v < 2 ^ 32"
  shows "unat (of_nat (length v) :: u32) = length v"
    "((of_nat (length v) :: u32) < numeral k) = (length v < unat (numeral k :: u32))"
  using assms by (simp_all add: unat_of_nat word_less_nat_alt)

lemma reads_empty_str8:
  assumes "m_cs c = CS_HEADER" "drop (m_current c) data = 0xa0 # rest"
  shows "reads data c 1 (STR_obj [])"
  by (rule reads_now [where c' = "c\<lparr>fixed_trail_again := False, m_trail := 0\<rparr>"])
    (use assms drop_Cons_facts(1) [OF assms(2)] in \<open>simp_all add: execute_step_def Let_def\<close>)

lemma reads_fixstr:
  assumes "m_cs c = CS_HEADER" "drop (m_current c) data = ucast (0xa0 OR (of_nat (length v) :: u32)) # v @ rest"
    "v \<noteq> []" "length v < 32"
  shows "reads data c (Suc (length v)) (STR_obj v)"
proof -
  let ?l = "of_nat (length v) :: u32"
  let ?b = "ucast (0xa0 OR ?l) :: u8"
  have l: "?l < 32" "unat ?l = length v" using assms(4) by (simp_all add: word_less_nat_alt unat_of_nat)
  note b = fixstr_byte [OF l(1)]
  note facts = drop_Cons_facts [OF assms(2)]
  let ?c = "c\<lparr>m_current := m_current c + length v, m_trail := length v, m_cs := ACS_STR_VALUE, fixed_trail_again := False\<rparr>"
  have u: "unat (of_nat (length v) :: u32) = length v" by (rule l(2))
  have "execute_step data c = visit_trail (v @ rest) ?c"
    using assms(1,3,4) facts b l by (cases c) (simp add: execute_step_def Let_def read_trail_again)
  also have "\<dots> = after_visit_proc ?c (STR_obj v)"
    using u by (simp add: visit_trail_def)
  finally show ?thesis by (rule reads_now) simp_all
qed

lemma reads_str:
  assumes "m_cs c = CS_HEADER" "drop (m_current c) data = pack_obj (STR_obj v) @ rest" "length v < 2 ^ 32"
  shows "reads data c (length (pack_obj (STR_obj v))) (STR_obj v)"
proof -
  let ?l = "of_nat (length v) :: u32"
  note [simp] = length_word_cases [OF assms(3)]
  consider "v = []" | "v \<noteq> []" "length v < 32" | "32 \<le> length v" "length v < 256"
    | "256 \<le> length v" "length v < 65536" | "65536 \<le> length v" by fastforce
  then show ?thesis
  proof cases
    case 1
    then show ?thesis using reads_empty_str8 [OF assms(1), where rest = rest] assms(2) by (simp add: pack_str_def pack_body_def)
  next
    case 2
    then show ?thesis using reads_fixstr [OF assms(1), where v = v and rest = rest] assms(2) by (simp add: pack_str_def)
  next
    case 3
    moreover from this have "v \<noteq> []" by auto
    ultimately show ?thesis
      using reads_body [OF assms(1), where b = "0xd9" and u = "[ucast ?l]" and body = v and rest = rest
          and cs = CS_STR_8 and cs' = ACS_STR_VALUE and x = "STR_obj v" and y = "STR_obj []"] assms(2,3)
      by (simp add: pack_str_def table_at visit_trail_def unat_ucast_small)
  next
    case 4
    moreover from this have "v \<noteq> []" by auto
    ultimately show ?thesis
      using reads_body [OF assms(1), where b = "0xda" and u = "to_be 2 (ucast ?l :: u16)" and body = v and rest = rest
          and cs = CS_STR_16 and cs' = ACS_STR_VALUE and x = "STR_obj v" and y = "STR_obj []"] assms(2,3)
      by (simp add: pack_str_def table_at visit_trail_def unat_ucast_small codec_simps)
  next
    case 5
    moreover from this have "v \<noteq> []" by auto
    ultimately show ?thesis
      using reads_body [OF assms(1), where b = "0xdb" and u = "to_be 4 ?l" and body = v and rest = rest
          and cs = CS_STR_32 and cs' = ACS_STR_VALUE and x = "STR_obj v" and y = "STR_obj []"] assms(2,3)
      by (simp add: pack_str_def table_at visit_trail_def codec_simps)
  qed
qed

lemma reads_bin:
  assumes "m_cs c = CS_HEADER" "drop (m_current c) data = pack_obj (BIN v) @ rest" "length v < 2 ^ 32"
  shows "reads data c (length (pack_obj (BIN v))) (BIN v)"
proof -
  let ?l = "of_nat (length v) :: u32"
  note [simp] = length_word_cases [OF assms(3)]
  consider "v = []" | "v \<noteq> []" "length v < 256"
    | "256 \<le> length v" "length v < 65536" | "65536 \<le> length v" by fastforce
  then show ?thesis
  proof cases
    case 1
    let ?c = "c\<lparr>m_trail := 1, m_cs := CS_BIN_8, fixed_trail_again := False, m_current := m_current c + 1\<rparr>"
    have "execute_step data c = visit_trail ([0] @ rest) ?c"
      using step_selector [OF assms(1), of data "0xc4" "[0]" rest CS_BIN_8] assms(2) 1
      by (simp add: pack_bin_def table_at pack_body_def)
    also have "\<dots> = after_visit_proc (?c\<lparr>m_trail := 0\<rparr>) (BIN [])"
      by (simp add: visit_trail_def expect_body_def)
    finally have "reads data c (Suc (Suc 0)) (BIN [])" by (rule reads_now) simp_all
    then show ?thesis using 1 by (simp add: pack_bin_def pack_body_def)
  next
    case 2
    then show ?thesis
      using reads_body [OF assms(1), where b = "0xc4" and u = "[ucast ?l]" and body = v and rest = rest
          and cs = CS_BIN_8 and cs' = ACS_BIN_VALUE and x = "BIN v" and y = "BIN []"] assms(2,3)
      by (simp add: pack_bin_def table_at visit_trail_def unat_ucast_small)
  next
    case 3
    moreover from this have "v \<noteq> []" by auto
    ultimately show ?thesis
      using reads_body [OF assms(1), where b = "0xc5" and u = "to_be 2 (ucast ?l :: u16)" and body = v and rest = rest
          and cs = CS_BIN_16 and cs' = ACS_BIN_VALUE and x = "BIN v" and y = "BIN []"] assms(2,3)
      by (simp add: pack_bin_def table_at visit_trail_def unat_ucast_small codec_simps)
  next
    case 4
    moreover from this have "v \<noteq> []" by auto
    ultimately show ?thesis
      using reads_body [OF assms(1), where b = "0xc6" and u = "to_be 4 ?l" and body = v and rest = rest
          and cs = CS_BIN_32 and cs' = ACS_BIN_VALUE and x = "BIN v" and y = "BIN []"] assms(2,3)
      by (simp add: pack_bin_def table_at visit_trail_def codec_simps)
  qed
qed

lemma reads_fixext:
  assumes "m_cs c = CS_HEADER" "drop (m_current c) data = b # ty # v @ rest"
    "(length v, b, cs) \<in> {(1, 0xd4, CS_FIXEXT_1), (2, 0xd5, CS_FIXEXT_2), (4, 0xd6, CS_FIXEXT_4),
      (8, 0xd7, CS_FIXEXT_8), (16, 0xd8, CS_FIXEXT_16)}"
  shows "reads data c (Suc (Suc (length v))) (EXT ty v)"
  using reads_selector [OF assms(1), where b = b and u = "ty # v" and rest = rest and cs = cs and x = "EXT ty v"]
    assms(2,3) by (auto simp: table_at visit_trail_def visit_ext_def)

lemma ext_size:
  assumes "length v < 2 ^ 32 - 1"
  shows "visit_ext (ty # v @ rest) (of_nat (Suc (length v))) = EXT ty v"
proof -
  have "unat (of_nat (Suc (length v)) :: u32) = Suc (length v)" using assms by (simp only: unat_of_nat) simp
  then show ?thesis by (simp only: visit_ext_def) simp
qed

lemma reads_ext:
  assumes "m_cs c = CS_HEADER" "drop (m_current c) data = pack_obj (EXT ty v) @ rest" "length v < 2 ^ 32 - 1"
  shows "reads data c (length (pack_obj (EXT ty v))) (EXT ty v)"
proof -
  let ?l = "of_nat (length v) :: u64"
  have l: "unat ?l = length v" "length v < 2 ^ 32" using assms(3) by (simp_all add: unat_of_nat)
  have eq: "\<And>k. ?l = numeral k \<longleftrightarrow> length v = unat (numeral k :: u64)" "?l = 1 \<longleftrightarrow> length v = 1"
    using l by (simp_all add: word_unat_eq_iff)
  have less: "\<And>k. ?l < numeral k \<longleftrightarrow> length v < unat (numeral k :: u64)"
    using l by (simp add: word_less_nat_alt)
  have body: "pack_body v (of_nat (length v)) = v" using l(2) by simp
  note vis = ext_size [OF assms(3), simplified]
  consider (fixlen) "length v \<in> {1, 2, 4, 8, 16}" | (small) "length v \<notin> {1, 2, 4, 8, 16}" "length v < 256"
    | (medium) "256 \<le> length v" "length v < 65536" | (big) "65536 \<le> length v" by fastforce
  then show ?thesis
  proof cases
    case fixlen
    then obtain b cs where b: "pack_ext ?l ty = [b, ty]"
      and t: "(length v, b, cs) \<in> {(1, 0xd4, CS_FIXEXT_1), (2, 0xd5, CS_FIXEXT_2), (4, 0xd6, CS_FIXEXT_4),
        (8, 0xd7, CS_FIXEXT_8), (16, 0xd8, CS_FIXEXT_16)}"
      by (auto simp: pack_ext_def eq)
    then show ?thesis
      using reads_fixext [OF assms(1) _ t, of data ty rest] assms(2) by (simp add: body)
  next
    case small
    then have "unat (ucast ?l :: u8) = length v" using l by (simp add: unat_ucast_small)
    then show ?thesis
      using reads_body [OF assms(1), where b = "0xc7" and u = "[ucast ?l]" and body = "ty # v" and rest = rest
          and cs = CS_EXT_8 and cs' = ACS_EXT_VALUE and x = "EXT ty v" and y = NIL] assms(2) small
      by (simp add: pack_ext_def body eq less table_at visit_trail_def vis)
  next
    case medium
    then have "unat (ucast ?l :: u16) = length v" using l by (simp add: unat_ucast_small)
    then show ?thesis
      using reads_body [OF assms(1), where b = "0xc8" and u = "to_be 2 (ucast ?l :: u16)" and body = "ty # v"
          and rest = rest and cs = CS_EXT_16 and cs' = ACS_EXT_VALUE and x = "EXT ty v" and y = NIL] assms(2) medium
      by (simp add: pack_ext_def body eq less table_at visit_trail_def vis codec_simps)
  next
    case big
    then have "unat (ucast ?l :: u32) = length v" using l by (simp add: unat_ucast_small)
    then show ?thesis
      using reads_body [OF assms(1), where b = "0xc9" and u = "to_be 4 (ucast ?l :: u32)" and body = "ty # v"
          and rest = rest and cs = CS_EXT_32 and cs' = ACS_EXT_VALUE and x = "EXT ty v" and y = NIL] assms(2) big
      by (simp add: pack_ext_def body eq less table_at visit_trail_def vis codec_simps)
  qed
qed

text \<open>Opening a container leaves the parser at the header of its first element.\<close>

definition opens :: "bytes \<Rightarrow> parse_ctx \<Rightarrow> nat \<Rightarrow> container_type \<Rightarrow> u32 \<Rightarrow> bool" where
  "opens data c k ty n \<longleftrightarrow>
     (if n = 0 then reads data c k (if ty = CT_ARRAY_ITEM then ARRAY [] else MAP [])
      else m_current c + k \<noteq> length data \<longrightarrow>
        (\<exists>trail. execute_loop data c =
           execute_loop data \<lparr>m_current = m_current c + k, m_trail = trail, m_cs = CS_HEADER,
             m_stack = \<lparr>m_type = ty, m_rest = n, m_slots = []\<rparr> # m_stack c, fixed_trail_again = False\<rparr>))"

lemma opens_now:
  assumes "execute_step data c = start_aggregate c' ty n" "\<not> fixed_trail_again c'" "m_stack c' = m_stack c"
    "m_current c' + 1 = m_current c + k"
  shows "opens data c k ty n"
proof (cases "n = 0")
  case True
  then show ?thesis using assms by (simp add: opens_def start_aggregate_def reads_now)
next
  case False
  have k: "Suc (m_current c') = m_current c + k" using assms(4) by simp
  show ?thesis using False assms(1-3) k
    by (cases c') (auto simp: opens_def start_aggregate_def execute_loop.simps [of data c])
qed

lemma opens_selector:
  assumes "m_cs c = CS_HEADER" "drop (m_current c) data = b # u @ rest"
    "0xc4 \<le> b" "b \<le> 0xdf" "trail_table ! unat (b - 0xc4) = (cs, length u)"
    "\<And>c'. m_cs c' = cs \<Longrightarrow> m_trail c' = length u \<Longrightarrow> visit_trail (u @ rest) c' = start_aggregate c' ty n"
  shows "opens data c (Suc (length u)) ty n"
  by (rule opens_now [where c' = "c\<lparr>m_trail := length u, m_cs := cs, fixed_trail_again := False,
      m_current := m_current c + length u\<rparr>"]) (simp_all add: step_selector [OF assms(1-5)] assms(6))

lemma fixcontainer_bytes:
  "\<forall>k \<in> set [0..<16]. (let b = ucast (0x90 OR (of_nat k :: u32)) :: u8 in
     \<not> b \<le> 0x7f \<and> \<not> 0xe0 \<le> b \<and> \<not> 0xc4 \<le> b \<and> \<not> 0xa0 \<le> b \<and> 0x90 \<le> b \<and> b \<le> 0x9f \<and>
     (ucast b AND 0x0f :: u32) = of_nat k)"
  "\<forall>k \<in> set [0..<16]. (let b = ucast (0x80 OR (of_nat k :: u32)) :: u8 in
     \<not> b \<le> 0x7f \<and> \<not> 0xe0 \<le> b \<and> \<not> 0xc4 \<le> b \<and> \<not> 0xa0 \<le> b \<and> \<not> 0x90 \<le> b \<and> 0x80 \<le> b \<and> b \<le> 0x8f \<and>
     (ucast b AND 0x0f :: u32) = of_nat k)"
  by code_simp+

lemma opens_array:
  assumes "m_cs c = CS_HEADER" "drop (m_current c) data = pack_array n @ rest"
  shows "opens data c (length (pack_array n)) CT_ARRAY_ITEM n"
proof -
  consider "n < 16" | "n < 65536" "\<not> n < 16" | "\<not> n < 65536" by blast
  then show ?thesis
  proof cases
    case 1
    then obtain k where k: "k < 16" "n = of_nat k" using small_word_cases [of n 16] by auto
    have "drop (m_current c) data = ucast (0x90 OR n) # rest" using assms(2) 1 by (simp add: pack_array_def)
    note facts = drop_Cons_facts [OF this]
    have "execute_step data c = start_aggregate (c\<lparr>fixed_trail_again := False\<rparr>) CT_ARRAY_ITEM n"
      using k fixcontainer_bytes(1) [rule_format, of k] assms(1) facts(1)
      by (simp add: execute_step_def Let_def)
    then have "opens data c 1 CT_ARRAY_ITEM n" by (rule opens_now) simp_all
    then show ?thesis using 1 by (simp add: pack_array_def)
  next
    case 2
    then have "ucast (ucast n :: u16) = n" by (simp add: word_less_nat_alt ucast_ucast_small)
    then show ?thesis
      using opens_selector [OF assms(1), where b = "0xdc" and u = "to_be 2 (ucast n :: u16)" and rest = rest
          and cs = CS_ARRAY_16 and n = n and ty = CT_ARRAY_ITEM] assms(2) 2
      by (simp add: pack_array_def table_at visit_trail_def codec_simps)
  next
    case 3
    then have "\<not> n < 16" by (simp add: word_less_nat_alt)
    then show ?thesis
      using opens_selector [OF assms(1), where b = "0xdd" and u = "to_be 4 n" and rest = rest
          and cs = CS_ARRAY_32 and n = n and ty = CT_ARRAY_ITEM] assms(2) 3
      by (simp add: pack_array_def table_at visit_trail_def codec_simps)
  qed
qed

lemma opens_map:
  assumes "m_cs c = CS_HEADER" "drop (m_current c) data = pack_map n @ rest"
  shows "opens data c (length (pack_map n)) CT_MAP_KEY n"
proof -
  consider "n < 16" | "n < 65536" "\<not> n < 16" | "\<not> n < 65536" by blast
  then show ?thesis
  proof cases
    case 1
    then obtain k where k: "k < 16" "n = of_nat k" using small_word_cases [of n 16] by auto
    have "drop (m_current c) data = ucast (0x80 OR n) # rest" using assms(2) 1 by (simp add: pack_map_def)
    note facts = drop_Cons_facts [OF this]
    have "execute_step data c = start_aggregate (c\<lparr>fixed_trail_again := False\<rparr>) CT_MAP_KEY n"
      using k fixcontainer_bytes(2) [rule_format, of k] assms(1) facts(1)
      by (simp add: execute_step_def Let_def)
    then have "opens data c 1 CT_MAP_KEY n" by (rule opens_now) simp_all
    then show ?thesis using 1 by (simp add: pack_map_def)
  next
    case 2
    then have "ucast (ucast n :: u16) = n" by (simp add: word_less_nat_alt ucast_ucast_small)
    then show ?thesis
      using opens_selector [OF assms(1), where b = "0xde" and u = "to_be 2 (ucast n :: u16)" and rest = rest
          and cs = CS_MAP_16 and n = n and ty = CT_MAP_KEY] assms(2) 2
      by (simp add: pack_map_def table_at visit_trail_def codec_simps)
  next
    case 3
    then have "\<not> n < 16" by (simp add: word_less_nat_alt)
    then show ?thesis
      using opens_selector [OF assms(1), where b = "0xdf" and u = "to_be 4 n" and rest = rest
          and cs = CS_MAP_32 and n = n and ty = CT_MAP_KEY] assms(2) 3
      by (simp add: pack_map_def table_at visit_trail_def codec_simps)
  qed
qed

section \<open>Whole objects\<close>

definition readable :: "obj \<Rightarrow> bool" where
  "readable x \<longleftrightarrow>
     (\<forall>data (c :: parse_ctx) rest. m_cs c = CS_HEADER \<longrightarrow> drop (m_current c) data = pack_obj x @ rest \<longrightarrow>
        reads data c (length (pack_obj x)) x)"

lemma readableD:
  "readable x \<Longrightarrow> m_cs c = CS_HEADER \<Longrightarrow> drop (m_current c) data = pack_obj x @ rest \<Longrightarrow>
   \<exists>trail. execute_loop data c = resume data (m_current c + length (pack_obj x)) trail (m_stack c) x"
  by (auto simp: readable_def reads_def)

lemma drop_more:
  "drop cur data = u @ t \<Longrightarrow> drop (cur + length u) data = t"
  by (metis append_eq_conv_conj drop_drop add.commute)

lemma drop_not_end: "drop cur data = t \<Longrightarrow> t \<noteq> [] \<Longrightarrow> cur \<noteq> length data"
  by auto

lemma array_items:
  assumes "xs \<noteq> []" "\<forall>x \<in> set xs. readable x" "length xs < 2 ^ 32"
    "m_cs c = CS_HEADER"
    "m_stack c = \<lparr>m_type = CT_ARRAY_ITEM, m_rest = of_nat (length xs), m_slots = ys\<rparr> # st"
    "drop (m_current c) data = concat (map pack_obj xs) @ rest"
  shows "\<exists>trail. execute_loop data c =
           resume data (m_current c + length (concat (map pack_obj xs))) trail st (ARRAY (ys @ xs))"
  using assms
proof (induction xs arbitrary: c ys)
  case (Cons x xs)
  have "drop (m_current c) data = pack_obj x @ (concat (map pack_obj xs) @ rest)" using Cons.prems by simp
  from readableD [OF _ Cons.prems(4) this] drop_more [OF this]
  obtain tr where tr: "execute_loop data c = resume data (m_current c + length (pack_obj x)) tr (m_stack c) x"
    and d: "drop (m_current c + length (pack_obj x)) data = concat (map pack_obj xs) @ rest"
    using Cons.prems(2) by auto
  have rest: "of_nat (length (x # xs)) - 1 = (of_nat (length xs) :: u32)" by simp
  show ?case
  proof (cases "xs = []")
    case True
    then show ?thesis using tr Cons.prems(5) by (auto simp: resume_def)
  next
    case False
    let ?c = "\<lparr>m_current = m_current c + length (pack_obj x), m_trail = tr, m_cs = CS_HEADER,
      m_stack = \<lparr>m_type = CT_ARRAY_ITEM, m_rest = of_nat (length xs), m_slots = ys @ [x]\<rparr> # st, fixed_trail_again = False\<rparr>"
    have nz: "(of_nat (length xs) :: u32) \<noteq> 0"
      using False Cons.prems(3) by (simp add: word_unat_eq_iff unat_of_nat)
    have "concat (map pack_obj xs) \<noteq> []" using False by (cases xs) (simp_all add: pack_obj_nonempty)
    then have ne: "m_current c + length (pack_obj x) \<noteq> length data" using drop_not_end [OF d] by simp
    have "execute_loop data c = execute_loop data ?c"
      using tr Cons.prems(5) nz ne by (simp add: resume_def)
    moreover have "\<exists>trail. execute_loop data ?c =
        resume data (m_current ?c + length (concat (map pack_obj xs))) trail st (ARRAY ((ys @ [x]) @ xs))"
      using False Cons.prems(2,3) d by (intro Cons.IH) simp_all
    ultimately show ?thesis by (simp add: add.assoc)
  qed
qed simp

lemma pairs_of_flat:
  "pairs_of (concat (map (\<lambda>(k, v). [k, v]) kvs)) = kvs"
  by (induction kvs) auto

lemma map_items:
  assumes "kvs \<noteq> []" "\<forall>(k, v) \<in> set kvs. readable k \<and> readable v" "length kvs < 2 ^ 32"
    "m_cs c = CS_HEADER"
    "m_stack c = \<lparr>m_type = CT_MAP_KEY, m_rest = of_nat (length kvs), m_slots = ys\<rparr> # st"
    "drop (m_current c) data = concat (map (\<lambda>(k, v). pack_obj k @ pack_obj v) kvs) @ rest"
  shows "\<exists>trail. execute_loop data c =
           resume data (m_current c + length (concat (map (\<lambda>(k, v). pack_obj k @ pack_obj v) kvs))) trail st
             (MAP (pairs_of (ys @ concat (map (\<lambda>(k, v). [k, v]) kvs))))"
  using assms
proof (induction kvs arbitrary: c ys)
  case (Cons kv kvs)
  obtain k v where kv: "kv = (k, v)" by fastforce
  let ?t = "concat (map (\<lambda>(k, v). pack_obj k @ pack_obj v) kvs) @ rest"
  have dk: "drop (m_current c) data = pack_obj k @ (pack_obj v @ ?t)" using Cons.prems kv by simp
  obtain tr where tr: "execute_loop data c = resume data (m_current c + length (pack_obj k)) tr (m_stack c) k"
    using readableD [OF _ Cons.prems(4) dk] Cons.prems(2) kv by auto
  let ?cv = "\<lparr>m_current = m_current c + length (pack_obj k), m_trail = tr, m_cs = CS_HEADER,
      m_stack = \<lparr>m_type = CT_MAP_VALUE, m_rest = of_nat (length (kv # kvs)), m_slots = ys @ [k]\<rparr> # st, fixed_trail_again = False\<rparr>"
  have dv: "drop (m_current ?cv) data = pack_obj v @ ?t" using drop_more [OF dk] by simp
  then have "m_current c + length (pack_obj k) \<noteq> length data"
    using drop_not_end [OF dv] by (simp add: pack_obj_nonempty)
  then have step1: "execute_loop data c = execute_loop data ?cv"
    using tr Cons.prems(5) by (simp add: resume_def)
  obtain tr2 where tr2: "execute_loop data ?cv = resume data (m_current ?cv + length (pack_obj v)) tr2 (m_stack ?cv) v"
    using readableD [OF _ _ dv] Cons.prems(2) kv by auto
  have d: "drop (m_current c + length (pack_obj k) + length (pack_obj v)) data = ?t"
    using drop_more [OF dv] by simp
  show ?case
  proof (cases "kvs = []")
    case True
    then show ?thesis using step1 tr2 kv by (auto simp: resume_def add.assoc)
  next
    case False
    let ?c = "\<lparr>m_current = m_current c + length (pack_obj k) + length (pack_obj v), m_trail = tr2, m_cs = CS_HEADER,
      m_stack = \<lparr>m_type = CT_MAP_KEY, m_rest = of_nat (length kvs), m_slots = ys @ [k, v]\<rparr> # st, fixed_trail_again = False\<rparr>"
    have nz: "(of_nat (length kvs) :: u32) \<noteq> 0"
      using False Cons.prems(3) by (simp add: word_unat_eq_iff unat_of_nat)
    have "?t \<noteq> []" using False by (cases kvs) (auto simp: pack_obj_nonempty)
    then have ne: "m_current c + length (pack_obj k) + length (pack_obj v) \<noteq> length data"
      using drop_not_end [OF d] by simp
    have "execute_loop data ?cv = execute_loop data ?c"
      using tr2 nz ne by (simp add: resume_def)
    moreover have "\<exists>trail. execute_loop data ?c =
        resume data (m_current ?c + length (concat (map (\<lambda>(k, v). pack_obj k @ pack_obj v) kvs))) trail st
             (MAP (pairs_of ((ys @ [k, v]) @ concat (map (\<lambda>(k, v). [k, v]) kvs))))"
      using False Cons.prems(2,3) d by (intro Cons.IH) simp_all
    ultimately show ?thesis using step1 kv by (simp add: add.assoc)
  qed
qed simp

lemma readable_array:
  assumes "\<forall>x \<in> set xs. readable x" "length xs < 2 ^ 32"
  shows "readable (ARRAY xs)"
  unfolding readable_def
proof (intro allI impI)
  fix data rest :: bytes and c :: parse_ctx
  assume c: "m_cs c = CS_HEADER" and d: "drop (m_current c) data = pack_obj (ARRAY xs) @ rest"
  let ?n = "of_nat (length xs) :: u32" and ?body = "concat (map pack_obj xs)"
  have d: "drop (m_current c) data = pack_array ?n @ ?body @ rest" using d by simp
  note op = opens_array [OF c d]
  show "reads data c (length (pack_obj (ARRAY xs))) (ARRAY xs)"
  proof (cases "xs = []")
    case True
    then show ?thesis using op by (simp add: opens_def)
  next
    case False
    then have "?n \<noteq> 0" using assms(2) by (simp add: word_unat_eq_iff unat_of_nat)
    moreover have "?body \<noteq> []" using False by (cases xs) (simp_all add: pack_obj_nonempty)
    then have "m_current c + length (pack_array ?n) \<noteq> length data"
      using drop_not_end [OF drop_more [OF d]] by simp
    ultimately obtain tr where tr: "execute_loop data c =
        execute_loop data \<lparr>m_current = m_current c + length (pack_array ?n), m_trail = tr, m_cs = CS_HEADER,
             m_stack = \<lparr>m_type = CT_ARRAY_ITEM, m_rest = ?n, m_slots = []\<rparr> # m_stack c, fixed_trail_again = False\<rparr>"
      using op by (auto simp: opens_def)
    show ?thesis
      using array_items [OF False assms, where c = "\<lparr>m_current = m_current c + length (pack_array ?n), m_trail = tr, m_cs = CS_HEADER,
             m_stack = \<lparr>m_type = CT_ARRAY_ITEM, m_rest = ?n, m_slots = []\<rparr> # m_stack c, fixed_trail_again = False\<rparr>"
          and data = data and rest = rest and ys = "[]" and st = "m_stack c"] drop_more [OF d] tr
      by (simp add: reads_def add.assoc)
  qed
qed

lemma readable_map:
  assumes "\<forall>(k, v) \<in> set kvs. readable k \<and> readable v" "length kvs < 2 ^ 32"
  shows "readable (MAP kvs)"
  unfolding readable_def
proof (intro allI impI)
  fix data rest :: bytes and c :: parse_ctx
  assume c: "m_cs c = CS_HEADER" and d: "drop (m_current c) data = pack_obj (MAP kvs) @ rest"
  let ?n = "of_nat (length kvs) :: u32" and ?body = "concat (map (\<lambda>(k, v). pack_obj k @ pack_obj v) kvs)"
  have d: "drop (m_current c) data = pack_map ?n @ ?body @ rest" using d by simp
  note op = opens_map [OF c d]
  show "reads data c (length (pack_obj (MAP kvs))) (MAP kvs)"
  proof (cases "kvs = []")
    case True
    then show ?thesis using op by (simp add: opens_def)
  next
    case False
    then have "?n \<noteq> 0" using assms(2) by (simp add: word_unat_eq_iff unat_of_nat)
    moreover have "?body \<noteq> []" using False by (cases kvs) (auto simp: pack_obj_nonempty)
    then have "m_current c + length (pack_map ?n) \<noteq> length data"
      using drop_not_end [OF drop_more [OF d]] by simp
    ultimately obtain tr where tr: "execute_loop data c =
        execute_loop data \<lparr>m_current = m_current c + length (pack_map ?n), m_trail = tr, m_cs = CS_HEADER,
             m_stack = \<lparr>m_type = CT_MAP_KEY, m_rest = ?n, m_slots = []\<rparr> # m_stack c, fixed_trail_again = False\<rparr>"
      using op by (auto simp: opens_def)
    show ?thesis
      using map_items [OF False assms, where c = "\<lparr>m_current = m_current c + length (pack_map ?n), m_trail = tr, m_cs = CS_HEADER,
             m_stack = \<lparr>m_type = CT_MAP_KEY, m_rest = ?n, m_slots = []\<rparr> # m_stack c, fixed_trail_again = False\<rparr>"
          and data = data and rest = rest and ys = "[]" and st = "m_stack c"] drop_more [OF d] tr
      by (simp add: reads_def add.assoc pairs_of_flat)
  qed
qed

lemma readable_obj: "wf_obj x \<Longrightarrow> readable x"
proof (induction x)
  case NIL
  then show ?case by (auto simp: readable_def pack_nil_def intro: reads_constant [unfolded One_nat_def])
next
  case (BOOLEAN v)
  then show ?case by (auto simp: readable_def pack_true_def pack_false_def intro: reads_constant [unfolded One_nat_def])
next
  case (ARRAY xs)
  then show ?case by (intro readable_array) auto
next
  case (MAP kvs)
  then have "\<forall>(k, v) \<in> set kvs. readable k \<and> readable v" by (fastforce simp: fsts.simps snds.simps)
  then show ?case using MAP.prems by (intro readable_map) auto
next
  case (STR_obj v)
  then show ?case unfolding readable_def by (metis reads_str wf_obj.simps(2))
next
  case (BIN v)
  then show ?case unfolding readable_def by (metis reads_bin wf_obj.simps(3))
next
  case (EXT ty v)
  then show ?case unfolding readable_def by (metis reads_ext wf_obj.simps(4))
qed (auto simp: readable_def intro: reads_uint reads_negative reads_float reads_double)

lemma unpack_pack_obj:
  assumes "wf_obj x"
  shows "parse_imp (pack_obj x @ rest) =
           Inr (if rest = [] then PARSE_SUCCESS else PARSE_EXTRA_BYTES, length (pack_obj x), Some x)"
    "msgpack_unpack (pack_obj x @ rest) = Inr x"
proof -
  obtain tr where "execute_loop (pack_obj x @ rest) initial_ctx = resume (pack_obj x @ rest) (length (pack_obj x)) tr [] x"
    using readableD [OF readable_obj [OF assms], where c = initial_ctx and data = "pack_obj x @ rest" and rest = rest]
    by (auto simp: initial_ctx_def)
  then have "execute_loop (pack_obj x @ rest) initial_ctx = Some (Inr (PARSE_SUCCESS, length (pack_obj x), Some x))"
    by (simp add: resume_def)
  then show *: "parse_imp (pack_obj x @ rest) =
           Inr (if rest = [] then PARSE_SUCCESS else PARSE_EXTRA_BYTES, length (pack_obj x), Some x)"
    by (simp add: parse_imp_def pack_obj_nonempty)
  show "msgpack_unpack (pack_obj x @ rest) = Inr x"
    by (simp add: msgpack_unpack_def *)
qed

section \<open>The parser's guarantees\<close>

text \<open>C27. The byte loop of the parser ends on every buffer, well-formed or not.\<close>

theorem parser_returns:
  "data \<noteq> [] \<Longrightarrow> \<exists>r. execute_loop data initial_ctx = Some r"
  by (rule execute_returns)

theorem parser_returns_witness: "\<exists>r. execute_loop [0x93, 0xdc, 0xff] initial_ctx = Some r"
  by (rule parser_returns) simp

text \<open>C26. A packed object, followed by anything, parses to itself, and the parser stops exactly
  behind it.\<close>

theorem object_roundtrip:
  "wf_obj x \<Longrightarrow>
   parse_imp (pack_obj x @ rest) =
     Inr (if rest = [] then PARSE_SUCCESS else PARSE_EXTRA_BYTES, length (pack_obj x), Some x)"
  by (rule unpack_pack_obj(1))

theorem object_roundtrip_witness:
  "parse_imp (pack_obj (ARRAY [POSITIVE_INTEGER 300, MAP [(STR_obj [65, 66], NEGATIVE_INTEGER (- 40000)), (NIL, BIN [1])]]) @ [9])
   = Inr (PARSE_EXTRA_BYTES,
       length (pack_obj (ARRAY [POSITIVE_INTEGER 300, MAP [(STR_obj [65, 66], NEGATIVE_INTEGER (- 40000)), (NIL, BIN [1])]])),
       Some (ARRAY [POSITIVE_INTEGER 300, MAP [(STR_obj [65, 66], NEGATIVE_INTEGER (- 40000)), (NIL, BIN [1])]]))"
  by (rule trans [OF object_roundtrip]) simp_all

end
