(* ===== verification/Msgpack_Adaptor.thy ===== *)
theory Msgpack_Adaptor imports Msgpack_Roundtrip begin

unbundle bit_operations_syntax

text \<open>
  C++ values and types as the RPC layer serialises them: the adaptors of
  \<open>thirdparty/msgpack/msgpack/v1/adaptor\<close> for \<open>int\<close>, \<open>size_t\<close>, \<open>bool\<close>, \<open>std::string\<close>,
  \<open>std::wstring\<close>, \<open>std::tuple\<close> and a struct with \<open>MSGPACK_DEFINE\<close>. \<open>cty\<close> is the universe of the template
  parameters, \<open>cval\<close> of the values; \<open>pack_value\<close> is \<open>packer::pack\<close>, \<open>as_value\<close> is
  \<open>object::as<T>()\<close>. A string literal or \<open>const char*\<close> packs like the \<open>std::string\<close> of its
  characters. A \<open>std::wstring\<close> is the list of its 32-bit characters.
\<close>

datatype cty =
    T_int | T_size_t | T_bool | T_string | T_wstring
  | T_tuple "cty list"
  | T_struct "cty list"

datatype cval =
    V_int u32
  | V_size_t u64
  | V_bool bool
  | V_string bytes
  | V_wstring "u32 list"
  | V_tuple "cval list"
  | V_struct "cval list"

section \<open>Packing\<close>

definition checked_get_container_size :: "nat \<Rightarrow> u32 res" where
  "checked_get_container_size n =
     (if n > 0xffffffff then Inl (other_exception (lit ''container size overflow''))
      else Inr (of_nat n))"

definition pack_string :: "bytes \<Rightarrow> bytes res" where
  "pack_string v =
     (case checked_get_container_size (length v) of
        Inl e \<Rightarrow> Inl e
      | Inr n \<Rightarrow> Inr (pack_str n @ pack_body v n))"

definition pack_wstring :: "u32 list \<Rightarrow> bytes res" where
  "pack_wstring v =
     (case checked_get_container_size (length v) of
        Inl e \<Rightarrow> Inl e
      | Inr n \<Rightarrow> Inr (pack_array n @ concat (map pack_wchar v)))"

definition append_res :: "bytes res \<Rightarrow> bytes res \<Rightarrow> bytes res" where
  "append_res r s =
     (case r of Inl e \<Rightarrow> Inl e
      | Inr a \<Rightarrow> (case s of Inl e \<Rightarrow> Inl e | Inr b \<Rightarrow> Inr (a @ b)))"

text \<open>
  The number of elements of a tuple is a template parameter: \<open>static_cast<uint32_t>\<close> of it.
\<close>

fun pack_value :: "cval \<Rightarrow> bytes res" and pack_values :: "cval list \<Rightarrow> bytes res" where
  "pack_value (V_int d) = Inr (pack_int d)"
| "pack_value (V_size_t d) = Inr (pack_unsigned_long d)"
| "pack_value (V_bool v) = Inr (if v then pack_true else pack_false)"
| "pack_value (V_string v) = pack_string v"
| "pack_value (V_wstring v) = pack_wstring v"
| "pack_value (V_tuple vs) = append_res (Inr (pack_array (of_nat (length vs)))) (pack_values vs)"
| "pack_value (V_struct vs) = append_res (Inr (pack_array (of_nat (length vs)))) (pack_values vs)"
| "pack_values [] = Inr []"
| "pack_values (v # vs) = append_res (pack_value v) (pack_values vs)"

section \<open>Converting\<close>

definition type_error :: exn where
  "type_error = other_exception (lit ''std::bad_cast'')"

lemma type_error_defined [simp]: "type_error \<noteq> undefined_behaviour"
  by (simp add: type_error_def)

text \<open>\<open>convert_integer_sign<T, true>\<close>, for the 32-bit types \<open>int\<close> and \<open>wchar_t\<close>.\<close>

definition convert_signed :: "obj \<Rightarrow> u32 res" where
  "convert_signed x =
     (case x of
        POSITIVE_INTEGER u \<Rightarrow> (if u > 2147483647 then Inl type_error else Inr (ucast u))
      | NEGATIVE_INTEGER i \<Rightarrow> (if sint i < - 2147483648 then Inl type_error else Inr (ucast i))
      | _ \<Rightarrow> Inl type_error)"

definition convert_int :: "obj \<Rightarrow> cval res" where
  "convert_int x = map_sum id V_int (convert_signed x)"

definition convert_size_t :: "obj \<Rightarrow> cval res" where
  "convert_size_t x = (case x of POSITIVE_INTEGER u \<Rightarrow> Inr (V_size_t u) | _ \<Rightarrow> Inl type_error)"

definition convert_bool :: "obj \<Rightarrow> cval res" where
  "convert_bool x = (case x of BOOLEAN b \<Rightarrow> Inr (V_bool b) | _ \<Rightarrow> Inl type_error)"

definition convert_string :: "obj \<Rightarrow> cval res" where
  "convert_string x =
     (case x of BIN s \<Rightarrow> Inr (V_string s) | STR_obj s \<Rightarrow> Inr (V_string s) | _ \<Rightarrow> Inl type_error)"

fun convert_wchars :: "obj list \<Rightarrow> u32 list res" where
  "convert_wchars [] = Inr []"
| "convert_wchars (x # xs) =
     (case convert_signed x of
        Inl e \<Rightarrow> Inl e
      | Inr c \<Rightarrow> (case convert_wchars xs of Inl e \<Rightarrow> Inl e | Inr cs \<Rightarrow> Inr (c # cs)))"

definition convert_wstring :: "obj \<Rightarrow> cval res" where
  "convert_wstring x =
     (case x of ARRAY xs \<Rightarrow> map_sum id V_wstring (convert_wchars xs) | _ \<Rightarrow> Inl type_error)"

text \<open>A value-initialised \<open>T\<close>.\<close>

fun default_value :: "cty \<Rightarrow> cval" where
  "default_value T_int = V_int 0"
| "default_value T_size_t = V_size_t 0"
| "default_value T_bool = V_bool False"
| "default_value T_string = V_string []"
| "default_value T_wstring = V_wstring []"
| "default_value (T_tuple ts) = V_tuple (map default_value ts)"
| "default_value (T_struct ts) = V_struct (map default_value ts)"

text \<open>
  \<open>msgpack::has_as<T>\<close>: of these types \<open>std::wstring\<close> has an \<open>adaptor::as\<close>, and so has a tuple in which some
  type has one. Such a tuple is not converted element by element into a default but built by \<open>StdTupleAs\<close>,
  which counts the elements from the end of the array: surplus ones are dropped in front, and in an
  array that is too short it reads in front of the first element.
\<close>

fun has_as :: "cty \<Rightarrow> bool" where
  "has_as T_wstring \<longleftrightarrow> True"
| "has_as (T_tuple ts) \<longleftrightarrow> list_ex has_as ts"
| "has_as _ \<longleftrightarrow> False"

text \<open>
  \<open>as<T>()\<close> of a struct converts into \<open>T v;\<close>, whose numbers have no value yet (the elements of a
  \<open>std::tuple\<close> are zero): \<open>no_value\<close> are the types for which that matters, and \<open>left_unset\<close> says that an
  array is too short to set them all. To return such a value is to read them.
\<close>

fun no_value :: "cty \<Rightarrow> bool" where
  "no_value T_int \<longleftrightarrow> True"
| "no_value T_size_t \<longleftrightarrow> True"
| "no_value T_bool \<longleftrightarrow> True"
| "no_value (T_struct ts) \<longleftrightarrow> list_ex no_value ts"
| "no_value _ \<longleftrightarrow> False"

fun left_unset :: "cty \<Rightarrow> obj \<Rightarrow> bool" and members_unset :: "cty list \<Rightarrow> obj list \<Rightarrow> bool" where
  "left_unset (T_struct ts) x \<longleftrightarrow> (case x of ARRAY xs \<Rightarrow> members_unset ts xs | _ \<Rightarrow> False)"
| "left_unset _ x \<longleftrightarrow> False"
| "members_unset [] xs \<longleftrightarrow> False"
| "members_unset (t # ts) [] \<longleftrightarrow> list_ex no_value (t # ts)"
| "members_unset (t # ts) (x # xs) \<longleftrightarrow> left_unset t x \<or> members_unset ts xs"

definition returned :: "cty \<Rightarrow> obj \<Rightarrow> cval res \<Rightarrow> cval res" where
  "returned t x r = (case r of Inl e \<Rightarrow> Inl e | Inr v \<Rightarrow> if left_unset t x then Inl undefined_behaviour else Inr v)"

text \<open>The elements of \<open>StdTupleAs\<close> are arguments of calls, evaluated in no given order: undefined
  behaviour in one of them may come before an exception of another.\<close>

definition cons_as :: "cval res \<Rightarrow> cval list res \<Rightarrow> cval list res" where
  "cons_as r rs =
     (if r = Inl undefined_behaviour \<or> rs = Inl undefined_behaviour then Inl undefined_behaviour
      else case r of
        Inl e \<Rightarrow> Inl e
      | Inr v \<Rightarrow> (case rs of Inl e \<Rightarrow> Inl e | Inr vs \<Rightarrow> Inr (v # vs)))"

text \<open>
  \<open>object::convert\<close> into an object that is there. In \<open>StdTupleConverter\<close> and \<open>define_array_imp\<close> an element is
  converted when the array has it: missing ones keep their value, surplus ones are ignored.
\<close>

fun convert_value :: "cty \<Rightarrow> obj \<Rightarrow> cval res" and convert_elements :: "cty list \<Rightarrow> obj list \<Rightarrow> cval list res" and as_elements :: "cty list \<Rightarrow> obj list \<Rightarrow> cval list res" where
  "convert_value T_int x = convert_int x"
| "convert_value T_size_t x = convert_size_t x"
| "convert_value T_bool x = convert_bool x"
| "convert_value T_string x = convert_string x"
| "convert_value T_wstring x = convert_wstring x"
| "convert_value (T_tuple ts) x =
     (case x of
        ARRAY xs \<Rightarrow> map_sum id V_tuple
          (if \<not> list_ex has_as ts then convert_elements ts xs
           else if length xs < length ts then Inl undefined_behaviour
           else as_elements ts (drop (length xs - length ts) xs))
      | _ \<Rightarrow> Inl type_error)"
| "convert_value (T_struct ts) x =
     (case x of ARRAY xs \<Rightarrow> map_sum id V_struct (convert_elements ts xs) | _ \<Rightarrow> Inl type_error)"
| "convert_elements [] xs = Inr []"
| "convert_elements (t # ts) [] = Inr (map default_value (t # ts))"
| "convert_elements (t # ts) (x # xs) =
     (case convert_value t x of
        Inl e \<Rightarrow> Inl e
      | Inr v \<Rightarrow> (case convert_elements ts xs of Inl e \<Rightarrow> Inl e | Inr vs \<Rightarrow> Inr (v # vs)))"
| "as_elements [] xs = Inr []"
| "as_elements (t # ts) [] = Inl undefined_behaviour"
| "as_elements (t # ts) (x # xs) = cons_as (returned t x (convert_value t x)) (as_elements ts xs)"

definition as_value :: "cty \<Rightarrow> obj \<Rightarrow> cval res" where
  "as_value t x = returned t x (convert_value t x)"

section \<open>Types of values\<close>

fun has_type :: "cval \<Rightarrow> cty \<Rightarrow> bool" where
  "has_type (V_int _) T_int \<longleftrightarrow> True"
| "has_type (V_size_t _) T_size_t \<longleftrightarrow> True"
| "has_type (V_bool _) T_bool \<longleftrightarrow> True"
| "has_type (V_string _) T_string \<longleftrightarrow> True"
| "has_type (V_wstring _) T_wstring \<longleftrightarrow> True"
| "has_type (V_tuple vs) (T_tuple ts) \<longleftrightarrow> list_all2 has_type vs ts"
| "has_type (V_struct vs) (T_struct ts) \<longleftrightarrow> list_all2 has_type vs ts"
| "has_type _ _ \<longleftrightarrow> False"

text \<open>Values whose strings and tuples are small enough for MessagePack.\<close>

fun fits :: "cval \<Rightarrow> bool" where
  "fits (V_string s) \<longleftrightarrow> length s < 2 ^ 32"
| "fits (V_wstring ws) \<longleftrightarrow> length ws < 2 ^ 32"
| "fits (V_tuple vs) \<longleftrightarrow> length vs < 2 ^ 32 \<and> (\<forall>v \<in> set vs. fits v)"
| "fits (V_struct vs) \<longleftrightarrow> length vs < 2 ^ 32 \<and> (\<forall>v \<in> set vs. fits v)"
| "fits _ \<longleftrightarrow> True"

text \<open>The object a value packs to (the \<open>object\<close> adaptors).\<close>

definition wchar_obj :: "u32 \<Rightarrow> obj" where
  "wchar_obj d = (if sint d < 0 then NEGATIVE_INTEGER (scast d) else POSITIVE_INTEGER (scast d))"

fun obj_of :: "cval \<Rightarrow> obj" where
  "obj_of (V_int d) =
     (if sint d < 0 then NEGATIVE_INTEGER (scast d) else POSITIVE_INTEGER (scast d))"
| "obj_of (V_size_t d) = POSITIVE_INTEGER d"
| "obj_of (V_bool b) = BOOLEAN b"
| "obj_of (V_string s) = STR_obj s"
| "obj_of (V_wstring ws) = ARRAY (map wchar_obj ws)"
| "obj_of (V_tuple vs) = ARRAY (map obj_of vs)"
| "obj_of (V_struct vs) = ARRAY (map obj_of vs)"

section \<open>Packing agrees with the object of a value\<close>

lemma sint_scast_u64: "sint (scast (d :: u32) :: u64) = sint d"
  using sint_lt [of d] sint_ge [of d] by (simp add: signed_scast_eq signed_take_bit_int_eq_self)

lemma ucast_scast_u64 [simp]:
  "(ucast (scast (d :: u32) :: u64) :: u8) = ucast d"
  "(ucast (scast (d :: u32) :: u64) :: u16) = ucast d"
  "(ucast (scast (d :: u32) :: u64) :: u32) = d"
  by (rule bit_word_eqI; simp add: bit_simps)+

lemma unat_scast_u64:
  assumes "sint (d :: u32) \<ge> 0"
  shows "unat (scast d :: u64) = unat d"
proof -
  have "int (unat (scast d :: u64)) = int (unat d)"
    by (metis assms sint_pos sint_scast_u64)
  then show ?thesis by (simp only: of_nat_eq_iff)
qed

lemma sint_numeral_less:
  assumes "sint (d :: u32) \<ge> 0"
  shows "sint d < numeral k \<longleftrightarrow> unat d < numeral k"
  unfolding sint_pos [OF assms] by (metis of_nat_less_iff of_nat_numeral)

lemma pack_int_obj: "pack_int d = pack_obj (obj_of (V_int d))"
proof (cases "sint d < 0")
  case True
  have "- 2147483648 \<le> sint d" using sint_ge [of d] by simp
  then show ?thesis using True
    by (simp add: pack_int_def pack_imp_int32_def pack_imp_int64_def sint_scast_u64)
next
  case False
  then have "unat (scast d :: u64) = unat d" by (simp add: unat_scast_u64)
  moreover have "unat d < 4294967296" by (rule unat_u32_less)
  ultimately show ?thesis using False
    by (simp add: pack_int_def pack_imp_int32_def pack_imp_uint64_def word_less_nat_alt sint_numeral_less)
qed

lemma pack_wchar_obj: "pack_wchar d = pack_obj (wchar_obj d)"
  by (simp add: pack_wchar_def wchar_obj_def)

lemma pack_values_all:
  "\<forall>v \<in> set vs. pack_value v = Inr (pack_obj (obj_of v)) \<Longrightarrow>
   pack_values vs = Inr (concat (map pack_obj (map obj_of vs)))"
  by (induction vs) (auto simp: append_res_def)

lemma pack_value_obj: "fits v \<Longrightarrow> pack_value v = Inr (pack_obj (obj_of v))"
proof (induction v)
  case (V_int d)
  then show ?case by (simp only: pack_value.simps pack_int_obj)
next
  case (V_string s)
  then show ?case by (simp add: pack_string_def checked_get_container_size_def)
next
  case (V_wstring ws)
  moreover have "pack_wchar = (\<lambda>d. pack_obj (wchar_obj d))" by (rule ext) (rule pack_wchar_obj)
  ultimately show ?case by (simp add: pack_wstring_def checked_get_container_size_def comp_def)
next
  case (V_tuple vs)
  then show ?case using pack_values_all [of vs] by (auto simp: append_res_def)
next
  case (V_struct vs)
  then show ?case using pack_values_all [of vs] by (auto simp: append_res_def)
qed (simp_all add: pack_unsigned_long_def)

lemma wf_obj_of: "fits v \<Longrightarrow> wf_obj (obj_of v)"
  by (induction v) (auto simp: sint_scast_u64 wchar_obj_def)

section \<open>Converting a value's object\<close>

lemma ucast_scast_small: "ucast (scast (d :: u32) :: u64) = d"
  by (rule ucast_scast_u64(3))

lemma convert_signed_obj: "convert_signed (wchar_obj d) = Inr d"
proof (cases "sint d < 0")
  case True
  have "- 2147483648 \<le> sint d" using sint_ge [of d] by simp
  then show ?thesis using True by (simp add: convert_signed_def wchar_obj_def sint_scast_u64)
next
  case False
  then have "unat (scast d :: u64) = unat d" by (simp add: unat_scast_u64)
  moreover have "sint d < 2147483648" using sint_lt [of d] by simp
  then have "unat d < 2147483648" using False by (simp add: sint_numeral_less)
  ultimately show ?thesis using False by (simp add: convert_signed_def wchar_obj_def word_less_nat_alt)
qed

lemma convert_int_obj: "convert_int (obj_of (V_int d)) = Inr (V_int d)"
  using convert_signed_obj [of d] by (simp add: convert_int_def wchar_obj_def)

lemma convert_wchars_obj: "convert_wchars (map wchar_obj ws) = Inr ws"
  by (induction ws) (simp_all add: convert_signed_obj)

lemma convert_elements_all:
  "list_all2 (\<lambda>v t. convert_value t (obj_of v) = Inr v) vs ts \<Longrightarrow>
   convert_elements ts (map obj_of vs @ surplus) = Inr vs"
  by (induction rule: list_all2_induct) simp_all

lemma left_unset_obj_of: "has_type v t \<Longrightarrow> \<not> left_unset t (obj_of v)"
proof (induction v arbitrary: t)
  case (V_struct vs)
  then obtain ts where t: "t = T_struct ts" and ts: "list_all2 has_type vs ts" by (cases t) auto
  have "list_all2 (\<lambda>v t. \<not> left_unset t (obj_of v)) vs ts"
    using ts V_struct.IH by (auto simp: list_all2_conv_all_nth)
  then have "\<not> members_unset ts (map obj_of vs)" by (induction rule: list_all2_induct) simp_all
  then show ?case by (simp add: t)
qed (case_tac t; simp)+

lemma as_elements_all:
  "list_all2 (\<lambda>v t. convert_value t (obj_of v) = Inr v \<and> \<not> left_unset t (obj_of v)) vs ts \<Longrightarrow>
   as_elements ts (map obj_of vs) = Inr vs"
  by (induction rule: list_all2_induct) (simp_all add: returned_def cons_as_def)

lemma convert_value_obj_of: "has_type v t \<Longrightarrow> convert_value t (obj_of v) = Inr v"
proof (induction v arbitrary: t)
  case (V_int d)
  then show ?case by (cases t) (simp_all only: has_type.simps convert_value.simps convert_int_obj)
next
  case (V_size_t d)
  then show ?case by (cases t) (simp_all add: convert_size_t_def)
next
  case (V_bool d)
  then show ?case by (cases t) (simp_all add: convert_bool_def)
next
  case (V_string d)
  then show ?case by (cases t) (simp_all add: convert_string_def)
next
  case (V_wstring ws)
  then show ?case by (cases t) (simp_all add: convert_wstring_def convert_wchars_obj)
next
  case (V_tuple vs)
  then obtain ts where t: "t = T_tuple ts" and ts: "list_all2 has_type vs ts" by (cases t) auto
  then have all: "list_all2 (\<lambda>v t. convert_value t (obj_of v) = Inr v) vs ts"
    using ts V_tuple.IH by (auto simp: list_all2_conv_all_nth)
  then have "list_all2 (\<lambda>v t. convert_value t (obj_of v) = Inr v \<and> \<not> left_unset t (obj_of v)) vs ts"
    using ts left_unset_obj_of by (auto simp: list_all2_conv_all_nth)
  then show ?case
    using convert_elements_all [OF all, of "[]"] as_elements_all [of vs ts] list_all2_lengthD [OF ts] t by simp
next
  case (V_struct vs)
  then obtain ts where t: "t = T_struct ts" and ts: "list_all2 has_type vs ts" by (cases t) auto
  then have "list_all2 (\<lambda>v t. convert_value t (obj_of v) = Inr v) vs ts"
    using ts V_struct.IH by (auto simp: list_all2_conv_all_nth)
  then show ?case using convert_elements_all [of vs ts "[]"] t by simp
qed

lemma as_value_obj_of: "has_type v t \<Longrightarrow> as_value t (obj_of v) = Inr v"
  by (simp add: as_value_def returned_def convert_value_obj_of left_unset_obj_of)

lemma convert_elements_missing:
  "list_all2 has_type vs ts \<Longrightarrow> convert_elements (ts @ us) (map obj_of vs) = Inr (vs @ map default_value us)"
proof (induction rule: list_all2_induct)
  case Nil
  then show ?case by (cases us) simp_all
qed (simp add: convert_value_obj_of)

text \<open>A tuple without wide strings is converted element by element.\<close>

lemma as_value_tuple:
  "\<not> list_ex has_as ts \<Longrightarrow> as_value (T_tuple ts) (ARRAY xs) = map_sum id V_tuple (convert_elements ts xs)"
  by (cases "convert_elements ts xs") (simp_all add: as_value_def returned_def)

lemma default_has_type: "has_type (default_value t) t"
  by (induction t) (auto simp: list_all2_conv_all_nth)

lemma map_sum_InrE:
  assumes "map_sum id f r = Inr v"
  obtains a where "r = Inr a" "v = f a"
  using assms by (cases r) auto

lemma convert_type:
  "convert_value t x = Inr v \<Longrightarrow> has_type v t"
  "convert_elements ts xs = Inr vs \<Longrightarrow> list_all2 has_type vs ts"
  "as_elements ts xs = Inr vs \<Longrightarrow> list_all2 has_type vs ts"
proof (induction t x and ts xs and ts xs arbitrary: v and vs and vs
    rule: convert_value_convert_elements_as_elements.induct)
  case (9 t ts)
  then have "vs = map default_value (t # ts)" by simp
  then show ?case by (simp only: list_all2_map1) (simp add: default_has_type list_all2_same)
qed (auto simp: convert_int_def convert_wstring_def convert_size_t_def convert_bool_def convert_string_def
    returned_def cons_as_def split: obj.splits if_splits sum.splits elim!: map_sum_InrE)

lemma as_value_type: "as_value t x = Inr v \<Longrightarrow> has_type v t"
  by (auto simp: as_value_def returned_def convert_type(1) split: sum.splits if_splits)

section \<open>Undefined behaviour\<close>

text \<open>Types without a tuple in which a wide string stands.\<close>

fun narrow :: "cty \<Rightarrow> bool" where
  "narrow (T_tuple ts) \<longleftrightarrow> \<not> list_ex has_as ts \<and> list_all narrow ts"
| "narrow (T_struct ts) \<longleftrightarrow> list_all narrow ts"
| "narrow _ \<longleftrightarrow> True"

lemma convert_signed_fails: "convert_signed x = Inl e \<Longrightarrow> e = type_error"
  by (auto simp: convert_signed_def split: obj.splits if_splits)

lemma convert_wchars_fails: "convert_wchars xs = Inl e \<Longrightarrow> e = type_error"
  by (induction xs) (auto dest: convert_signed_fails split: sum.splits)

lemma map_sum_Inl: "map_sum id f r = Inl e \<longleftrightarrow> r = Inl e"
  by (cases r) auto

lemma convert_fails:
  "convert_value t x = Inl e \<Longrightarrow> e = type_error \<or> e = undefined_behaviour \<and> \<not> narrow t"
  "convert_elements ts xs = Inl e \<Longrightarrow> e = type_error \<or> e = undefined_behaviour \<and> \<not> list_all narrow ts"
  "as_elements ts xs = Inl e \<Longrightarrow> e = type_error \<or> e = undefined_behaviour"
proof (induction t x and ts xs and ts xs arbitrary: e and e and e
    rule: convert_value_convert_elements_as_elements.induct)
qed (auto simp: convert_int_def convert_wstring_def convert_size_t_def convert_bool_def convert_string_def
    returned_def cons_as_def map_sum_Inl dest: convert_signed_fails convert_wchars_fails
    split: obj.splits if_splits sum.splits)

text \<open>\<open>as<T>()\<close> is defined for all objects when \<open>T\<close> has no wide string in a tuple and is no struct with
  numbers.\<close>

fun defined_type :: "cty \<Rightarrow> bool" where
  "defined_type (T_struct ts) \<longleftrightarrow> narrow (T_struct ts) \<and> \<not> no_value (T_struct ts)"
| "defined_type t \<longleftrightarrow> narrow t"

lemma left_unset_no_value:
  "left_unset t x \<Longrightarrow> no_value t"
  "members_unset ts xs \<Longrightarrow> list_ex no_value ts"
  by (induction t x and ts xs rule: left_unset_members_unset.induct) (auto split: obj.splits)

lemma defined_set: "defined_type t \<Longrightarrow> narrow t \<and> \<not> left_unset t x"
  using left_unset_no_value(1) [of t x] by (cases t) auto

lemma as_value_fails:
  "as_value t x = Inl e \<Longrightarrow> e = type_error \<or> e = undefined_behaviour \<and> \<not> defined_type t"
  using convert_fails(1) [of t x] defined_set [of t x]
  by (auto simp: as_value_def returned_def split: sum.splits if_splits)

end
