(* ===== verification/Const_Vars.thy ===== *)
theory Const_Vars imports Rpc_Prelude begin

text \<open>
  \<open>include/rest_rpc/const_vars.h\<close>: result codes, the request type, the fixed-size header in front
  of every message and the size limits.

  The header is sent and read as the memory of the struct, so its layout is that of the x86-64 ABI:
  \<open>magic\<close> at 0, \<open>req_type\<close> at 1, two bytes of padding, \<open>body_len\<close> at 4, \<open>req_id\<close> at 8,
  \<open>func_id\<close> at 16 and four bytes of padding. Padding bytes hold whatever was in memory: they are
  an argument of the encoder. \<open>request_type\<close> is an enum over \<open>uint8_t\<close> that is read straight
  from the wire and may hold any of the 256 values, so it stays a byte.
\<close>

datatype result_code = RC_OK | RC_FAIL

fun result_code_value :: "result_code \<Rightarrow> int" where
  "result_code_value RC_OK = 0"
| "result_code_value RC_FAIL = 1"

datatype error_code = EC_OK | EC_UNKNOWN | EC_FALL | EC_TIMEOUT | EC_CANCEL | EC_BADCONNECTION

type_synonym request_type = u8

definition req_res :: request_type where
  "req_res = 0"

definition sub_pub :: request_type where
  "sub_pub = 1"

record message_type =
  m_req_id :: u64
  m_req_type :: request_type
  m_content :: bytes

definition MAGIC_NUM :: u8 where
  "MAGIC_NUM = 39"

record rpc_header =
  h_magic :: u8
  h_req_type :: request_type
  h_body_len :: u32
  h_req_id :: u64
  h_func_id :: u32

definition MAX_BUF_LEN :: nat where
  "MAX_BUF_LEN = 1048576 * 10"

definition HEAD_LEN :: nat where
  "HEAD_LEN = 24"

definition INIT_BUF_SIZE :: nat where
  "INIT_BUF_SIZE = 2 * 1024"

section \<open>The header in memory\<close>

definition header_memory :: "bytes \<Rightarrow> rpc_header \<Rightarrow> bytes" where
  "header_memory pad h =
     [h_magic h, h_req_type h] @ take 2 pad @ to_le 4 (h_body_len h) @
     to_le 8 (h_req_id h) @ to_le 4 (h_func_id h) @ drop 2 pad"

definition header_of_memory :: "bytes \<Rightarrow> rpc_header" where
  "header_of_memory mem =
     \<lparr>h_magic = mem ! 0, h_req_type = mem ! 1, h_body_len = of_le (take 4 (drop 4 mem)),
      h_req_id = of_le (take 8 (drop 8 mem)), h_func_id = of_le (take 4 (drop 16 mem))\<rparr>"

lemma length_header_memory: "length pad = 6 \<Longrightarrow> length (header_memory pad h) = HEAD_LEN"
  by (simp add: header_memory_def HEAD_LEN_def)

lemma header_of_header_memory [codec_simps]:
  "length pad = 6 \<Longrightarrow> header_of_memory (header_memory pad h @ rest) = h"
  by (rule rpc_header.equality) (simp_all add: header_of_memory_def header_memory_def codec_simps)

text \<open>A header survives the trip through memory, whatever its padding bytes hold and
  whatever follows it.\<close>

theorem header_roundtrip:
  "length pad = 6 \<Longrightarrow>
     length (header_memory pad h) = HEAD_LEN \<and>
     header_of_memory (take HEAD_LEN (header_memory pad h @ body)) = h"
  using length_header_memory [of pad h] header_of_header_memory [of pad h "[]"] by simp

theorem header_roundtrip_witness:
  "header_of_memory (take HEAD_LEN (header_memory [1, 2, 3, 4, 5, 6]
       \<lparr>h_magic = MAGIC_NUM, h_req_type = sub_pub, h_body_len = 70000, h_req_id = 2 ^ 63 + 5,
        h_func_id = 0xdeadbeef\<rparr> @ [9, 9]))
   = \<lparr>h_magic = MAGIC_NUM, h_req_type = sub_pub, h_body_len = 70000, h_req_id = 2 ^ 63 + 5,
        h_func_id = 0xdeadbeef\<rparr>"
  by (rule header_roundtrip [of "[1, 2, 3, 4, 5, 6]", THEN conjunct2]) simp

end
