(* ===== verification/Codec.thy ===== *)
theory Codec imports Msgpack_Adaptor Const_Vars begin

text \<open>
  \<open>include/rest_rpc/codec.h\<close>: the struct \<open>msgpack_codec\<close>, through which every argument list and
  every result goes. \<open>pack_args\<close> and \<open>pack_args_str\<close> pack one tuple; \<open>unpack\<close> turns every exception
  below it into one \<open>std::invalid_argument\<close>; undefined behaviour there it cannot catch. The initial capacity of the buffers has
  no observable effect.

  The locales \<open>codec\<close> and \<open>args_codec\<close> state what the layers above rely on; they are
  interpreted on these functions at the end.
\<close>

section \<open>The struct\<close>

definition init_size :: nat where
  "init_size = 2 * 1024"

definition pack_args :: "cval list \<Rightarrow> bytes res" where
  "pack_args args = pack_value (V_tuple args)"

definition pack_args_str :: "result_code \<Rightarrow> cval list \<Rightarrow> bytes res" where
  "pack_args_str arg args = pack_value (V_tuple (V_int (of_int (result_code_value arg)) # args))"

definition codec_pack :: "cval \<Rightarrow> bytes res" where
  "codec_pack t = pack_value t"

definition args_not_match :: exn where
  "args_not_match = invalid_argument (lit ''unpack failed:Args not match'')"

lemma args_not_match_defined [simp]: "args_not_match \<noteq> undefined_behaviour"
  by (simp add: args_not_match_def)

definition codec_unpack :: "cty \<Rightarrow> bytes \<Rightarrow> cval res" where
  "codec_unpack t data =
     (case msgpack_unpack data of
        Inl e \<Rightarrow> Inl args_not_match
      | Inr x \<Rightarrow>
          (case as_value t x of
             Inl e \<Rightarrow> Inl (if e = undefined_behaviour then undefined_behaviour else args_not_match)
           | Inr v \<Rightarrow> Inr v))"

section \<open>The interface\<close>

locale codec =
  fixes pk :: "'v \<Rightarrow> 'e + 'b list"
    and unpk :: "'t \<Rightarrow> 'b list \<Rightarrow> 'e + 'v"
    and typed :: "'v \<Rightarrow> 't \<Rightarrow> bool"
    and small :: "'v \<Rightarrow> bool"
  assumes pack_total: "small v \<Longrightarrow> \<exists>b. pk v = Inr b"
    and pack_nonempty: "pk v = Inr b \<Longrightarrow> b \<noteq> []"
    and unpack_pack: "typed v t \<Longrightarrow> small v \<Longrightarrow> pk v = Inr b \<Longrightarrow> unpk t (b @ rest) = Inr v"
    and unpack_typed: "unpk t b = Inr v \<Longrightarrow> typed v t"
begin

lemma unpack_pack_exact: "typed v t \<Longrightarrow> small v \<Longrightarrow> pk v = Inr b \<Longrightarrow> unpk t b = Inr v"
  using unpack_pack [of v t b "[]"] by simp

lemma pack_injective:
  assumes "typed v t" "typed w t" "small v" "small w" "pk v = pk w"
  shows "v = w"
proof -
  obtain b where b: "pk v = Inr b" using pack_total [OF assms(3)] by blast
  then have "unpk t b = Inr v" "unpk t b = Inr w" using assms by (metis unpack_pack_exact)+
  then show ?thesis by simp
qed

text \<open>No packed value of a type is a proper prefix of another: a stream of them is readable.\<close>

lemma pack_prefix_free:
  assumes "typed v t" "typed w t" "small v" "small w" "pk v = Inr b" "pk w = Inr (b @ rest)"
  shows "rest = []"
proof -
  have "unpk t (b @ rest) = Inr v" using assms by (simp add: unpack_pack)
  moreover have "unpk t (b @ rest) = Inr w" using assms by (intro unpack_pack_exact)
  ultimately have "v = w" by simp
  then show ?thesis using assms(5,6) by simp
qed

end

locale args_codec = codec pk unpk typed small
  for pk :: "'v \<Rightarrow> 'e + 'b list" and unpk :: "'t \<Rightarrow> 'b list \<Rightarrow> 'e + 'v"
    and typed :: "'v \<Rightarrow> 't \<Rightarrow> bool" and small :: "'v \<Rightarrow> bool" +
  fixes tup :: "'v list \<Rightarrow> 'v" and ttup :: "'t list \<Rightarrow> 't" and dflt :: "'t \<Rightarrow> 'v" and plain :: "'t list \<Rightarrow> bool"
  assumes typed_tuple: "typed v (ttup ts) \<longleftrightarrow> (\<exists>vs. v = tup vs \<and> list_all2 typed vs ts)"
    and small_tuple: "small (tup vs) \<longleftrightarrow> length vs < 2 ^ 32 \<and> (\<forall>v \<in> set vs. small v)"
    and tuple_inject: "tup vs = tup ws \<longleftrightarrow> vs = ws"
    and unpack_surplus: "plain ts \<Longrightarrow> list_all2 typed vs ts \<Longrightarrow> small (tup (vs @ ws)) \<Longrightarrow>
      pk (tup (vs @ ws)) = Inr b \<Longrightarrow> unpk (ttup ts) b = Inr (tup vs)"
    and unpack_missing: "plain (ts @ us) \<Longrightarrow> list_all2 typed vs ts \<Longrightarrow> small (tup vs) \<Longrightarrow>
      pk (tup vs) = Inr b \<Longrightarrow> unpk (ttup (ts @ us)) b = Inr (tup (vs @ map dflt us))"
begin

lemma unpack_args:
  assumes "list_all2 typed vs ts" "small (tup vs)"
  shows "\<exists>b. pk (tup vs) = Inr b \<and> unpk (ttup ts) b = Inr (tup vs)"
  using pack_total [OF assms(2)] unpack_pack_exact [of "tup vs" "ttup ts"] assms typed_tuple by blast

text \<open>A receiver that knows only the head of a tuple reads the head the sender wrote.\<close>

lemma unpack_head:
  assumes "typed v t" "small (tup (v # vs))" "pk (tup (v # vs)) = Inr b" "plain [t]"
  shows "unpk (ttup [t]) b = Inr (tup [v])"
  using unpack_surplus [of "[t]" "[v]" vs b] assms by simp

lemma small_tuple_nil: "small (tup [])"
  by (simp add: small_tuple)

end

section \<open>The code's codec provides it\<close>

lemma codec_unpack_obj:
  assumes "fits v" "pack_value v = Inr b"
  shows "codec_unpack t (b @ rest) =
    (case as_value t (obj_of v) of
       Inl e \<Rightarrow> Inl (if e = undefined_behaviour then undefined_behaviour else args_not_match) | Inr w \<Rightarrow> Inr w)"
proof -
  have "b = pack_obj (obj_of v)" using assms by (simp add: pack_value_obj)
  then show ?thesis using unpack_pack_obj(2) [OF wf_obj_of [OF assms(1)]] by (simp add: codec_unpack_def)
qed

lemma has_type_tuple: "has_type v (T_tuple ts) \<longleftrightarrow> (\<exists>vs. v = V_tuple vs \<and> list_all2 has_type vs ts)"
  by (cases v) auto

lemma pack_value_nonempty: "pack_value v = Inr b \<Longrightarrow> b \<noteq> []"
  by (cases v) (auto simp: append_res_def pack_string_def pack_wstring_def pack_true_def pack_false_def pack_int_obj pack_obj_nonempty
      pack_unsigned_long_def pack_imp_uint64_def pack_array_def pack_str_def split: sum.splits if_splits
      simp del: obj_of.simps)

text \<open>Argument lists of types without wide strings.\<close>

definition plain_args :: "cty list \<Rightarrow> bool" where
  "plain_args ts \<longleftrightarrow> \<not> list_ex has_as ts"

lemma codec_surplus:
  assumes "plain_args ts" "list_all2 has_type vs ts" "fits (V_tuple (vs @ ws))" "pack_value (V_tuple (vs @ ws)) = Inr b"
  shows "codec_unpack (T_tuple ts) b = Inr (V_tuple vs)"
proof -
  have "list_all2 (\<lambda>v t. convert_value t (obj_of v) = Inr v) vs ts"
    using assms(2) by (auto simp: list_all2_conv_all_nth convert_value_obj_of)
  then have "as_value (T_tuple ts) (obj_of (V_tuple (vs @ ws))) = Inr (V_tuple vs)"
    using assms(1) by (simp add: plain_args_def as_value_tuple convert_elements_all)
  then show ?thesis using codec_unpack_obj [OF assms(3,4), of _ "[]"] by simp
qed

lemma codec_missing:
  assumes "plain_args (ts @ us)" "list_all2 has_type vs ts" "fits (V_tuple vs)" "pack_value (V_tuple vs) = Inr b"
  shows "codec_unpack (T_tuple (ts @ us)) b = Inr (V_tuple (vs @ map default_value us))"
proof -
  have "as_value (T_tuple (ts @ us)) (obj_of (V_tuple vs)) = Inr (V_tuple (vs @ map default_value us))"
    using convert_elements_missing [OF assms(2)] assms(1) unfolding plain_args_def by (simp add: as_value_tuple)
  then show ?thesis using codec_unpack_obj [OF assms(3,4), of _ "[]"] by simp
qed

interpretation mp: args_codec pack_value codec_unpack has_type fits V_tuple T_tuple default_value plain_args
proof unfold_locales
  show "has_type v t \<Longrightarrow> fits v \<Longrightarrow> pack_value v = Inr b \<Longrightarrow> codec_unpack t (b @ rest) = Inr v" for v t b rest
    by (simp add: codec_unpack_obj as_value_obj_of)
  show "codec_unpack t b = Inr v \<Longrightarrow> has_type v t" for t b v
    by (auto simp: codec_unpack_def as_value_type split: sum.splits)
  show "has_type v (T_tuple ts) \<longleftrightarrow> (\<exists>vs. v = V_tuple vs \<and> list_all2 has_type vs ts)" for v ts
    by (rule has_type_tuple)
qed (auto simp: pack_value_obj pack_value_nonempty intro: codec_surplus codec_missing)

section \<open>What the codec guarantees\<close>

lemma codec_unpack_fails:
  "codec_unpack t data = Inl e \<Longrightarrow> e = args_not_match \<or> e = undefined_behaviour \<and> \<not> defined_type t"
  by (auto simp: codec_unpack_def type_error_def dest: as_value_fails split: sum.splits if_splits)

text \<open>The tuples the library itself unpacks have no wide strings: there only \<open>invalid_argument\<close> is to be caught.\<close>

lemma library_tuples_defined:
  "defined_type (T_tuple [T_string, T_string])" "defined_type (T_tuple [T_int, T_string, T_string])"
  "defined_type (T_tuple [T_int])" "defined_type (T_tuple [T_int, T_string])"
  by simp_all

text \<open>C25. Whatever bytes arrive, \<open>unpack<T>\<close> yields a value of the requested type or throws the one
  \<open>invalid_argument\<close>, and no other exception of the MessagePack layer escapes, for every type that has
  no \<open>std::wstring\<close> as element of a tuple and is not a struct with numbers. For the other types there is
  undefined behaviour as a third outcome: for a short array, where a tuple with a wide string is read
  in front of its elements, and where the numbers of a struct are returned without ever being set.\<close>

theorem codec_unpack_safe:
  "(case codec_unpack t data of
      Inr v \<Rightarrow> has_type v t
    | Inl e \<Rightarrow> e = invalid_argument (lit ''unpack failed:Args not match'') \<or> e = undefined_behaviour \<and> \<not> defined_type t) \<and>
   codec_unpack (T_tuple [T_int, T_wstring]) [0x90] = Inl undefined_behaviour \<and>
   codec_unpack (T_struct [T_int]) [0x90] = Inl undefined_behaviour"
proof (intro conjI)
  show "case codec_unpack t data of
      Inr v \<Rightarrow> has_type v t
    | Inl e \<Rightarrow> e = invalid_argument (lit ''unpack failed:Args not match'') \<or> e = undefined_behaviour \<and> \<not> defined_type t"
    using mp.unpack_typed [of t data] codec_unpack_fails [of t data] by (auto simp: args_not_match_def split: sum.split)
  have pack: "pack_value (V_tuple []) = Inr [0x90]" by (simp add: append_res_def pack_array_def)
  note unpack = codec_unpack_obj [OF _ pack, of _ "[]", simplified]
  show "codec_unpack (T_tuple [T_int, T_wstring]) [0x90] = Inl undefined_behaviour"
    "codec_unpack (T_struct [T_int]) [0x90] = Inl undefined_behaviour"
    by (simp_all add: unpack as_value_def returned_def)
qed

text \<open>C24. Any well-typed argument list survives \<open>pack_args\<close> and \<open>unpack\<close>, whatever bytes
  follow it in the buffer.\<close>

theorem codec_args_roundtrip:
  "list_all2 has_type vs ts \<Longrightarrow> length vs < 2 ^ 32 \<Longrightarrow> \<forall>v \<in> set vs. fits v \<Longrightarrow>
   \<exists>b. pack_args vs = Inr b \<and> codec_unpack (T_tuple ts) (b @ rest) = Inr (V_tuple vs)"
  using mp.pack_total [of "V_tuple vs"] mp.unpack_pack [of "V_tuple vs" "T_tuple ts" _ rest]
  by (auto simp: pack_args_def)

theorem codec_args_roundtrip_witness:
  "\<exists>b. pack_args [V_int 3, V_string (lit ''abc''), V_struct [V_bool True, V_size_t (2 ^ 40)]] = Inr b \<and>
     codec_unpack (T_tuple [T_int, T_string, T_struct [T_bool, T_size_t]]) (b @ [7])
       = Inr (V_tuple [V_int 3, V_string (lit ''abc''), V_struct [V_bool True, V_size_t (2 ^ 40)]])"
  by (rule codec_args_roundtrip) simp_all

text \<open>The argument count is not checked: without wide strings among the parameters, a call with too few
  arguments reaches the function with the missing ones at their default value, a call with too many has
  the surplus dropped.\<close>

theorem argument_count_unchecked:
  "plain_args (ts @ us) \<Longrightarrow> list_all2 has_type vs ts \<Longrightarrow> fits (V_tuple (vs @ ws)) \<Longrightarrow>
   (\<exists>b. pack_args (vs @ ws) = Inr b \<and> codec_unpack (T_tuple ts) b = Inr (V_tuple vs)) \<and>
   (\<exists>b. pack_args vs = Inr b \<and>
     codec_unpack (T_tuple (ts @ us)) b = Inr (V_tuple (vs @ map default_value us)))"
  using mp.pack_total [of "V_tuple (vs @ ws)"] mp.pack_total [of "V_tuple vs"]
    mp.unpack_surplus [of ts vs ws] mp.unpack_missing [of ts us vs]
  by (auto simp: pack_args_def plain_args_def)

theorem argument_count_unchecked_witness:
  "(\<exists>b. pack_args [V_int 1, V_int 2, V_int 3] = Inr b \<and>
      codec_unpack (T_tuple [T_int, T_int]) b = Inr (V_tuple [V_int 1, V_int 2])) \<and>
   (\<exists>b. pack_args [V_int 1, V_int 2] = Inr b \<and>
      codec_unpack (T_tuple [T_int, T_int, T_string]) b = Inr (V_tuple [V_int 1, V_int 2, V_string []]))"
  using argument_count_unchecked [of "[T_int, T_int]" "[T_string]" "[V_int 1, V_int 2]" "[V_int 3]"]
  by (simp add: plain_args_def)

end
