(* ===== verification/Client_Util.thy ===== *)
theory Client_Util imports Codec begin

text \<open>
  \<open>include/rest_rpc/client_util.hpp\<close>: how a client takes a reply apart. A reply is the packed
  tuple of a result code and, for \<open>OK\<close>, the value, for \<open>FAIL\<close> the message. A missing second
  element reads as a default value, because \<open>unpack\<close> accepts short tuples, or is undefined behaviour when
  it has a wide string.
\<close>

section \<open>The functions\<close>

text \<open>\<open>std::get<i>(tp)\<close> of an unpacked tuple.\<close>

fun tuple_get :: "nat \<Rightarrow> cval \<Rightarrow> cval" where
  "tuple_get i (V_tuple vs) = vs ! i"
| "tuple_get i v = v"

fun string_of :: "cval \<Rightarrow> bytes" where
  "string_of (V_string s) = s"
| "string_of _ = []"

definition has_error :: "bytes \<Rightarrow> bool res" where
  "has_error result =
     (if result = [] then Inr True
      else case codec_unpack (T_tuple [T_int]) result of
        Inl e \<Rightarrow> Inl e
      | Inr tp \<Rightarrow> Inr (tuple_get 0 tp \<noteq> V_int 0))"

definition get_result :: "cty \<Rightarrow> bytes \<Rightarrow> cval res" where
  "get_result t result =
     (case codec_unpack (T_tuple [T_int, t]) result of
        Inl e \<Rightarrow> Inl e
      | Inr tp \<Rightarrow> Inr (tuple_get 1 tp))"

definition get_error_msg :: "bytes \<Rightarrow> bytes res" where
  "get_error_msg result =
     (case codec_unpack (T_tuple [T_int, T_string]) result of
        Inl e \<Rightarrow> Inl e
      | Inr tp \<Rightarrow> Inr (string_of (tuple_get 1 tp)))"

definition as_result :: "cty \<Rightarrow> bytes \<Rightarrow> cval res" where
  "as_result t result =
     (case has_error result of
        Inl e \<Rightarrow> Inl e
      | Inr True \<Rightarrow> (case get_error_msg result of Inl e \<Rightarrow> Inl e | Inr msg \<Rightarrow> Inl (logic_error msg))
      | Inr False \<Rightarrow> get_result t result)"

section \<open>Replies\<close>

lemma reply_ok_bytes:
  assumes "has_type v t" "fits v"
  obtains b where "pack_args_str RC_OK [v] = Inr b" "b \<noteq> []"
    "codec_unpack (T_tuple [T_int]) b = Inr (V_tuple [V_int 0])"
    "codec_unpack (T_tuple [T_int, t]) b = Inr (V_tuple [V_int 0, v])"
proof -
  have small: "fits (V_tuple [V_int 0, v])" using assms(2) by simp
  then obtain b where b: "pack_value (V_tuple [V_int 0, v]) = Inr b" using mp.pack_total by blast
  show thesis
  proof
    show "pack_args_str RC_OK [v] = Inr b" using b by (simp add: pack_args_str_def)
    show "b \<noteq> []" using b by (rule mp.pack_nonempty)
    show "codec_unpack (T_tuple [T_int]) b = Inr (V_tuple [V_int 0])"
      by (rule mp.unpack_head [OF _ small b]) (simp_all add: plain_args_def)
    show "codec_unpack (T_tuple [T_int, t]) b = Inr (V_tuple [V_int 0, v])"
      using assms(1) by (intro mp.unpack_pack_exact [OF _ small b]) simp
  qed
qed

lemma reply_fail_bytes:
  assumes "length msg < 2 ^ 32"
  obtains b where "pack_args_str RC_FAIL [V_string msg] = Inr b" "b \<noteq> []"
    "codec_unpack (T_tuple [T_int]) b = Inr (V_tuple [V_int 1])"
    "codec_unpack (T_tuple [T_int, T_string]) b = Inr (V_tuple [V_int 1, V_string msg])"
proof -
  have small: "fits (V_tuple [V_int 1, V_string msg])" using assms by simp
  then obtain b where b: "pack_value (V_tuple [V_int 1, V_string msg]) = Inr b" using mp.pack_total by blast
  show thesis
  proof
    show "pack_args_str RC_FAIL [V_string msg] = Inr b" using b by (simp add: pack_args_str_def)
    show "b \<noteq> []" using b by (rule mp.pack_nonempty)
    show "codec_unpack (T_tuple [T_int]) b = Inr (V_tuple [V_int 1])"
      by (rule mp.unpack_head [OF _ small b]) (simp_all add: plain_args_def)
    show "codec_unpack (T_tuple [T_int, T_string]) b = Inr (V_tuple [V_int 1, V_string msg])"
      by (intro mp.unpack_pack_exact [OF _ small b]) simp
  qed
qed

lemma as_result_ok:
  "has_type v t \<Longrightarrow> fits v \<Longrightarrow> pack_args_str RC_OK [v] = Inr b \<Longrightarrow> as_result t b = Inr v"
  by (erule reply_ok_bytes [of v t]) (auto simp: as_result_def has_error_def get_result_def)

lemma as_result_fail:
  "length msg < 2 ^ 32 \<Longrightarrow> pack_args_str RC_FAIL [V_string msg] = Inr b \<Longrightarrow>
   as_result t b = Inl (logic_error msg)"
  by (erule reply_fail_bytes) (auto simp: as_result_def has_error_def get_error_msg_def)

text \<open>\<open>as<T>\<close> of a reply is the server's verdict: the value of an \<open>OK\<close> reply, and a
  \<open>logic_error\<close> with the server's message for a \<open>FAIL\<close> reply.\<close>

theorem as_reads_reply:
  assumes "has_type v t" "fits v" "length msg < 2 ^ 32"
  shows "(\<exists>b. pack_args_str RC_OK [v] = Inr b \<and> as_result t b = Inr v) \<and>
         (\<exists>b. pack_args_str RC_FAIL [V_string msg] = Inr b \<and> as_result t b = Inl (logic_error msg))"
  using reply_ok_bytes [OF assms(1,2)] reply_fail_bytes [OF assms(3)] as_result_ok [OF assms(1,2)]
    as_result_fail [OF assms(3)] by metis

theorem as_reads_reply_witness:
  "(\<exists>b. pack_args_str RC_OK [V_struct [V_int 1, V_string (lit ''tom''), V_int 20]] = Inr b \<and>
      as_result (T_struct [T_int, T_string, T_int]) b = Inr (V_struct [V_int 1, V_string (lit ''tom''), V_int 20])) \<and>
   (\<exists>b. pack_args_str RC_FAIL [V_string (lit ''no'')] = Inr b \<and>
      as_result (T_struct [T_int, T_string, T_int]) b = Inl (logic_error (lit ''no'')))"
  by (rule as_reads_reply) simp_all

text \<open>An empty reply is an error whose message cannot be read either: \<open>as<T>\<close> throws
  \<open>invalid_argument\<close>, not the \<open>logic_error\<close> of a failed call.\<close>

theorem as_empty_reply:
  "has_error [] = Inr True \<and>
   as_result t [] = Inl (invalid_argument (lit ''unpack failed:Args not match''))"
  by (simp add: as_result_def has_error_def get_error_msg_def codec_unpack_def msgpack_unpack_def
      parse_imp_def args_not_match_def)

end
