(* ===== verification/Router.thy ===== *)
theory Router imports Client_Util Md5_Rfc begin

text \<open>
  \<open>include/rest_rpc/router.h\<close>: the table from function ids to registered functions, and the
  dispatch of one request.

  A registered C++ function is a parameter of the model: it has the types of its arguments
  (\<open>function_traits<F>::bare_tuple_type\<close>) and, applied to the state \<open>'w\<close> of everything it may
  touch, the calling connection and the arguments, yields the new state and either an exception
  derived from \<open>std::exception\<close> or a result, \<open>None\<close> for a \<open>void\<close> function.
  \<open>'c\<close> is the type of connection references.
\<close>

section \<open>State\<close>

datatype ExecMode = sync | async

definition Async :: ExecMode where
  "Async = async"

record ('w, 'c) handler =
  hd_args :: "cty list"
  hd_call :: "'w \<Rightarrow> 'c \<Rightarrow> cval list \<Rightarrow> 'w \<times> cval option res"

record ('w, 'c, 's) member_handler =
  mh_args :: "cty list"
  mh_call :: "'s \<Rightarrow> 'w \<Rightarrow> 'c \<Rightarrow> cval list \<Rightarrow> 'w \<times> cval option res"

text \<open>
  What \<open>map_invokers_\<close> holds: a function of the connection and the request's bytes with the two
  output parameters \<open>result\<close> and \<open>model\<close>. It may throw.
\<close>

type_synonym ('w, 'c) invoker_fn = "'w \<Rightarrow> 'c \<Rightarrow> bytes \<Rightarrow> 'w \<times> (bytes \<times> ExecMode) res"

record ('w, 'c) router =
  map_invokers :: "u32 \<Rightarrow> ('w, 'c) invoker_fn option"
  key2func_name :: "u32 \<Rightarrow> bytes option"

definition empty_router :: "('w, 'c) router" where
  "empty_router = \<lparr>map_invokers = (\<lambda>_. None), key2func_name = (\<lambda>_. None)\<rparr>"

section \<open>Invoking a function\<close>

fun tuple_elements :: "cval \<Rightarrow> cval list" where
  "tuple_elements (V_tuple vs) = vs"
| "tuple_elements v = [v]"

definition call_helper :: "('w, 'c) handler \<Rightarrow> 'w \<Rightarrow> cval \<Rightarrow> 'c \<Rightarrow> 'w \<times> cval option res" where
  "call_helper f w tup ptr = hd_call f w ptr (tuple_elements tup)"

text \<open>The two overloads for \<open>void\<close> and for a result are the two cases of the inner option.\<close>

definition call :: "('w, 'c) handler \<Rightarrow> 'w \<Rightarrow> 'c \<Rightarrow> cval \<Rightarrow> 'w \<times> bytes res" where
  "call f w ptr tp =
     (case call_helper f w tp ptr of
        (w', Inl e) \<Rightarrow> (w', Inl e)
      | (w', Inr None) \<Rightarrow> (w', pack_args_str RC_OK [])
      | (w', Inr (Some r)) \<Rightarrow> (w', pack_args_str RC_OK [r]))"

definition call_member_helper ::
    "('w, 'c, 's) member_handler \<Rightarrow> 's \<Rightarrow> 'w \<Rightarrow> cval \<Rightarrow> 'c \<Rightarrow> 'w \<times> cval option res" where
  "call_member_helper f self w tup ptr = mh_call f self w ptr (tuple_elements tup)"

definition call_member :: "('w, 'c, 's) member_handler \<Rightarrow> 's \<Rightarrow> 'w \<Rightarrow> 'c \<Rightarrow> cval \<Rightarrow> 'w \<times> bytes res" where
  "call_member f self w ptr tp =
     (case call_member_helper f self w tp ptr of
        (w', Inl e) \<Rightarrow> (w', Inl e)
      | (w', Inr None) \<Rightarrow> (w', pack_args_str RC_OK [])
      | (w', Inr (Some r)) \<Rightarrow> (w', pack_args_str RC_OK [r]))"

text \<open>
  \<open>invoker::apply\<close>: \<open>exe_model\<close> starts as \<open>sync\<close> and becomes the registered mode only when the
  call went through; both \<open>catch\<close> clauses pack \<open>what()\<close>, which may itself throw. Undefined behaviour of
  \<open>unpack\<close> is no exception and goes past them.
\<close>

definition invoker_apply :: "ExecMode \<Rightarrow> ('w, 'c) handler \<Rightarrow> ('w, 'c) invoker_fn" where
  "invoker_apply model func w conn data =
     (let tp = codec_unpack (T_tuple (hd_args func)) data in
      if tp = Inl undefined_behaviour then (w, Inl undefined_behaviour)
      else case (case tp of Inl e \<Rightarrow> (w, Inl e) | Inr tp \<Rightarrow> call func w conn tp) of
        (w', Inr result) \<Rightarrow> (w', Inr (result, model))
      | (w', Inl e) \<Rightarrow>
          (w', case pack_args_str RC_FAIL [V_string (what e)] of
                 Inl e' \<Rightarrow> Inl e' | Inr result \<Rightarrow> Inr (result, sync)))"

definition invoker_apply_member ::
    "ExecMode \<Rightarrow> ('w, 'c, 's) member_handler \<Rightarrow> 's \<Rightarrow> ('w, 'c) invoker_fn" where
  "invoker_apply_member model func self w conn data =
     (let tp = codec_unpack (T_tuple (mh_args func)) data in
      if tp = Inl undefined_behaviour then (w, Inl undefined_behaviour)
      else case (case tp of Inl e \<Rightarrow> (w, Inl e) | Inr tp \<Rightarrow> call_member func self w conn tp) of
        (w', Inr result) \<Rightarrow> (w', Inr (result, model))
      | (w', Inl e) \<Rightarrow>
          (w', case pack_args_str RC_FAIL [V_string (what e)] of
                 Inl e' \<Rightarrow> Inl e' | Inr result \<Rightarrow> Inr (result, sync)))"

section \<open>The table\<close>

text \<open>
  \<open>MD5::MD5Hash32(name.data())\<close>: the memory of a \<open>std::string\<close> is its characters and a
  terminating zero. The hash exists for every name (\<open>hash_name_some\<close>).
\<close>

definition hash_name :: "bytes \<Rightarrow> u32" where
  "hash_name name = the (MD5Hash32 (name @ [0]))"

definition register_nonmember_func ::
    "ExecMode \<Rightarrow> u32 \<Rightarrow> ('w, 'c) handler \<Rightarrow> ('w, 'c) router \<Rightarrow> ('w, 'c) router" where
  "register_nonmember_func model key f r =
     r\<lparr>map_invokers := (map_invokers r)(key \<mapsto> invoker_apply model f)\<rparr>"

definition register_member_func ::
    "ExecMode \<Rightarrow> u32 \<Rightarrow> ('w, 'c, 's) member_handler \<Rightarrow> 's \<Rightarrow> ('w, 'c) router \<Rightarrow> ('w, 'c) router" where
  "register_member_func model key f self r =
     r\<lparr>map_invokers := (map_invokers r)(key \<mapsto> invoker_apply_member model f self)\<rparr>"

text \<open>\<open>unordered_map::emplace\<close>: an entry that exists stays.\<close>

definition emplace_name :: "u32 \<Rightarrow> bytes \<Rightarrow> ('w, 'c) router \<Rightarrow> ('w, 'c) router" where
  "emplace_name key name r =
     (case key2func_name r key of
        Some _ \<Rightarrow> r
      | None \<Rightarrow> r\<lparr>key2func_name := (key2func_name r)(key \<mapsto> name)\<rparr>)"

definition register_handler ::
    "ExecMode \<Rightarrow> bytes \<Rightarrow> ('w, 'c) handler \<Rightarrow> ('w, 'c) router \<Rightarrow> ('w, 'c) router" where
  "register_handler model name f r =
     register_nonmember_func model (hash_name name) f (emplace_name (hash_name name) name r)"

definition register_handler_member ::
    "ExecMode \<Rightarrow> bytes \<Rightarrow> ('w, 'c, 's) member_handler \<Rightarrow> 's \<Rightarrow> ('w, 'c) router \<Rightarrow> ('w, 'c) router" where
  "register_handler_member model name f self r =
     register_member_func model (hash_name name) f self (emplace_name (hash_name name) name r)"

definition remove_handler :: "bytes \<Rightarrow> ('w, 'c) router \<Rightarrow> ('w, 'c) router" where
  "remove_handler name r =
     r\<lparr>map_invokers := (map_invokers r)(hash_name name := None),
       key2func_name := (key2func_name r)(hash_name name := None)\<rparr>"

text \<open>\<open>std::to_string\<close> of an unsigned number.\<close>

fun to_string :: "nat \<Rightarrow> bytes" where
  "to_string n =
     (if n < 10 then [of_nat (48 + n)] else to_string (n div 10) @ [of_nat (48 + n mod 10)])"

declare to_string.simps [simp del]

definition get_name_by_key :: "('w, 'c) router \<Rightarrow> u32 \<Rightarrow> bytes" where
  "get_name_by_key r key =
     (case key2func_name r key of Some name \<Rightarrow> name | None \<Rightarrow> to_string (unat key))"

section \<open>One request\<close>

text \<open>
  \<open>route\<close>: \<open>conn\<close> is what locking the weak pointer gave, the reference with the request id the
  connection last read. The value is the new state and the call of \<open>conn_sp->response\<close>, if any:
  the request id and the result. What the \<open>catch\<close> handles are exceptions.
\<close>

definition route ::
    "('w, 'c) router \<Rightarrow> u32 \<Rightarrow> bytes \<Rightarrow> ('c \<times> u64) option \<Rightarrow> 'w \<Rightarrow> 'w \<times> (u64 \<times> bytes) option res" where
  "route r key data conn w =
     (case conn of
        None \<Rightarrow> (w, Inr None)
      | Some (c, req_id) \<Rightarrow>
          (case (case map_invokers r key of
                   None \<Rightarrow>
                     (w, map_sum id Some
                           (pack_args_str RC_FAIL [V_string (lit ''unknown function:'' @ get_name_by_key r key)]))
                 | Some invoker \<Rightarrow>
                     (case invoker w c data of
                        (w', Inl e) \<Rightarrow> (w', Inl e)
                      | (w', Inr (result, model)) \<Rightarrow>
                          (w', if model = sync
                               then (if length result \<ge> MAX_BUF_LEN
                                     then map_sum id Some (pack_args_str RC_FAIL
                                       [V_string (lit ''the response result is out of range: more than 10M '' @
                                          get_name_by_key r key)])
                                     else Inr (Some result))
                               else Inr None))) of
             (w', Inr result) \<Rightarrow> (w', Inr (map_option (Pair req_id) result))
           | (w', Inl e) \<Rightarrow>
               (w', if e = undefined_behaviour then Inl undefined_behaviour
                    else map_sum id (\<lambda>result. Some (req_id, result)) (pack_args_str RC_FAIL [V_string (what e)]))))"

section \<open>Facts the properties share\<close>

lemma scan_zero_terminated: "scan_zero (name @ [0]) \<noteq> None"
  by (induction name) auto

lemma hash_name_some: "MD5Hash32 (name @ [0]) = Some (hash_name name)"
  using scan_zero_terminated [of name]
  by (auto simp: hash_name_def MD5Hash32_def StringLength_def Hash32_def process_message_blocks)

lemma lookup_registered [simp]:
  "map_invokers (register_handler model name f r) (hash_name name) = Some (invoker_apply model f)"
  by (simp add: register_handler_def register_nonmember_func_def)

lemma emplace_invokers [simp]: "map_invokers (emplace_name key name r) = map_invokers r"
  by (simp add: emplace_name_def split: option.splits)

lemma lookup_other [simp]:
  "key \<noteq> hash_name name \<Longrightarrow> map_invokers (register_handler model name f r) key = map_invokers r key"
  by (simp add: register_handler_def register_nonmember_func_def)

lemma empty_router_lookup [simp]:
  "map_invokers empty_router key = None" "key2func_name empty_router key = None"
  by (simp_all add: empty_router_def)

lemma route_dead: "route r key data None w = (w, Inr None)"
  by (simp add: route_def)

lemma apply_result:
  assumes "codec_unpack (T_tuple (hd_args f)) data = Inr (V_tuple args)"
    "hd_call f w c args = (w', Inr (Some v))" "pack_args_str RC_OK [v] = Inr b"
  shows "invoker_apply model f w c data = (w', Inr (b, model))"
  using assms by (simp add: invoker_apply_def call_def call_helper_def)

lemma apply_void:
  assumes "codec_unpack (T_tuple (hd_args f)) data = Inr (V_tuple args)"
    "hd_call f w c args = (w', Inr None)" "pack_args_str RC_OK [] = Inr b"
  shows "invoker_apply model f w c data = (w', Inr (b, model))"
  using assms by (simp add: invoker_apply_def call_def call_helper_def)

lemma apply_throws:
  assumes "codec_unpack (T_tuple (hd_args f)) data = Inr (V_tuple args)"
    "hd_call f w c args = (w', Inl e)" "pack_args_str RC_FAIL [V_string (what e)] = Inr b"
  shows "invoker_apply model f w c data = (w', Inr (b, sync))"
  using assms by (simp add: invoker_apply_def call_def call_helper_def)

lemma apply_bad_args:
  assumes "codec_unpack (T_tuple (hd_args f)) data = Inl e" "e \<noteq> undefined_behaviour"
    "pack_args_str RC_FAIL [V_string (what e)] = Inr b"
  shows "invoker_apply model f w c data = (w, Inr (b, sync))"
  using assms by (simp add: invoker_apply_def)

lemma fail_reply:
  assumes "length msg < 2 ^ 32"
  shows "pack_args_str RC_FAIL [V_string msg] = Inr ([0x92, 0x01] @ pack_str (of_nat (length msg)) @ msg)"
proof -
  have "fits (V_tuple [V_int 1, V_string msg])" using assms by simp
  note this [THEN pack_value_obj]
  then show ?thesis using assms by (simp add: pack_args_str_def pack_array_def pack_imp_uint64_def)
qed

lemma length_pack_str: "length (pack_str n) \<le> 5"
  by (simp add: pack_str_def)

lemma length_fail_reply:
  "pack_args_str RC_FAIL [V_string msg] = Inr b \<Longrightarrow> length b \<le> length msg + 7"
proof (cases "length msg < 2 ^ 32")
  case True
  assume "pack_args_str RC_FAIL [V_string msg] = Inr b"
  then show ?thesis using length_pack_str [of "of_nat (length msg)"] by (auto simp: fail_reply [OF True])
qed (simp add: pack_args_str_def append_res_def pack_string_def checked_get_container_size_def)

lemma short_fail_reply: "length msg < 2 ^ 32 \<Longrightarrow> \<exists>b. pack_args_str RC_FAIL [V_string msg] = Inr b"
  by (simp add: fail_reply)

section \<open>Well-formed tables\<close>

text \<open>A member function on an object is a function: \<open>apply_member\<close> is \<open>apply\<close> of it.\<close>

lemma call_member_call: "call_member f self = call \<lparr>hd_args = mh_args f, hd_call = mh_call f self\<rparr>"
  by (intro ext) (simp add: call_member_def call_def call_member_helper_def call_helper_def)

lemma apply_member_apply:
  "invoker_apply_member model f self =
     invoker_apply model \<lparr>hd_args = mh_args f, hd_call = mh_call f self\<rparr>"
  by (intro ext) (simp only: invoker_apply_member_def invoker_apply_def call_member_call handler.simps)

text \<open>Every entry of the table was put there by one of the two registration functions.\<close>

definition registered :: "('w, 'c) invoker_fn \<Rightarrow> bool" where
  "registered iv \<longleftrightarrow> (\<exists>model f. iv = invoker_apply model f)"

definition wf_router :: "('w, 'c) router \<Rightarrow> bool" where
  "wf_router r \<longleftrightarrow> (\<forall>key iv. map_invokers r key = Some iv \<longrightarrow> registered iv)"

lemma wf_empty [inv_intros]: "wf_router empty_router"
  by (simp add: wf_router_def empty_router_def)

lemma wf_register [inv_intros]: "wf_router r \<Longrightarrow> wf_router (register_handler model name f r)"
  by (auto simp: wf_router_def register_handler_def register_nonmember_func_def registered_def)

lemma wf_register_member [inv_intros]:
  "wf_router r \<Longrightarrow> wf_router (register_handler_member model name f self r)"
  by (auto simp: wf_router_def register_handler_member_def register_member_func_def registered_def
      apply_member_apply)

lemma wf_remove [inv_intros]: "wf_router r \<Longrightarrow> wf_router (remove_handler name r)"
  by (auto simp: wf_router_def remove_handler_def)

text \<open>What escapes \<open>apply\<close> is only the overflow of packing an error text of 4 GB and more, and undefined
  behaviour in the arguments of a function with wide strings.\<close>

lemma apply_escapes:
  assumes "invoker_apply model f w c data = (w', Inl e)"
  shows "e = other_exception (lit ''container size overflow'') \<or>
    e = undefined_behaviour \<and> codec_unpack (T_tuple (hd_args f)) data = Inl undefined_behaviour"
  using assms unfolding invoker_apply_def Let_def
  by (auto simp: pack_args_str_def append_res_def pack_string_def checked_get_container_size_def
      split: prod.splits sum.splits if_splits)

text \<open>Tables of functions for whose parameters \<open>unpack\<close> is defined: no \<open>std::wstring\<close> parameter, and no
  parameter with a tuple that has one as element (in a struct it may stand).\<close>

definition plain_registered :: "('w, 'c) invoker_fn \<Rightarrow> bool" where
  "plain_registered iv \<longleftrightarrow> (\<exists>model f. iv = invoker_apply model f \<and> narrow (T_tuple (hd_args f)))"

definition plain_router :: "('w, 'c) router \<Rightarrow> bool" where
  "plain_router r \<longleftrightarrow> (\<forall>key iv. map_invokers r key = Some iv \<longrightarrow> plain_registered iv)"

lemma plain_wf: "plain_router r \<Longrightarrow> wf_router r"
  unfolding plain_router_def wf_router_def plain_registered_def registered_def by blast

lemma plain_empty [inv_intros]: "plain_router empty_router"
  by (simp add: plain_router_def empty_router_def)

lemma plain_register [inv_intros]:
  "plain_router r \<Longrightarrow> narrow (T_tuple (hd_args f)) \<Longrightarrow> plain_router (register_handler model name f r)"
  by (auto simp: plain_router_def register_handler_def register_nonmember_func_def plain_registered_def)

lemma plain_register_member [inv_intros]:
  assumes "plain_router r" "narrow (T_tuple (mh_args f))"
  shows "plain_router (register_handler_member model name f self r)"
proof -
  have "plain_registered (invoker_apply_member model f self)"
    unfolding plain_registered_def apply_member_apply using assms(2) by (intro exI conjI) (rule refl, simp)
  then show ?thesis using assms(1) by (simp add: plain_router_def register_handler_member_def register_member_func_def)
qed

lemma plain_remove [inv_intros]: "plain_router r \<Longrightarrow> plain_router (remove_handler name r)"
  by (auto simp: plain_router_def remove_handler_def)

lemma plain_escapes:
  assumes "plain_router r" "map_invokers r key = Some iv" "iv w c data = (w', Inl e)"
  shows "e = other_exception (lit ''container size overflow'')"
proof -
  obtain model f where "iv = invoker_apply model f" "narrow (T_tuple (hd_args f))"
    using assms(1,2) unfolding plain_router_def plain_registered_def by blast
  then have "iv = invoker_apply model f" "defined_type (T_tuple (hd_args f))" by simp_all
  then show ?thesis using apply_escapes [of model f w c data w' e] codec_unpack_fails [of "T_tuple (hd_args f)" data] assms(3)
    by (auto simp: args_not_match_def)
qed

lemma wf_router_lookup:
  "wf_router r \<Longrightarrow> map_invokers r key = Some iv \<Longrightarrow> \<exists>model f. iv = invoker_apply model f"
  by (simp add: wf_router_def registered_def)

lemma length_to_string: "n < 10 ^ k \<Longrightarrow> 0 < k \<Longrightarrow> length (to_string n) \<le> k"
proof (induction k arbitrary: n)
  case (Suc k)
  show ?case
  proof (cases "n < 10")
    case True
    then show ?thesis by (simp add: to_string.simps [of n])
  next
    case False
    then have "0 < k" using Suc.prems(1) by (cases k) auto
    moreover have "n div 10 < 10 ^ k" using Suc.prems(1) by (simp add: less_mult_imp_div_less mult.commute)
    ultimately have "length (to_string (n div 10)) \<le> k" by (intro Suc.IH)
    then show ?thesis using False by (simp add: to_string.simps [of n])
  qed
qed simp

lemma length_key_string: "length (to_string (unat (key :: u32))) \<le> 10"
  using length_to_string [of "unat key" 10] unat_u32_less [of key] by simp

lemma route_sync_ok:
  assumes "map_invokers r key = Some iv" "iv w c data = (w', Inr (b, sync))" "length b < MAX_BUF_LEN"
  shows "route r key data (Some (c, req_id)) w = (w', Inr (Some (req_id, b)))"
  using assms by (simp add: route_def)

text \<open>The id of a name is taken from the characters before its first zero byte.\<close>

lemma hash_name_cut:
  assumes "0 \<notin> set name" "8 * length name < 4294967296"
  shows "hash_name (name @ 0 # rest) = hash_name name"
  using Hash32_rfc [OF assms(2), of "0 # rest @ [0]"] Hash32_rfc [OF assms(2), of "[0]"] assms(1)
  by (simp add: hash_name_def MD5Hash32_def StringLength_terminated)

lemma route_answer:
  assumes "wf_router r" "length (get_name_by_key r key) < 10000000"
    and "route r key data (Some (c, req_id)) w = (w', res)"
  shows "(res = Inl undefined_behaviour \<and> \<not> plain_router r) \<or>
    (\<exists>answer. res = Inr answer \<and>
      (answer = None \<longleftrightarrow>
        (\<exists>iv w1 b. map_invokers r key = Some iv \<and> iv w c data = (w1, Inr (b, async)))) \<and>
      (\<forall>id b. answer = Some (id, b) \<longrightarrow> id = req_id))"
proof (cases "map_invokers r key")
  case None
  then show ?thesis using assms(2,3) by (auto simp: route_def fail_reply)
next
  case (Some iv)
  obtain model f where iv: "iv = invoker_apply model f" using wf_router_lookup [OF assms(1) Some] by blast
  obtain w1 rr where call: "iv w c data = (w1, rr)" by fastforce
  show ?thesis
  proof (cases rr)
    case (Inl e)
    show ?thesis
    proof (cases "e = undefined_behaviour")
      case True
      then have "\<not> plain_router r" using plain_escapes [OF _ Some, of w c data w1 e] call Inl by auto
      then show ?thesis using Some Inl call True assms(3) by (simp add: route_def)
    next
      case False
      then have "length (what e) < 2 ^ 32" using apply_escapes call iv Inl by (fastforce simp: what_def lit_def)
      then show ?thesis using Some Inl call False assms(3) by (auto simp: route_def fail_reply)
    qed
  next
    case (Inr bm)
    then show ?thesis using Some call assms(2,3)
      by (cases bm; cases "snd bm") (auto simp: route_def fail_reply split: if_splits)
  qed
qed

lemma route_short:
  assumes "wf_router r" "length (get_name_by_key r key) < 10000000"
    and "route r key data (Some (c, req_id)) w = (w', Inr (Some (rid, b)))"
  shows "length b < MAX_BUF_LEN"
proof (cases "map_invokers r key")
  case None
  then have "pack_args_str RC_FAIL [V_string (lit ''unknown function:'' @ get_name_by_key r key)] = Inr b"
    using assms(2,3) by (simp add: route_def fail_reply)
  then show ?thesis using assms(2) by (auto dest!: length_fail_reply simp: MAX_BUF_LEN_def)
next
  case (Some iv)
  obtain model f where iv: "iv = invoker_apply model f" using wf_router_lookup [OF assms(1) Some] by blast
  obtain w1 rr where call: "iv w c data = (w1, rr)" by fastforce
  show ?thesis
  proof (cases rr)
    case (Inl e)
    then have "e \<noteq> undefined_behaviour" using Some call assms(3) by (auto simp: route_def)
    moreover from this have e: "length (what e) = 23" using apply_escapes call iv Inl by (fastforce simp: what_def lit_def)
    ultimately have "pack_args_str RC_FAIL [V_string (what e)] = Inr b"
      using Some Inl call assms(3) by (simp add: route_def fail_reply)
    then show ?thesis using e by (auto dest!: length_fail_reply simp: MAX_BUF_LEN_def)
  next
    case (Inr bm)
    obtain result m where bm: "bm = (result, m)" by fastforce
    show ?thesis
    proof (cases "m = sync \<and> length result \<ge> MAX_BUF_LEN")
      case True
      then have "pack_args_str RC_FAIL [V_string (lit ''the response result is out of range: more than 10M '' @
          get_name_by_key r key)] = Inr b"
        using Some Inr bm call assms(2,3) by (simp add: route_def fail_reply)
      then show ?thesis using assms(2) by (auto dest!: length_fail_reply simp: MAX_BUF_LEN_def)
    next
      case False
      then show ?thesis using Some Inr bm call assms(3) by (auto simp: route_def split: if_splits)
    qed
  qed
qed

lemma pack_args_str_nonempty: "pack_args_str code vs = Inr b \<Longrightarrow> b \<noteq> []"
  unfolding pack_args_str_def by (rule mp.pack_nonempty)

lemma apply_nonempty:
  "invoker_apply model f w c data = (w', Inr (b, m)) \<Longrightarrow> b \<noteq> []"
  unfolding invoker_apply_def call_def Let_def
  by (auto dest: pack_args_str_nonempty split: prod.splits sum.splits option.splits if_splits)

lemma map_sum_Inr: "map_sum id f x = Inr y \<longleftrightarrow> (\<exists>z. x = Inr z \<and> y = f z)"
  by (cases x) auto

lemma route_nonempty:
  assumes "wf_router r" "route r key data (Some (c, req_id)) w = (w', Inr (Some (rid, b)))"
  shows "b \<noteq> []"
proof (cases "map_invokers r key")
  case None
  then show ?thesis using assms(2) by (auto simp: route_def map_sum_Inr dest: pack_args_str_nonempty split: sum.splits if_splits)
next
  case (Some iv)
  obtain model f where iv: "iv = invoker_apply model f" using wf_router_lookup [OF assms(1) Some] by blast
  then show ?thesis using assms(2) Some
    by (auto simp: route_def map_sum_Inr dest: pack_args_str_nonempty apply_nonempty split: prod.splits sum.splits if_splits)
qed

text \<open>Error messages stay short when no name has ten million characters.\<close>

definition short_names :: "('w, 'c) router \<Rightarrow> bool" where
  "short_names r \<longleftrightarrow> (\<forall>key name. key2func_name r key = Some name \<longrightarrow> length name < 10000000)"

lemma short_names_empty [inv_intros]: "short_names empty_router"
  by (simp add: short_names_def)

lemma short_names_register [inv_intros]:
  "short_names r \<Longrightarrow> length name < 10000000 \<Longrightarrow> short_names (register_handler model name f r)"
  by (auto simp: short_names_def register_handler_def register_nonmember_func_def emplace_name_def split: option.splits)

lemma short_names_register_member [inv_intros]:
  "short_names r \<Longrightarrow> length name < 10000000 \<Longrightarrow> short_names (register_handler_member model name f self r)"
  by (auto simp: short_names_def register_handler_member_def register_member_func_def emplace_name_def split: option.splits)

lemma short_name_by_key: "short_names r \<Longrightarrow> length (get_name_by_key r key) < 10000000"
  using length_key_string [of key] by (force simp: short_names_def get_name_by_key_def split: option.splits)

text \<open>What serving a request on a live connection can do.\<close>

lemma route_live:
  assumes "plain_router r" "short_names r"
  obtains w' where "route r key data (Some (c, req_id)) w = (w', Inr None)"
  | w' b where "route r key data (Some (c, req_id)) w = (w', Inr (Some (req_id, b)))" "b \<noteq> []" "length b < MAX_BUF_LEN"
proof -
  obtain w' res where call: "route r key data (Some (c, req_id)) w = (w', res)" by fastforce
  note short = short_name_by_key [OF assms(2), of key]
  note wf = plain_wf [OF assms(1)]
  from route_answer [OF wf short call] assms(1) obtain answer where "res = Inr answer"
    "\<forall>id b. answer = Some (id, b) \<longrightarrow> id = req_id" by blast
  then show thesis
    using that call route_nonempty [OF wf] route_short [OF wf short] by (cases answer) fastforce+
qed

text \<open>Serving a call of a registered synchronous function that returns.\<close>

lemma registered_answer:
  assumes "map_invokers r key = Some (invoker_apply sync f)"
    and "list_all2 has_type args (hd_args f)" "fits (V_tuple args)"
    and "hd_call f w c args = (w', Inr v)" "pack_args_str RC_OK (case v of None \<Rightarrow> [] | Some x \<Rightarrow> [x]) = Inr reply"
    and "length reply < MAX_BUF_LEN"
  shows "pack_args args = Inr request \<Longrightarrow> route r key request (Some (c, req_id)) w = (w', Inr (Some (req_id, reply)))"
    "\<exists>request. pack_args args = Inr request"
proof -
  obtain b where b: "pack_args args = Inr b" "codec_unpack (T_tuple (hd_args f)) b = Inr (V_tuple args)"
    using mp.unpack_args [OF assms(2,3)] by (auto simp: pack_args_def)
  then show "\<exists>request. pack_args args = Inr request" by blast
  show "route r key request (Some (c, req_id)) w = (w', Inr (Some (req_id, reply)))" if "pack_args args = Inr request"
    using assms b that apply_result [OF b(2)] apply_void [OF b(2)]
    by (intro route_sync_ok [OF assms(1)]) (auto split: option.splits)
qed

section \<open>Properties\<close>

text \<open>C5. A call of a registered synchronous function, with well-typed arguments, is answered once,
  under the request's id, with a reply from which the client's \<open>as<T>\<close> reads the function's
  result.\<close>

theorem route_registered_result:
  assumes "list_all2 has_type args (hd_args f)" "fits (V_tuple args)"
    and "hd_call f w c args = (w', Inr (Some v))" "has_type v t" "fits v"
    and "\<forall>b. pack_args_str RC_OK [v] = Inr b \<longrightarrow> length b < MAX_BUF_LEN"
  shows "\<exists>request reply. pack_args args = Inr request \<and>
    route (register_handler sync name f r) (hash_name name) request (Some (c, req_id)) w
      = (w', Inr (Some (req_id, reply))) \<and>
    as_result t reply = Inr v"
proof -
  obtain reply where rep: "pack_args_str RC_OK [v] = Inr reply"
    using reply_ok_bytes [OF assms(4,5)] by metis
  have answer: "pack_args_str RC_OK (case Some v of None \<Rightarrow> [] | Some x \<Rightarrow> [x]) = Inr reply" "length reply < MAX_BUF_LEN"
    using rep assms(6) by auto
  from registered_answer [OF lookup_registered assms(1-3) answer] show ?thesis
    using as_result_ok [OF assms(4,5) rep] by blast
qed

theorem route_registered_result_witness:
  "\<exists>request reply. pack_args [V_int 1, V_int 2] = Inr request \<and>
     route (register_handler sync (lit ''add'')
         \<lparr>hd_args = [T_int, T_int],
          hd_call = (\<lambda>w c vs. (w + 1, case vs of [V_int a, V_int b] \<Rightarrow> Inr (Some (V_int (a + b))) | _ \<Rightarrow> Inr None))\<rparr>
         empty_router) (hash_name (lit ''add'')) request (Some ((), 77)) (5 :: nat)
       = (6, Inr (Some (77, reply))) \<and>
     as_result T_int reply = Inr (V_int 3)"
  by (rule route_registered_result)
    (simp_all add: pack_args_str_def append_res_def pack_array_def pack_int_def pack_imp_int32_def MAX_BUF_LEN_def)

text \<open>C23. A function that throws is answered, in both execution modes, with a failure from which the
  client re-throws the exception's text as \<open>logic_error\<close>.\<close>

theorem route_registered_exception:
  assumes "list_all2 has_type args (hd_args f)" "fits (V_tuple args)"
    and "hd_call f w c args = (w', Inl e)" "length (what e) < 10000000"
  shows "\<exists>request reply. pack_args args = Inr request \<and>
    route (register_handler model name f r) (hash_name name) request (Some (c, req_id)) w
      = (w', Inr (Some (req_id, reply))) \<and>
    as_result t reply = Inl (logic_error (what e))"
proof -
  obtain request where req: "pack_args args = Inr request"
    "codec_unpack (T_tuple (hd_args f)) request = Inr (V_tuple args)"
    using mp.unpack_args [OF assms(1,2)] by (auto simp: pack_args_def)
  obtain reply where rep: "pack_args_str RC_FAIL [V_string (what e)] = Inr reply"
    using short_fail_reply [of "what e"] assms(4) by auto
  have "length reply < MAX_BUF_LEN"
    using length_fail_reply [OF rep] assms(4) by (simp add: MAX_BUF_LEN_def)
  then have "route (register_handler model name f r) (hash_name name) request (Some (c, req_id)) w
      = (w', Inr (Some (req_id, reply)))"
    using apply_throws [OF req(2) assms(3) rep] by (intro route_sync_ok [OF lookup_registered]) auto
  then show ?thesis using req(1) as_result_fail [OF _ rep] assms(4) by auto
qed

theorem route_registered_exception_witness:
  "\<exists>request reply. pack_args [] = Inr request \<and>
     route (register_handler async (lit ''f'')
         \<lparr>hd_args = [], hd_call = (\<lambda>w c vs. (w, Inl (runtime_error (lit ''boom''))))\<rparr> empty_router)
         (hash_name (lit ''f'')) request (Some ((), 1)) () = ((), Inr (Some (1, reply))) \<and>
     as_result T_int reply = Inl (logic_error (what (runtime_error (lit ''boom''))))"
  by (rule route_registered_exception) (simp_all add: what_def lit_def)

text \<open>A request for an id nobody registered is answered with the failure that names it, and
  touches no state.\<close>

theorem route_unknown:
  assumes "map_invokers r key = None" "length (get_name_by_key r key) < 10000000"
  shows "\<exists>reply. route r key data (Some (c, req_id)) w = (w, Inr (Some (req_id, reply))) \<and>
    as_result t reply = Inl (logic_error (lit ''unknown function:'' @ get_name_by_key r key))"
proof -
  let ?msg = "lit ''unknown function:'' @ get_name_by_key r key"
  have len: "length ?msg < 2 ^ 32" using assms(2) by simp
  obtain reply where rep: "pack_args_str RC_FAIL [V_string ?msg] = Inr reply"
    using short_fail_reply [OF len] by auto
  then show ?thesis using assms(1) as_result_fail [OF len rep] by (simp add: route_def)
qed

theorem route_unknown_witness:
  "\<exists>reply. route (empty_router :: (nat, unit) router) 4000 [1, 2] (Some ((), 9)) 0 = (0, Inr (Some (9, reply))) \<and>
     as_result T_string reply = Inl (logic_error (lit ''unknown function:4000''))"
proof -
  have name: "get_name_by_key (empty_router :: (nat, unit) router) 4000 = lit ''4000''"
    by (simp add: get_name_by_key_def to_string.simps lit_def of_char_def)
  show ?thesis
    using route_unknown [of "empty_router :: (nat, unit) router" 4000 "[1, 2]" "()" 9 0 T_string]
    by (simp add: name flip: lit_append)
qed

text \<open>C21. On a live connection every request gets exactly one answer from \<open>route\<close>, under its own
  id, except that a function registered as \<open>async\<close> which returns normally gets none: it answers
  itself, later. This is for tables whose names are shorter than 10 MB, and the one other outcome,
  undefined behaviour, is only there when a registered function has a wide string among its
  parameters: for such a function an empty argument list is enough.\<close>

theorem route_answers:
  assumes "wf_router r" "length (get_name_by_key r key) < 10000000"
    and "route r key data (Some (c, req_id)) w = (w', res)"
  shows "((res = Inl undefined_behaviour \<and> \<not> plain_router r) \<or>
    (\<exists>answer. res = Inr answer \<and>
      (answer = None \<longleftrightarrow>
        (\<exists>iv w1 b. map_invokers r key = Some iv \<and> iv w c data = (w1, Inr (b, async)))) \<and>
      (\<forall>id b. answer = Some (id, b) \<longrightarrow> id = req_id))) \<and>
    (map_invokers r key = Some (invoker_apply model \<lparr>hd_args = [T_wstring], hd_call = g\<rparr>) \<longrightarrow> data = [0x90] \<longrightarrow>
       res = Inl undefined_behaviour)"
proof
  show "(res = Inl undefined_behaviour \<and> \<not> plain_router r) \<or>
    (\<exists>answer. res = Inr answer \<and>
      (answer = None \<longleftrightarrow>
        (\<exists>iv w1 b. map_invokers r key = Some iv \<and> iv w c data = (w1, Inr (b, async)))) \<and>
      (\<forall>id b. answer = Some (id, b) \<longrightarrow> id = req_id))"
    using assms by (rule route_answer)
  have "pack_value (V_tuple []) = Inr [0x90]" by (simp add: append_res_def pack_array_def)
  then have "codec_unpack (T_tuple [T_wstring]) [0x90] = Inl undefined_behaviour"
    using codec_unpack_obj [of "V_tuple []" "[0x90]" "T_tuple [T_wstring]" "[]"] by (simp add: as_value_def returned_def)
  then show "map_invokers r key = Some (invoker_apply model \<lparr>hd_args = [T_wstring], hd_call = g\<rparr>) \<longrightarrow> data = [0x90] \<longrightarrow>
       res = Inl undefined_behaviour"
    using assms(3) by (auto simp: route_def invoker_apply_def Let_def)
qed

theorem route_answers_witness:
  "\<exists>answer. snd (route (register_handler async (lit ''f'') \<lparr>hd_args = [], hd_call = (\<lambda>w c vs. (w, Inr None))\<rparr> empty_router)
       3 [] (Some ((), 8)) ()) = Inr answer \<and>
    (answer = None \<longleftrightarrow> (\<exists>iv w1 b. map_invokers (register_handler async (lit ''f'')
        \<lparr>hd_args = [], hd_call = (\<lambda>w c vs. (w, Inr None))\<rparr> (empty_router :: (unit, unit) router)) 3 = Some iv \<and>
        iv () () [] = (w1, Inr (b, async)))) \<and>
    (\<forall>id b. answer = Some (id, b) \<longrightarrow> id = 8)"
proof -
  let ?r = "register_handler async (lit ''f'') \<lparr>hd_args = [], hd_call = (\<lambda>w c vs. (w, Inr None))\<rparr> (empty_router :: (unit, unit) router)"
  have "plain_router ?r" by (intro plain_register plain_empty) simp
  moreover have "length (get_name_by_key ?r 3) < 10000000"
    by (simp add: get_name_by_key_def register_handler_def register_nonmember_func_def emplace_name_def to_string.simps)
  ultimately show ?thesis
    using route_answers [OF plain_wf _ prod.collapse [symmetric], of ?r 3 "[]" "()" 8 "()"] by simp
qed

text \<open>C22. No answer of \<open>route\<close> reaches the 10 MB limit of a message body: a longer result is
  replaced by the out-of-range failure.\<close>

theorem route_answer_bounded:
  assumes "wf_router r" "length (get_name_by_key r key) < 10000000"
    and "route r key data (Some (c, req_id)) w = (w', Inr (Some (rid, b)))"
  shows "length b < MAX_BUF_LEN"
  using assms by (rule route_short)

theorem route_answer_bounded_witness:
  "\<exists>b. route (empty_router :: (nat, unit) router) 7 [] (Some ((), 1)) 0 = (0, Inr (Some (1, b))) \<and>
     length b < MAX_BUF_LEN"
proof -
  have name: "get_name_by_key (empty_router :: (nat, unit) router) 7 = lit ''7''"
    by (simp add: get_name_by_key_def to_string.simps lit_def of_char_def)
  obtain b where "route (empty_router :: (nat, unit) router) 7 [] (Some ((), 1)) 0 = (0, Inr (Some (1, b)))"
    by (simp add: route_def name fail_reply)
  then show ?thesis using route_answer_bounded [OF wf_empty, of 7 "[]" "()" 1 "0 :: nat" 0 1] name by auto
qed

text \<open>Registering a second function under an id replaces the function but keeps the first
  name: from then on the error messages name a function that is no longer there.\<close>

theorem reregistration_keeps_name:
  assumes "hash_name name2 = hash_name name1" "key2func_name r (hash_name name1) = None"
  shows "map_invokers (register_handler m2 name2 f2 (register_handler m1 name1 f1 r)) (hash_name name1)
           = Some (invoker_apply m2 f2) \<and>
         get_name_by_key (register_handler m2 name2 f2 (register_handler m1 name1 f1 r)) (hash_name name1)
           = name1"
  using assms
  by (simp add: register_handler_def register_nonmember_func_def emplace_name_def get_name_by_key_def)

theorem reregistration_keeps_name_witness:
  "get_name_by_key (register_handler sync (lit ''a'' @ [0, 98]) \<lparr>hd_args = [], hd_call = (\<lambda>w c vs. (w, Inr None))\<rparr>
      (register_handler async (lit ''a'') \<lparr>hd_args = [T_int], hd_call = (\<lambda>w c vs. (w, Inr None))\<rparr>
        (empty_router :: (unit, int) router))) (hash_name (lit ''a'')) = lit ''a''"
proof -
  have "hash_name (lit ''a'' @ [0, 98]) = hash_name (lit ''a'')"
    using hash_name_cut [of "lit ''a''" "[98]"] by (simp add: lit_def)
  then show ?thesis by (rule reregistration_keeps_name [THEN conjunct2]) simp
qed

end
