(* ===== verification/Zookeeper.thy ===== *)
theory Zookeeper imports Router begin

text \<open>
  \<open>include/rest_rpc/zookeeperclient.hpp\<close>: the wrapper of the ZooKeeper C library under which a
  server registers its address and a client looks it up. The library and the service are outside
  of src/: \<open>zk_service\<close> collects the library functions the wrapper calls, over a state \<open>'z\<close> of the
  service, and the constants of its header. How the session is started, with the watcher and its
  semaphore, is in \<open>Zk_Session\<close>.

  \<open>None\<close> stands for undefined behaviour: a buffer that overflows or is read without a terminating
  zero, and a number out of the range of \<open>int\<close> in \<open>atoi\<close>.
\<close>

record 'z zk_service =
  zk_exists :: "'z \<Rightarrow> bytes \<Rightarrow> int"
  zk_create :: "'z \<Rightarrow> bytes \<Rightarrow> bytes \<Rightarrow> int \<Rightarrow> 'z \<times> int"
  zk_get :: "'z \<Rightarrow> bytes \<Rightarrow> int \<times> bytes"
  ZOK :: int
  ZNONODE :: int
  ZOO_EPHEMERAL :: int

text \<open>The characters a \<open>const char*\<close> shows.\<close>

definition c_str :: "bytes \<Rightarrow> bytes" where
  "c_str s = takeWhile (\<lambda>c. c \<noteq> 0) s"

section \<open>Registering\<close>

definition create :: "'z zk_service \<Rightarrow> bytes \<Rightarrow> bytes \<Rightarrow> int \<Rightarrow> 'z \<Rightarrow> 'z" where
  "create svc path data state z =
     (if zk_exists svc z path = ZNONODE svc then fst (zk_create svc z path data state) else z)"

text \<open>\<open>sprintf(buffer, "%s:%d", ip.c_str(), port)\<close> into 128 bytes; the \<open>int\<close> is a word with a sign.\<close>

definition int_text :: "int \<Rightarrow> bytes" where
  "int_text i = (if i < 0 then of_char CHR ''-'' # to_string (nat (- i)) else to_string (nat i))"

definition sprintf_ip_port :: "bytes \<Rightarrow> u32 \<Rightarrow> bytes option" where
  "sprintf_ip_port ip port =
     (let s = c_str ip @ lit '':'' @ int_text (sint port) in if length s < 128 then Some s else None)"

definition create_method :: "'z zk_service \<Rightarrow> bytes \<Rightarrow> bytes \<Rightarrow> bytes \<Rightarrow> u32 \<Rightarrow> int \<Rightarrow> 'z \<Rightarrow> 'z option" where
  "create_method svc serpath methodname ip port state z =
     (case sprintf_ip_port ip port of
        None \<Rightarrow> None
      | Some ip_port \<Rightarrow> Some (create svc (c_str (serpath @ lit ''/'' @ methodname)) ip_port state z))"

text \<open>
  The constructor of \<open>rpc_server\<close> registers the service itself, as a persistent node; a client's
  \<open>connect(servername)\<close> reads it. \<open>port_\<close> is an \<open>unsigned short\<close>, printed as an \<open>int\<close>.
\<close>

definition register_service :: "'z zk_service \<Rightarrow> bytes \<Rightarrow> bytes \<Rightarrow> u16 \<Rightarrow> 'z \<Rightarrow> 'z option" where
  "register_service svc service_name ip port z =
     (case sprintf_ip_port ip (ucast port) of
        None \<Rightarrow> None
      | Some ip_port \<Rightarrow> Some (create svc (c_str (lit ''/'' @ service_name)) ip_port 0 z))"

section \<open>Looking up\<close>

definition is_digit :: "u8 \<Rightarrow> bool" where
  "is_digit c \<longleftrightarrow> 48 \<le> c \<and> c \<le> 57"

definition is_white :: "u8 \<Rightarrow> bool" where
  "is_white c \<longleftrightarrow> c = 32 \<or> (9 \<le> c \<and> c \<le> 13)"

definition digits_value :: "bytes \<Rightarrow> nat" where
  "digits_value ds = foldl (\<lambda>n d. 10 * n + (unat d - 48)) 0 ds"

definition atoi :: "bytes \<Rightarrow> int option" where
  "atoi s =
     (let t = dropWhile is_white s;
          neg = (t \<noteq> [] \<and> hd t = of_char CHR ''-'');
          u = (if t \<noteq> [] \<and> (hd t = of_char CHR ''-'' \<or> hd t = of_char CHR ''+'') then tl t else t);
          n = int (digits_value (takeWhile is_digit u));
          v = (if neg then - n else n)
      in if - 2147483648 \<le> v \<and> v \<le> 2147483647 then Some v else None)"

text \<open>
  \<open>zoo_get\<close> fills at most the 64 bytes of the zeroed buffer. Without a colon \<open>host_index\<close> is -1:
  the host is then the whole text, and the port is read from its start.
\<close>

definition get_data :: "'z zk_service \<Rightarrow> bytes \<Rightarrow> 'z \<Rightarrow> (bytes \<times> u16) option" where
  "get_data svc path z =
     (case zk_get svc z path of (flag, data) \<Rightarrow>
        if flag \<noteq> ZOK svc then Some ([], 0)
        else
          (let buffer = take 64 data @ replicate (64 - length data) 0 in
           if 0 \<notin> set buffer then None
           else
             (let name_ip_port = c_str buffer;
                  before = takeWhile (\<lambda>c. c \<noteq> of_char CHR '':'') name_ip_port;
                  has_colon = of_char CHR '':'' \<in> set name_ip_port;
                  host = (if has_colon then before else name_ip_port);
                  port_text = (if has_colon then drop (length before + 1) name_ip_port else name_ip_port)
              in map_option (\<lambda>p. (host, of_int p)) (atoi (c_str port_text)))))"

section \<open>Numbers in decimal\<close>

lemma digit_word: "d < 10 \<Longrightarrow> is_digit (of_nat (48 + d)) \<and> unat (of_nat (48 + d) :: u8) = 48 + d"
  by (simp add: is_digit_def word_le_nat_alt unat_of_nat del: of_nat_add)

lemma digits_value_append: "digits_value (xs @ [x]) = 10 * digits_value xs + (unat x - 48)"
  by (simp add: digits_value_def)

lemma to_string_digits: "(\<forall>c \<in> set (to_string n). is_digit c) \<and> digits_value (to_string n) = n"
proof (induction n rule: to_string.induct)
  case (1 n)
  show ?case
  proof (cases "n < 10")
    case True
    then show ?thesis using digit_word [of n]
      by (simp add: to_string.simps [of n] digits_value_def del: of_nat_add)
  next
    case False
    then show ?thesis using 1 digit_word [of "n mod 10"]
      by (simp add: to_string.simps [of n] digits_value_append del: of_nat_add)
  qed
qed

lemma to_string_nonempty: "to_string n \<noteq> []"
  by (simp add: to_string.simps)

lemma digit_cases: "is_digit c \<Longrightarrow> c \<noteq> 0 \<and> \<not> is_white c \<and> c \<noteq> of_char CHR ''-'' \<and> c \<noteq> of_char CHR ''+''"
  by (auto simp: is_digit_def is_white_def word_le_nat_alt unat_arith_simps)

lemma atoi_to_string:
  assumes "n < 2 ^ 31"
  shows "atoi (to_string n) = Some (int n)"
proof -
  let ?s = "to_string n"
  have ds: "\<forall>c \<in> set ?s. is_digit c" "digits_value ?s = n" using to_string_digits by blast+
  have hd: "is_digit (hd ?s)" using ds(1) to_string_nonempty [of n] by simp
  have w: "dropWhile is_white ?s = ?s" using digit_cases [OF hd] to_string_nonempty [of n]
    by (cases ?s) auto
  have t: "takeWhile is_digit ?s = ?s" using ds(1) by (simp add: takeWhile_eq_all_conv)
  show ?thesis using assms digit_cases [OF hd] ds(2) by (simp add: atoi_def w t Let_def)
qed

lemma atoi_int_text:
  assumes "- (2 ^ 31) \<le> i" "i < 2 ^ 31"
  shows "atoi (int_text i) = Some i"
proof (cases "i < 0")
  case True
  let ?s = "to_string (nat (- i))"
  have ds: "\<forall>c \<in> set ?s. is_digit c" "digits_value ?s = nat (- i)" using to_string_digits by blast+
  have t: "takeWhile is_digit ?s = ?s" using ds(1) by (simp add: takeWhile_eq_all_conv)
  show ?thesis using True assms ds(2) by (simp add: t atoi_def int_text_def is_white_def Let_def of_char_def)
next
  case False
  then show ?thesis using assms atoi_to_string [of "nat i"] by (simp add: int_text_def)
qed

lemma int_text_nonzero: "0 \<notin> set (int_text i)"
  using to_string_digits [of "nat i"] to_string_digits [of "nat (- i)"] digit_cases
  by (auto simp: int_text_def of_char_def)

section \<open>What the service promises\<close>

text \<open>
  The part of ZooKeeper's documented behaviour the lookup relies on: a \<open>zoo_create\<close> that reports
  \<open>ZOK\<close>, of a path that \<open>zoo_exists\<close> reported as missing, with the flags 0 or \<open>ZOO_EPHEMERAL\<close> (with
  \<open>ZOO_SEQUENCE\<close>, which this code never passes, the node would get another name), has made a node at
  the path. It is no longer missing, and a \<open>zoo_get\<close> that succeeds returns its data; it may also fail, as
  when the connection to the service is lost.
\<close>

definition zk_stores :: "'z zk_service \<Rightarrow> bool" where
  "zk_stores svc \<longleftrightarrow>
     (\<forall>z z' path data state. zk_exists svc z path = ZNONODE svc \<longrightarrow> state = 0 \<or> state = ZOO_EPHEMERAL svc \<longrightarrow>
        zk_create svc z path data state = (z', ZOK svc) \<longrightarrow>
        (fst (zk_get svc z' path) = ZOK svc \<longrightarrow> snd (zk_get svc z' path) = data) \<and>
        zk_exists svc z' path \<noteq> ZNONODE svc)"

text \<open>A service of one client, as a witness that the hypotheses can hold: a finite map; a sequential node
  gets a number behind its name.\<close>

definition map_service :: "(bytes \<Rightarrow> bytes option) zk_service" where
  "map_service =
     \<lparr>zk_exists = (\<lambda>z path. if z path = None then - 101 else 0),
      zk_create = (\<lambda>z path data state.
        (z((if state = 0 \<or> state = 1 then path else path @ lit ''0000000000'') \<mapsto> data), 0)),
      zk_get = (\<lambda>z path. case z path of None \<Rightarrow> (- 101, []) | Some d \<Rightarrow> (0, d)),
      ZOK = 0, ZNONODE = - 101, ZOO_EPHEMERAL = 1\<rparr>"

lemma map_service_stores: "zk_stores map_service"
  by (auto simp: zk_stores_def map_service_def)

section \<open>An address that was registered\<close>

definition plain_address :: "bytes \<Rightarrow> bool" where
  "plain_address ip \<longleftrightarrow> 0 \<notin> set ip \<and> of_char CHR '':'' \<notin> set ip"

lemma printed_address:
  assumes "plain_address ip" "length ip + length (int_text (sint port)) < 63"
  shows "sprintf_ip_port ip port = Some (ip @ of_char CHR '':'' # int_text (sint port))"
    "zk_get svc z path = (ZOK svc, ip @ of_char CHR '':'' # int_text (sint port)) \<Longrightarrow>
      get_data svc path z = Some (ip, ucast port)"
proof -
  let ?p = "int_text (sint port)" and ?colon = "of_char CHR '':'' :: u8"
  let ?s = "ip @ ?colon # ?p"
  have p: "\<forall>c \<in> set ?p. c \<noteq> 0" using int_text_nonzero [of "sint port"] by auto
  have ip: "c_str ip = ip" "c_str ?p = ?p"
    using assms p by (auto simp: c_str_def takeWhile_eq_all_conv plain_address_def)
  have len: "length ?s < 64" using assms by (simp add: plain_address_def)
  show "sprintf_ip_port ip port = Some ?s"
    using len by (simp add: sprintf_ip_port_def ip lit_def)
  have buf: "c_str (take 64 ?s @ replicate (64 - length ?s) 0) = ?s"
    using assms p len by (auto simp: c_str_def takeWhile_append takeWhile_eq_all_conv plain_address_def)
  have zero: "0 \<in> set (take 64 ?s @ replicate (64 - length ?s) 0)" using len by auto
  have colon: "takeWhile (\<lambda>c. c \<noteq> ?colon) ?s = ip"
    using assms by (auto simp: takeWhile_append plain_address_def)
  have num: "atoi ?p = Some (sint port)" using sint_ge [of port] sint_lt [of port] by (intro atoi_int_text) simp_all
  have "(of_int (sint port) :: u16) = ucast port" by (rule bit_word_eqI) (simp add: bit_simps)
  then show "get_data svc path z = Some (ip, ucast port)" if "zk_get svc z path = (ZOK svc, ?s)"
    using that num zero buf colon by (simp add: get_data_def Let_def ip)
qed

lemma get_created:
  assumes "zk_stores svc" "plain_address ip" "length ip + length (int_text (sint port)) < 63"
    and "zk_exists svc z path = ZNONODE svc" "sprintf_ip_port ip port = Some text" "state = 0 \<or> state = ZOO_EPHEMERAL svc"
    and "snd (zk_create svc z path text state) = ZOK svc"
  shows "get_data svc path (create svc path text state z) =
      Some (if fst (zk_get svc (create svc path text state z) path) = ZOK svc then (ip, ucast port) else ([], 0))"
    "zk_exists svc (create svc path text state z) path \<noteq> ZNONODE svc"
proof -
  obtain z' where z': "zk_create svc z path text state = (z', ZOK svc)" using assms(7) by (cases "zk_create svc z path text state") auto
  have created: "create svc path text state z = z'" using z' assms(4) by (simp add: create_def)
  have node: "fst (zk_get svc z' path) = ZOK svc \<longrightarrow> snd (zk_get svc z' path) = text" "zk_exists svc z' path \<noteq> ZNONODE svc"
    using assms(1,4,6) z' unfolding zk_stores_def by blast+
  have "text = ip @ of_char CHR '':'' # int_text (sint port)" using printed_address(1) [OF assms(2,3)] assms(5) by simp
  then show "get_data svc path (create svc path text state z) =
      Some (if fst (zk_get svc (create svc path text state z) path) = ZOK svc then (ip, ucast port) else ([], 0))"
    using printed_address(2) [OF assms(2,3), of svc z' path] node(1) created
    by (cases "zk_get svc z' path") (auto simp: get_data_def)
  show "zk_exists svc (create svc path text state z) path \<noteq> ZNONODE svc" using node(2) created by (simp only:) simp
qed

lemma create_existing: "zk_exists svc z path \<noteq> ZNONODE svc \<Longrightarrow> create svc path data state z = z"
  by (simp add: create_def)

section \<open>Properties\<close>

text \<open>C30. A client finds the address under which a function was registered: when the lookup is answered,
  what \<open>get_data\<close> returns is the address given to \<open>create_method\<close> and its port, cut to the 16 bits of a
  port number, and otherwise the empty address. This is for an address without colon that fits with the
  port into the 64 bytes of the lookup's buffer, if no node was there before and ZooKeeper reported that
  it created this one.\<close>

theorem address_roundtrip:
  assumes "zk_stores svc" "plain_address ip" "length ip + length (int_text (sint port)) < 63"
    and "zk_exists svc z (c_str (serpath @ lit ''/'' @ name)) = ZNONODE svc"
    and "sprintf_ip_port ip port = Some text" "state = 0 \<or> state = ZOO_EPHEMERAL svc"
    and "snd (zk_create svc z (c_str (serpath @ lit ''/'' @ name)) text state) = ZOK svc"
  shows "\<exists>z'. create_method svc serpath name ip port state z = Some z' \<and>
    get_data svc (c_str (serpath @ lit ''/'' @ name)) z' =
      Some (if fst (zk_get svc z' (c_str (serpath @ lit ''/'' @ name))) = ZOK svc then (ip, ucast port) else ([], 0))"
  using get_created(1) [OF assms] assms(5) by (simp add: create_method_def)

theorem address_roundtrip_witness:
  "\<exists>z'. create_method map_service (lit ''/FIRST_SERVER'') (lit ''add'') (lit ''127.0.0.1'') 9000 1 Map.empty = Some z' \<and>
    get_data map_service (c_str (lit ''/FIRST_SERVER'' @ lit ''/'' @ lit ''add'')) z' = Some (lit ''127.0.0.1'', 9000)"
proof -
  let ?path = "c_str (lit ''/FIRST_SERVER'' @ lit ''/'' @ lit ''add'')"
  have plain: "plain_address (lit ''127.0.0.1'')" by (simp add: plain_address_def lit_def of_char_def)
  have len: "length (lit ''127.0.0.1'') + length (int_text (sint (9000 :: u32))) < 63"
    by (simp add: int_text_def to_string.simps lit_def)
  note printed = printed_address(1) [OF plain len]
  obtain z' where z': "create_method map_service (lit ''/FIRST_SERVER'') (lit ''add'') (lit ''127.0.0.1'') 9000 1 Map.empty = Some z'"
    "get_data map_service ?path z' =
      Some (if fst (zk_get map_service z' ?path) = ZOK map_service then (lit ''127.0.0.1'', ucast (9000 :: u32)) else ([], 0))"
    using address_roundtrip [OF map_service_stores plain len _ printed, of Map.empty "lit ''/FIRST_SERVER''" "lit ''add''" 1]
    by (auto simp: map_service_def)
  moreover have "fst (zk_get map_service z' ?path) = ZOK map_service"
    using z'(1) by (auto simp: create_method_def printed create_def map_service_def)
  ultimately show ?thesis by simp
qed

text \<open>The first address of a service stays: its node is persistent and a node that exists is not
  written again, so after a restart under another address clients are sent to the old one.\<close>

theorem first_address_stays:
  assumes "zk_stores svc" "plain_address ip1" "length ip1 + length (int_text (sint (ucast port1 :: u32))) < 63"
    and "zk_exists svc z (c_str (lit ''/'' @ name)) = ZNONODE svc"
    and "sprintf_ip_port ip1 (ucast port1) = Some text" "snd (zk_create svc z (c_str (lit ''/'' @ name)) text 0) = ZOK svc"
    and "register_service svc name ip1 port1 z = Some z1" "register_service svc name ip2 port2 z1 = Some z2"
    and "fst (zk_get svc z2 (c_str (lit ''/'' @ name))) = ZOK svc"
  shows "get_data svc (c_str (lit ''/'' @ name)) z2 = Some (ip1, port1)"
proof -
  have port: "(ucast (ucast port1 :: u32) :: u16) = port1" by (rule bit_word_eqI) (simp add: bit_simps)
  have "(0 :: int) = 0 \<or> 0 = ZOO_EPHEMERAL svc" by simp
  note created = get_created [OF assms(1-5) this assms(6)]
  have "z1 = create svc (c_str (lit ''/'' @ name)) text 0 z" using assms(5,7) by (simp add: register_service_def)
  moreover from this have "z2 = z1" using assms(8) created(2) by (auto simp: register_service_def create_existing split: option.splits)
  ultimately show ?thesis using created(1) assms(9) by (simp add: port)
qed

theorem first_address_stays_witness:
  "get_data map_service (c_str (lit ''/'' @ lit ''S''))
     (the (register_service map_service (lit ''S'') (lit ''10.0.0.2'') 9001
        (the (register_service map_service (lit ''S'') (lit ''10.0.0.1'') 9000 Map.empty))))
   = Some (lit ''10.0.0.1'', 9000)"
proof -
  have plain: "plain_address (lit ''10.0.0.1'')" "plain_address (lit ''10.0.0.2'')"
    by (simp_all add: plain_address_def lit_def of_char_def)
  have len: "length (lit ''10.0.0.1'') + length (int_text (sint (ucast (9000 :: u16) :: u32))) < 63"
    "length (lit ''10.0.0.2'') + length (int_text (sint (ucast (9001 :: u16) :: u32))) < 63"
    by (simp_all add: int_text_def to_string.simps lit_def)
  note printed = printed_address(1) [OF plain(1) len(1)] printed_address(1) [OF plain(2) len(2)]
  show ?thesis
    by (rule first_address_stays [OF map_service_stores plain(1) len(1) _ printed(1), where z = Map.empty and ?ip2.0 = "lit ''10.0.0.2''" and ?port2.0 = 9001])
      (use printed in \<open>auto simp: register_service_def map_service_def create_def fun_upd_def\<close>)
qed

end
