(* ===== verification/Fifo_Writer.thy ===== *)
theory Fifo_Writer imports Rpc_Prelude begin

text \<open>
  The outgoing queue that \<open>connection.h\<close> and \<open>rpc_client.hpp\<close> share as a pattern: a message is
  appended to a deque and a write of the front is started only when the deque was empty; the
  completion handler pops the front and starts the next write. The locale states this contract;
  \<open>Connection\<close> and \<open>Rpc_Client\<close> interpret it on their own state. Its lemmas show that the
  messages reach the transport whole, in the order they were pushed, with at most one write in
  flight.
\<close>

datatype 'm fifo_op = Push 'm | Completed

fun pushed :: "'m fifo_op list \<Rightarrow> 'm list" where
  "pushed [] = []"
| "pushed (Push m # os) = m # pushed os"
| "pushed (Completed # os) = pushed os"

fun completions :: "'m fifo_op list \<Rightarrow> nat" where
  "completions [] = 0"
| "completions (Push m # os) = completions os"
| "completions (Completed # os) = Suc (completions os)"

text \<open>A write completes only after it was started: never more completions than messages.\<close>

definition legal :: "'m fifo_op list \<Rightarrow> bool" where
  "legal os \<longleftrightarrow> (\<forall>k \<le> length os. completions (take k os) \<le> length (pushed (take k os)))"

fun run_ops :: "('m \<Rightarrow> 's \<Rightarrow> 's) \<Rightarrow> ('s \<Rightarrow> 's) \<Rightarrow> 'm fifo_op list \<Rightarrow> 's \<Rightarrow> 's" where
  "run_ops push complete [] s = s"
| "run_ops push complete (Push m # os) s = run_ops push complete os (push m s)"
| "run_ops push complete (Completed # os) s = run_ops push complete os (complete s)"

lemma pushed_append [simp]: "pushed (os @ ps) = pushed os @ pushed ps"
  by (induction os rule: pushed.induct) auto

lemma completions_append [simp]: "completions (os @ ps) = completions os + completions ps"
  by (induction os rule: completions.induct) auto

lemma run_ops_append [simp]:
  "run_ops push complete (os @ ps) s = run_ops push complete ps (run_ops push complete os s)"
  by (induction os arbitrary: s rule: pushed.induct) auto

lemma legal_snoc:
  "legal (os @ [x]) \<longleftrightarrow> legal os \<and> completions (os @ [x]) \<le> length (pushed (os @ [x]))"
proof
  assume l: "legal (os @ [x])"
  have "completions (take k os) \<le> length (pushed (take k os))" if "k \<le> length os" for k
    using l [unfolded legal_def, rule_format, of k] that by simp
  moreover have "completions (os @ [x]) \<le> length (pushed (os @ [x]))"
    using l [unfolded legal_def, rule_format, of "Suc (length os)"] by simp
  ultimately show "legal os \<and> completions (os @ [x]) \<le> length (pushed (os @ [x]))"
    by (simp add: legal_def)
next
  assume r: "legal os \<and> completions (os @ [x]) \<le> length (pushed (os @ [x]))"
  show "legal (os @ [x])"
    unfolding legal_def
  proof (intro allI impI)
    fix k assume "k \<le> length (os @ [x])"
    then consider "k \<le> length os" | "k = Suc (length os)" by fastforce
    then show "completions (take k (os @ [x])) \<le> length (pushed (take k (os @ [x])))"
      using r by cases (auto simp: legal_def)
  qed
qed

text \<open>
  The state of the writer after the messages \<open>ms\<close> were pushed and \<open>d\<close> writes completed: the rest is
  queued, and everything up to the message being written has reached the transport.
\<close>

definition fifo_state ::
    "('s \<Rightarrow> 'm list) \<Rightarrow> ('s \<Rightarrow> 'f list) \<Rightarrow> ('s \<Rightarrow> bool) \<Rightarrow> ('m \<Rightarrow> 'f) \<Rightarrow> 'm list \<Rightarrow> nat \<Rightarrow> 's \<Rightarrow> bool" where
  "fifo_state queue wire writing frame ms d s \<longleftrightarrow>
     d \<le> length ms \<and> queue s = drop d ms \<and> wire s = map frame (take (Suc d) ms) \<and>
     (writing s \<longleftrightarrow> d < length ms)"

lemma fifo_state_cong:
  "fifo_state queue wire writing frame ms d s \<Longrightarrow>
   queue s' = queue s \<Longrightarrow> wire s' = wire s \<Longrightarrow> writing s' = writing s \<Longrightarrow>
   fifo_state queue wire writing frame ms d s'"
  by (simp add: fifo_state_def)

section \<open>The contract\<close>

locale fifo_writer =
  fixes queue :: "'s \<Rightarrow> 'm list"
    and wire :: "'s \<Rightarrow> 'f list"
    and writing :: "'s \<Rightarrow> bool"
    and usable :: "'s \<Rightarrow> bool"
    and frame_of :: "'s \<Rightarrow> 'm \<Rightarrow> 'f"
    and push :: "'m \<Rightarrow> 's \<Rightarrow> 's"
    and complete :: "'s \<Rightarrow> 's"
  assumes push_queue: "queue (push m s) = queue s @ [m]"
    and push_wire: "wire (push m s) = (if queue s = [] then wire s @ [frame_of s m] else wire s)"
    and push_writing: "writing (push m s) \<longleftrightarrow> (if queue s = [] then True else writing s)"
    and push_usable: "usable s \<Longrightarrow> usable (push m s)"
    and push_frame: "frame_of (push m s) = frame_of s"
    and complete_queue: "usable s \<Longrightarrow> queue s \<noteq> [] \<Longrightarrow> queue (complete s) = tl (queue s)"
    and complete_wire: "usable s \<Longrightarrow> queue s \<noteq> [] \<Longrightarrow>
      wire (complete s) = wire s @ map (frame_of s) (take 1 (tl (queue s)))"
    and complete_writing: "usable s \<Longrightarrow> queue s \<noteq> [] \<Longrightarrow> writing (complete s) \<longleftrightarrow> tl (queue s) \<noteq> []"
    and complete_usable: "usable s \<Longrightarrow> queue s \<noteq> [] \<Longrightarrow> usable (complete s)"
    and complete_frame: "frame_of (complete s) = frame_of s"
begin

lemma push_state:
  assumes "fifo_state queue wire writing (frame_of s) ms d s"
  shows "fifo_state queue wire writing (frame_of s) (ms @ [m]) d (push m s)"
  using assms
  by (cases "d = length ms") (auto simp: fifo_state_def push_queue push_wire push_writing)

lemma complete_state:
  assumes "fifo_state queue wire writing (frame_of s) ms d s" "usable s" "d < length ms"
  shows "fifo_state queue wire writing (frame_of s) ms (Suc d) (complete s)"
proof -
  have ne: "queue s \<noteq> []" using assms by (simp add: fifo_state_def)
  have "take (Suc d) ms @ take 1 (drop (Suc d) ms) = take (Suc (Suc d)) ms"
    unfolding take_add [symmetric] by simp
  then have "map (frame_of s) (take (Suc d) ms) @ map (frame_of s) (take 1 (drop (Suc d) ms))
      = map (frame_of s) (take (Suc (Suc d)) ms)"
    by (metis map_append)
  then show ?thesis
    using assms ne
    by (auto simp: fifo_state_def complete_queue complete_wire complete_writing tl_drop drop_Suc [symmetric])
qed

lemma run_state:
  assumes "fifo_state queue wire writing (frame_of s) [] 0 s" "usable s" "legal os"
  shows "fifo_state queue wire writing (frame_of s) (pushed os) (completions os) (run_ops push complete os s) \<and>
    usable (run_ops push complete os s) \<and> frame_of (run_ops push complete os s) = frame_of s"
  using assms(3)
proof (induction os rule: rev_induct)
  case Nil
  then show ?case using assms by simp
next
  case (snoc x os)
  note IH = snoc.IH [OF legal_snoc [THEN iffD1, OF snoc.prems, THEN conjunct1]]
  show ?case
  proof (cases x)
    case (Push m)
    then show ?thesis
      using IH push_state [of "run_ops push complete os s" "pushed os" "completions os" m]
      by (simp add: push_usable push_frame)
  next
    case Completed
    then have lt: "completions os < length (pushed os)" using snoc.prems legal_snoc [of os x] by simp
    then have "queue (run_ops push complete os s) \<noteq> []" using IH by (simp add: fifo_state_def)
    then show ?thesis
      using Completed IH lt complete_state [of "run_ops push complete os s" "pushed os" "completions os"]
      by (simp add: complete_usable complete_frame)
  qed
qed

lemma run_invariant:
  assumes "queue s = []" "wire s = []" "\<not> writing s" "usable s" "legal os"
  shows "queue (run_ops push complete os s) = drop (completions os) (pushed os) \<and>
    wire (run_ops push complete os s) = map (frame_of s) (take (Suc (completions os)) (pushed os)) \<and>
    (writing (run_ops push complete os s) \<longleftrightarrow> queue (run_ops push complete os s) \<noteq> []) \<and>
    usable (run_ops push complete os s) \<and> frame_of (run_ops push complete os s) = frame_of s"
proof -
  have "fifo_state queue wire writing (frame_of s) [] 0 s" using assms by (simp add: fifo_state_def)
  from run_state [OF this assms(4,5)] show ?thesis by (simp add: fifo_state_def not_le)
qed

lemma in_order:
  assumes "queue s = []" "wire s = []" "\<not> writing s" "usable s" "legal os"
  shows "wire (run_ops push complete os s) = map (frame_of s) (take (Suc (completions os)) (pushed os))"
  using run_invariant [OF assms] by blast

lemma all_sent:
  assumes "queue s = []" "wire s = []" "\<not> writing s" "usable s" "legal os" "completions os = length (pushed os)"
  shows "wire (run_ops push complete os s) = map (frame_of s) (pushed os)"
    "\<not> writing (run_ops push complete os s)"
  using run_invariant [OF assms(1-5)] assms(6) by simp_all

lemma never_stuck:
  assumes "queue s = []" "wire s = []" "\<not> writing s" "usable s" "legal os"
  shows "writing (run_ops push complete os s) \<longleftrightarrow> queue (run_ops push complete os s) \<noteq> []"
  using run_invariant [OF assms] by blast

end

end
