(* ===== verification/Rpc_Client.thy ===== *)
theory Rpc_Client
  imports Zookeeper Fifo_Writer "HOL-Library.AList" "HOL-Library.List_Lexorder" "HOL-Library.Product_Lexorder"
begin

unbundle bit_operations_syntax

text \<open>
  \<open>include/rest_rpc/rpc_client.hpp\<close>, without \<open>CINATRA_ENABLE_SSL\<close>: calls are numbered and queued,
  replies are matched to the waiting futures and callbacks by number, published messages to the
  subscriptions by key.

  An operation handed to asio stays in \<open>cl_pending\<close> until it completes; its completion handler is
  one of the \<open>on_...\<close> functions. The user's callbacks and the promises are seen through logs: what
  they were called with, in order. Functions yield \<open>None\<close> when the process ends (an \<open>assert\<close>, an
  exception out of a handler), otherwise the new state and either an exception for the caller or a
  value.

  The unordered maps are association lists: their order is the one in which the code would
  iterate, which C++ leaves open.
\<close>

section \<open>State\<close>

datatype asio_error =
    not_connected
  | message_size
  | connection_aborted
  | invalid_argument_ec
  | timed_out
  | transport bytes

datatype CallModel = future | callback

definition FUTURE :: CallModel where
  "FUTURE = future"

definition DEFAULT_TIMEOUT :: nat where
  "DEFAULT_TIMEOUT = 5000"

record client_message_type =
  cm_req_id :: u64
  cm_req_type :: request_type
  cm_content :: bytes
  cm_func_id :: u32

text \<open>\<open>ct_cb\<close> names the stored callback.\<close>

record call_t =
  ct_cb :: nat
  ct_timeout :: nat
  ct_has_timeout :: bool
  ct_timer_armed :: bool

datatype pending_op =
    Op_connect
  | Op_read_head
  | Op_read_body u64 request_type nat
  | Op_write
  | Op_deadline nat

text \<open>
  \<open>cl_addr_ok\<close> is asio's judgement whether \<open>host_\<close> is an address. \<open>cl_futures\<close> are the ids in
  \<open>future_map_\<close>. The logs: \<open>cl_wire\<close> the buffers written, \<open>cl_resolved\<close> the promises set,
  \<open>cl_called\<close> the callbacks called, \<open>cl_delivered\<close> the subscriptions served, \<open>cl_errors\<close> the calls
  of \<open>error_callback\<close>.
\<close>

record client =
  cl_open :: bool
  cl_has_connected :: bool
  cl_pending :: "pending_op list"
  cl_host :: bytes
  cl_port :: u16
  cl_addr_ok :: "bytes \<Rightarrow> bool"
  cl_connect_timeout :: nat
  cl_reconnect_cnt :: int
  cl_enable_reconnect :: bool
  cl_outbox :: "client_message_type list"
  cl_pad :: bytes
  cl_header :: rpc_header
  cl_write_size :: u32
  cl_body :: bytes
  cl_fu_id :: u64
  cl_callback_id :: u64
  cl_temp_req_id :: u64
  cl_futures :: "u64 list"
  cl_callback_map :: "(u64 \<times> call_t) list"
  cl_sub_map :: "(bytes \<times> nat) list"
  cl_key_token_set :: "(bytes \<times> bytes) list"
  cl_wire :: "bytes list"
  cl_resolved :: "(u64 \<times> bytes) list"
  cl_called :: "(nat \<times> asio_error option \<times> bytes) list"
  cl_delivered :: "(nat \<times> bytes) list"
  cl_errors :: "asio_error list"

type_synonym 'a act = "(client \<times> 'a res) option"

text \<open>The header in the client's memory before anything is read or sent.\<close>

definition blank_header :: rpc_header where
  "blank_header = \<lparr>h_magic = 0, h_req_type = 0, h_body_len = 0, h_req_id = 0, h_func_id = 0\<rparr>"

definition new_client :: "bytes \<Rightarrow> u16 \<Rightarrow> (bytes \<Rightarrow> bool) \<Rightarrow> bytes \<Rightarrow> rpc_header \<Rightarrow> client" where
  "new_client host port addr_ok pad some_header =
     \<lparr>cl_open = False, cl_has_connected = False, cl_pending = [], cl_host = host, cl_port = port,
      cl_addr_ok = addr_ok, cl_connect_timeout = 1000, cl_reconnect_cnt = - 1,
      cl_enable_reconnect = False, cl_outbox = [], cl_pad = pad, cl_header = some_header,
      cl_write_size = 0, cl_body = replicate INIT_BUF_SIZE 0, cl_fu_id = 0, cl_callback_id = 0,
      cl_temp_req_id = 0, cl_futures = [], cl_callback_map = [], cl_sub_map = [],
      cl_key_token_set = [], cl_wire = [], cl_resolved = [], cl_called = [], cl_delivered = [],
      cl_errors = []\<rparr>"

section \<open>Results\<close>

text \<open>\<open>req_result::success\<close>, \<open>req_result::as<T>()\<close> and \<open>req_result::as()\<close>.\<close>

definition req_success :: "bytes \<Rightarrow> bool res" where
  "req_success data = (case has_error data of Inl e \<Rightarrow> Inl e | Inr b \<Rightarrow> Inr (\<not> b))"

definition req_error :: "bytes \<Rightarrow> exn" where
  "req_error data =
     (if data = [] then logic_error []
      else case get_error_msg data of Inl e \<Rightarrow> e | Inr msg \<Rightarrow> logic_error msg)"

definition req_as :: "cty \<Rightarrow> bytes \<Rightarrow> cval res" where
  "req_as t data =
     (case has_error data of
        Inl e \<Rightarrow> Inl e
      | Inr True \<Rightarrow> Inl (req_error data)
      | Inr False \<Rightarrow> get_result t data)"

definition req_as_void :: "bytes \<Rightarrow> unit res" where
  "req_as_void data =
     (case has_error data of
        Inl e \<Rightarrow> Inl e
      | Inr True \<Rightarrow> Inl (req_error data)
      | Inr False \<Rightarrow> Inr ())"

text \<open>
  What \<open>wait_for\<close> finds in the future: the promise was set in time, the time ran out, or the
  promise was destroyed.
\<close>

datatype future_status = Fut_ready bytes | Fut_timeout | Fut_broken

definition call_result :: "cty \<Rightarrow> future_status \<Rightarrow> cval res" where
  "call_result t status =
     (case status of
        Fut_timeout \<Rightarrow> Inl (out_of_range (lit ''timeout or deferred''))
      | Fut_broken \<Rightarrow> Inl (other_exception (lit ''std::future_error: Broken promise''))
      | Fut_ready data \<Rightarrow> req_as t data)"

definition call_result_void :: "future_status \<Rightarrow> unit res" where
  "call_result_void status =
     (case status of
        Fut_timeout \<Rightarrow> Inl (out_of_range (lit ''timeout or deferred''))
      | Fut_broken \<Rightarrow> Inl (other_exception (lit ''std::future_error: Broken promise''))
      | Fut_ready data \<Rightarrow> req_as_void data)"

lemma req_as_ok:
  "has_type v t \<Longrightarrow> fits v \<Longrightarrow> pack_args_str RC_OK [v] = Inr b \<Longrightarrow> req_as t b = Inr v"
  by (erule reply_ok_bytes [of v t]) (auto simp: req_as_def has_error_def get_result_def)

lemma req_as_void_ok:
  assumes "pack_args_str RC_OK [] = Inr b"
  shows "req_as_void b = Inr ()"
proof -
  have "codec_unpack (T_tuple [T_int]) b = Inr (V_tuple [V_int 0])"
    using mp.unpack_pack_exact [of "V_tuple [V_int 0]" "T_tuple [T_int]" b] assms by (simp add: pack_args_str_def)
  moreover have "b \<noteq> []" using pack_args_str_nonempty [OF assms] .
  ultimately show ?thesis by (simp add: req_as_void_def has_error_def)
qed

section \<open>Settings and closing\<close>

definition set_connect_timeout :: "nat \<Rightarrow> client \<Rightarrow> client" where
  "set_connect_timeout ms c = c\<lparr>cl_connect_timeout := ms\<rparr>"

definition set_reconnect_count :: "int \<Rightarrow> client \<Rightarrow> client" where
  "set_reconnect_count n c = c\<lparr>cl_reconnect_cnt := n\<rparr>"

definition enable_auto_reconnect :: "bool \<Rightarrow> client \<Rightarrow> client" where
  "enable_auto_reconnect enable c = c\<lparr>cl_enable_reconnect := enable, cl_reconnect_cnt := 2147483647\<rparr>"

definition update_addr :: "bytes \<Rightarrow> u16 \<Rightarrow> client \<Rightarrow> client" where
  "update_addr host port c = c\<lparr>cl_host := host, cl_port := port\<rparr>"

definition clear_cache :: "client \<Rightarrow> client" where
  "clear_cache c = c\<lparr>cl_outbox := [], cl_callback_map := [], cl_futures := []\<rparr>"

definition close_client :: "client \<Rightarrow> client" where
  "close_client c =
     (if \<not> cl_has_connected c then c
      else clear_cache (c\<lparr>cl_has_connected := False, cl_open := False\<rparr>))"

section \<open>Writing\<close>

definition client_header :: "client_message_type \<Rightarrow> rpc_header" where
  "client_header msg =
     \<lparr>h_magic = MAGIC_NUM, h_req_type = cm_req_type msg,
      h_body_len = of_nat (length (cm_content msg)), h_req_id = cm_req_id msg,
      h_func_id = cm_func_id msg\<rparr>"

definition client_frame :: "bytes \<Rightarrow> client_message_type \<Rightarrow> bytes" where
  "client_frame pad msg =
     header_memory pad (client_header msg) @
     take (unat (of_nat (length (cm_content msg)) :: u32)) (cm_content msg)"

definition write_outbox :: "client \<Rightarrow> client" where
  "write_outbox c =
     (let msg = hd (cl_outbox c) in
      c\<lparr>cl_write_size := of_nat (length (cm_content msg)), cl_header := client_header msg,
        cl_pending := cl_pending c @ [Op_write], cl_wire := cl_wire c @ [client_frame (cl_pad c) msg]\<rparr>)"

definition enqueue_message :: "client_message_type \<Rightarrow> client \<Rightarrow> client" where
  "enqueue_message msg c =
     (let c' = c\<lparr>cl_outbox := cl_outbox c @ [msg]\<rparr> in
      if length (cl_outbox c') > 1 then c' else write_outbox c')"

definition client_write :: "u64 \<Rightarrow> request_type \<Rightarrow> bytes \<Rightarrow> u32 \<Rightarrow> client \<Rightarrow> client option" where
  "client_write req_id ty message func_id c =
     (if length message < MAX_BUF_LEN
      then Some (enqueue_message \<lparr>cm_req_id = req_id, cm_req_type = ty, cm_content = message,
                                  cm_func_id = func_id\<rparr> c)
      else None)"

section \<open>Calls and subscriptions\<close>

text \<open>\<open>async_call<FUTURE>\<close>; the value is the id of the returned \<open>future_result\<close>.\<close>

definition async_call_future :: "bytes \<Rightarrow> cval list \<Rightarrow> client \<Rightarrow> u64 act" where
  "async_call_future rpc_name args c0 =
     (let fu_id = cl_fu_id c0 + 1;
          c = c0\<lparr>cl_fu_id := fu_id, cl_futures := List.insert fu_id (cl_futures c0)\<rparr>
      in case pack_args args of
        Inl e \<Rightarrow> Some (c, Inl e)
      | Inr ret \<Rightarrow>
          map_option (\<lambda>c'. (c', Inr fu_id)) (client_write fu_id req_res ret (hash_name rpc_name) c))"

text \<open>\<open>async_call<TIMEOUT>\<close> with a callback.\<close>

definition async_call_callback :: "nat \<Rightarrow> bytes \<Rightarrow> nat \<Rightarrow> cval list \<Rightarrow> client \<Rightarrow> unit act" where
  "async_call_callback timeout rpc_name cb args c0 =
     (if \<not> cl_has_connected c0
      then Some (c0\<lparr>cl_called := cl_called c0 @ [(cb, Some not_connected, lit ''not connected'')]\<rparr>, Inr ())
      else
        (let cb_id = (cl_callback_id c0 + 1) OR push_bit 63 1;
             call = \<lparr>ct_cb = cb, ct_timeout = timeout, ct_has_timeout = False,
                     ct_timer_armed = (timeout \<noteq> 0)\<rparr>;
             c = c0\<lparr>cl_callback_id := cb_id,
                    cl_callback_map :=
                      (if map_of (cl_callback_map c0) cb_id = None
                       then (cb_id, call) # cl_callback_map c0 else cl_callback_map c0)\<rparr>
         in case pack_args args of
           Inl e \<Rightarrow> Some (c, Inl e)
         | Inr ret \<Rightarrow>
             map_option (\<lambda>c'. (c', Inr ())) (client_write cb_id req_res ret (hash_name rpc_name) c)))"

definition send_subscribe :: "bytes \<Rightarrow> bytes \<Rightarrow> client \<Rightarrow> unit act" where
  "send_subscribe key token c =
     (case pack_args [V_string key, V_string token] of
        Inl e \<Rightarrow> Some (c, Inl e)
      | Inr ret \<Rightarrow> map_option (\<lambda>c'. (c', Inr ())) (client_write 0 sub_pub ret (hash_name key) c))"

text \<open>\<open>std::set::emplace\<close> on the ordered set of pairs.\<close>

definition set_emplace :: "'a::linorder \<Rightarrow> 'a list \<Rightarrow> 'a list" where
  "set_emplace x xs = (if x \<in> set xs then xs else insort x xs)"

definition subscribe_token :: "bytes \<Rightarrow> bytes \<Rightarrow> nat \<Rightarrow> client \<Rightarrow> unit act" where
  "subscribe_token key token f c =
     (if map_of (cl_sub_map c) (key @ token) \<noteq> None then Some (c, Inr ())
      else case send_subscribe key token (c\<lparr>cl_sub_map := (key @ token, f) # cl_sub_map c\<rparr>) of
        None \<Rightarrow> None
      | Some (c', Inl e) \<Rightarrow> Some (c', Inl e)
      | Some (c', Inr u) \<Rightarrow>
          Some (c'\<lparr>cl_key_token_set := set_emplace (key, token) (cl_key_token_set c')\<rparr>, Inr ()))"

definition subscribe :: "bytes \<Rightarrow> nat \<Rightarrow> client \<Rightarrow> unit act" where
  "subscribe key f c =
     (if map_of (cl_sub_map c) key \<noteq> None then Some (c, Inr ())
      else case send_subscribe key [] (c\<lparr>cl_sub_map := (key, f) # cl_sub_map c\<rparr>) of
        None \<Rightarrow> None
      | Some (c', Inl e) \<Rightarrow> Some (c', Inl e)
      | Some (c', Inr u) \<Rightarrow>
          Some (c'\<lparr>cl_key_token_set := set_emplace (key, []) (cl_key_token_set c')\<rparr>, Inr ()))"

fun resend_loop :: "(bytes \<times> bytes) list \<Rightarrow> client \<Rightarrow> unit act" where
  "resend_loop [] c = Some (c, Inr ())"
| "resend_loop ((key, token) # rest) c =
     (case send_subscribe key token c of
        None \<Rightarrow> None
      | Some (c', Inl e) \<Rightarrow> Some (c', Inl e)
      | Some (c', Inr u) \<Rightarrow> resend_loop rest c')"

definition resend_subscribe :: "client \<Rightarrow> unit act" where
  "resend_subscribe c = resend_loop (cl_key_token_set c) c"

text \<open>\<open>publish\<close> and \<open>publish_by_token\<close> start the call of the server's function of that name.\<close>

definition publish_value :: "bytes \<Rightarrow> cval \<Rightarrow> client \<Rightarrow> u64 act" where
  "publish_value key t c =
     (case codec_pack t of
        Inl e \<Rightarrow> Some (c, Inl e)
      | Inr buf \<Rightarrow> async_call_future (lit ''publish'') [V_string key, V_string [], V_string buf] c)"

definition publish_value_by_token :: "bytes \<Rightarrow> bytes \<Rightarrow> cval \<Rightarrow> client \<Rightarrow> u64 act" where
  "publish_value_by_token key token t c =
     (case codec_pack t of
        Inl e \<Rightarrow> Some (c, Inl e)
      | Inr buf \<Rightarrow>
          async_call_future (lit ''publish_by_token'') [V_string key, V_string token, V_string buf] c)"

section \<open>Connecting\<close>

text \<open>
  A port of 0 fails the assertion; \<open>from_string\<close> throws a \<open>system_error\<close> on a host that is no address.
  Asio opens the socket before it connects.
\<close>

definition bad_address :: exn where
  "bad_address = other_exception (lit ''Invalid argument'')"

definition async_connect :: "client \<Rightarrow> unit act" where
  "async_connect c =
     (if cl_port c = 0 then None
      else if \<not> cl_addr_ok c (cl_host c) then Some (c, Inl bad_address)
      else Some (c\<lparr>cl_open := True, cl_pending := cl_pending c @ [Op_connect]\<rparr>, Inr ()))"

definition async_connect_to :: "bytes \<Rightarrow> u16 \<Rightarrow> client \<Rightarrow> unit act" where
  "async_connect_to host port c =
     async_connect (if cl_port c = 0 then c\<lparr>cl_host := host, cl_port := port\<rparr> else c)"

text \<open>An exception that leaves a handler ends the process.\<close>

definition in_handler :: "unit act \<Rightarrow> client option" where
  "in_handler r = (case r of Some (c, Inr u) \<Rightarrow> Some c | _ \<Rightarrow> None)"

text \<open>Without SSL there is no SSL stream, and upgrading to one fails its assertion.\<close>

definition is_ssl :: "client \<Rightarrow> bool" where
  "is_ssl c = False"

definition upgrade_to_ssl :: "client \<Rightarrow> client option" where
  "upgrade_to_ssl c = (if is_ssl c then Some c else None)"

text \<open>\<open>connect\<close> up to its wait: \<open>True\<close> when there was nothing to do. Its caller may catch the exception.\<close>

definition connect :: "bool \<Rightarrow> client \<Rightarrow> bool act" where
  "connect use_ssl c =
     (if cl_has_connected c then Some (c, Inr True)
      else if cl_port c = 0 then None
      else Option.bind (if use_ssl then upgrade_to_ssl c else Some c)
             (\<lambda>c'. map_option (\<lambda>(c'', r). (c'', map_sum id (\<lambda>_. False) r)) (async_connect c')))"

text \<open>
  \<open>wait_conn\<close>: \<open>c'\<close> is the client when the wait ended, which it does when the connection is up or the
  time is over.
\<close>

definition wait_conn :: "client \<Rightarrow> client \<Rightarrow> bool" where
  "wait_conn c c' = (if cl_has_connected c then True else cl_has_connected c')"

definition connect_to :: "bytes \<Rightarrow> u16 \<Rightarrow> bool \<Rightarrow> client \<Rightarrow> bool act" where
  "connect_to host port use_ssl c =
     connect use_ssl (if cl_port c = 0 then c\<lparr>cl_host := host, cl_port := port\<rparr> else c)"

text \<open>\<open>connect(servername)\<close>: the address is looked up first.\<close>

definition connect_service :: "'z zk_service \<Rightarrow> 'z \<Rightarrow> bytes \<Rightarrow> client \<Rightarrow> bool act" where
  "connect_service svc z servername c =
     (case get_data svc (c_str (lit ''/'' @ servername)) z of
        None \<Rightarrow> None
      | Some (ip, port) \<Rightarrow> connect_to ip port False c)"

text \<open>\<open>reset_socket\<close> closes the socket and opens a new one: what was pending on it still completes.\<close>

definition reset_socket :: "client \<Rightarrow> client" where
  "reset_socket c = c\<lparr>cl_open := True\<rparr>"

text \<open>It is only called in handlers.\<close>

definition async_reconnect :: "client \<Rightarrow> client option" where
  "async_reconnect c = in_handler (async_connect (reset_socket c))"

definition error_callback :: "asio_error \<Rightarrow> client \<Rightarrow> client option" where
  "error_callback ec c =
     (let c' = c\<lparr>cl_errors := cl_errors c @ [ec]\<rparr> in
      if cl_enable_reconnect c' then async_reconnect c' else Some c')"

definition do_read :: "client \<Rightarrow> client" where
  "do_read c = c\<lparr>cl_pending := cl_pending c @ [Op_read_head]\<rparr>"

definition on_connect :: "asio_error option \<Rightarrow> client \<Rightarrow> client option" where
  "on_connect ec c0 =
     (let c = c0\<lparr>cl_pending := remove1 Op_connect (cl_pending c0)\<rparr> in
      if cl_has_connected c then Some c
      else case ec of
        Some _ \<Rightarrow>
          (if cl_reconnect_cnt c \<le> 0 then Some c
           else async_reconnect (c\<lparr>cl_reconnect_cnt := cl_reconnect_cnt c - 1\<rparr>))
      | None \<Rightarrow>
          in_handler (resend_subscribe (do_read (c\<lparr>cl_has_connected := True\<rparr>))))"

section \<open>Completions of writes\<close>

definition on_client_write :: "asio_error option \<Rightarrow> client \<Rightarrow> client option" where
  "on_client_write ec c0 =
     (let c = c0\<lparr>cl_pending := remove1 Op_write (cl_pending c0)\<rparr> in
      case ec of
        Some e \<Rightarrow> error_callback e (close_client (c\<lparr>cl_has_connected := False\<rparr>))
      | None \<Rightarrow>
          (if cl_outbox c = [] then Some c
           else
             (let c' = c\<lparr>cl_outbox := tl (cl_outbox c)\<rparr> in
              if cl_outbox c' \<noteq> [] then Some (write_outbox c') else Some c')))"

section \<open>Replies\<close>

definition call_callback :: "call_t \<Rightarrow> asio_error option \<Rightarrow> bytes \<Rightarrow> client \<Rightarrow> client" where
  "call_callback cl ec data c = c\<lparr>cl_called := cl_called c @ [(ct_cb cl, ec, data)]\<rparr>"

text \<open>
  \<open>call_back\<close>: the top bit of the id tells callbacks from futures. An id that nobody waits for
  fails an assertion.
\<close>

definition call_back :: "u64 \<Rightarrow> asio_error option \<Rightarrow> bytes \<Rightarrow> client \<Rightarrow> client option" where
  "call_back req_id ec data c0 =
     (let c = c0\<lparr>cl_temp_req_id := req_id\<rparr> in
      if drop_bit 63 req_id \<noteq> 0
      then (case map_of (cl_callback_map c) req_id of
              None \<Rightarrow> None
            | Some cl \<Rightarrow>
                (let c' = (if \<not> ct_has_timeout cl then call_callback cl ec data c
                           else call_callback cl (Some timed_out) [] c)
                 in Some (c'\<lparr>cl_callback_map := AList.delete req_id (cl_callback_map c')\<rparr>)))
      else if req_id \<notin> set (cl_futures c) then None
      else Some (c\<lparr>cl_resolved := cl_resolved c @ [(req_id, if ec \<noteq> None then [] else data)],
                   cl_futures := remove1 req_id (cl_futures c)\<rparr>))"

definition callback_sub :: "bytes \<Rightarrow> client \<Rightarrow> client option" where
  "callback_sub result c =
     (case codec_unpack (T_tuple [T_int, T_string, T_string]) result of
        Inl e \<Rightarrow> error_callback invalid_argument_ec c
      | Inr tp \<Rightarrow>
          (case map_of (cl_sub_map c) (string_of (tuple_get 1 tp)) of
             None \<Rightarrow> Some c
           | Some f \<Rightarrow> Some (c\<lparr>cl_delivered := cl_delivered c @ [(f, string_of (tuple_get 2 tp))]\<rparr>)))"

text \<open>The timer of a call with a callback; it is the only place that sets \<open>has_timeout_\<close>.\<close>

definition on_call_timer :: "u64 \<Rightarrow> client \<Rightarrow> client" where
  "on_call_timer req_id c =
     c\<lparr>cl_callback_map :=
         map (\<lambda>(i, cl). if i = req_id then (i, cl\<lparr>ct_has_timeout := True, ct_timer_armed := False\<rparr>) else (i, cl))
           (cl_callback_map c)\<rparr>"

section \<open>Completions of reads\<close>

definition resize_client_body :: "nat \<Rightarrow> bytes \<Rightarrow> bytes" where
  "resize_client_body n body = (if length body < n then body @ replicate (n - length body) 0 else body)"

definition call_all :: "asio_error \<Rightarrow> client \<Rightarrow> client" where
  "call_all ec c =
     c\<lparr>cl_called := cl_called c @ map (\<lambda>(i, cl). (ct_cb cl, Some ec, [])) (cl_callback_map c)\<rparr>"

definition on_client_head :: "asio_error + bytes \<Rightarrow> client \<Rightarrow> client option" where
  "on_client_head r c0 =
     (let c = c0\<lparr>cl_pending := remove1 Op_read_head (cl_pending c0)\<rparr> in
      if \<not> cl_open c then Some (c\<lparr>cl_has_connected := False\<rparr>)
      else case r of
        Inr head \<Rightarrow>
          (let header = header_of_memory head;
               body_len = unat (h_body_len header) in
           if 0 < body_len \<and> body_len < MAX_BUF_LEN
           then Some (c\<lparr>cl_body := resize_client_body body_len (cl_body c),
                        cl_pending := cl_pending c @ [Op_read_body (h_req_id header) (h_req_type header) body_len]\<rparr>)
           else if body_len = 0 \<or> body_len > MAX_BUF_LEN
           then error_callback message_size (close_client c)
           else Some c)
      | Inl ec \<Rightarrow> error_callback ec (close_client (call_all ec c)))"

definition on_client_body ::
    "u64 \<Rightarrow> request_type \<Rightarrow> nat \<Rightarrow> asio_error + bytes \<Rightarrow> client \<Rightarrow> client option" where
  "on_client_body req_id ty body_len r c0 =
     (let c = c0\<lparr>cl_pending := remove1 (Op_read_body req_id ty body_len) (cl_pending c0)\<rparr> in
      if \<not> cl_open c then call_back req_id (Some connection_aborted) [] c
      else case r of
        Inr data \<Rightarrow>
          (let c = c\<lparr>cl_body := data @ drop (length data) (cl_body c)\<rparr>;
               reply = take body_len (cl_body c) in
           if ty = req_res then map_option do_read (call_back req_id None reply c)
           else if ty = sub_pub then map_option do_read (callback_sub reply c)
           else error_callback invalid_argument_ec (close_client c))
      | Inl ec \<Rightarrow>
          (case call_back req_id (Some ec) [] (c\<lparr>cl_has_connected := False\<rparr>) of
             None \<Rightarrow> None
           | Some c' \<Rightarrow> error_callback ec (close_client c')))"

section \<open>Heartbeat\<close>

text \<open>
  Re-arming a timer cancels its waits, whose handlers then run with an error; \<open>Op_deadline\<close> is one
  wait. The handler re-arms the timer whatever happened.
\<close>

definition reset_deadline_timer :: "nat \<Rightarrow> client \<Rightarrow> client" where
  "reset_deadline_timer timeout c = c\<lparr>cl_pending := cl_pending c @ [Op_deadline timeout]\<rparr>"

definition on_deadline :: "nat \<Rightarrow> bool \<Rightarrow> client \<Rightarrow> client option" where
  "on_deadline timeout failed c0 =
     (let c = c0\<lparr>cl_pending := remove1 (Op_deadline timeout) (cl_pending c0)\<rparr> in
      map_option (reset_deadline_timer timeout)
        (if \<not> failed \<and> cl_has_connected c then client_write 0 req_res [] 0 c else Some c))"

text \<open>
  \<open>enable_auto_heartbeat(false)\<close> cancels the waits: they stay pending until their handlers run.
\<close>

definition enable_auto_heartbeat :: "bool \<Rightarrow> client \<Rightarrow> client" where
  "enable_auto_heartbeat enable c = (if enable then reset_deadline_timer 5 c else c)"

section \<open>What can happen to a client\<close>

text \<open>The handlers, with what their operation completed with, and what each does.\<close>

datatype completion =
    Connected "asio_error option"
  | Written "asio_error option"
  | Head_done "asio_error + bytes"
  | Body_done u64 request_type nat "asio_error + bytes"
  | Deadline_done nat bool
  | Call_timer u64

fun run_handler :: "completion \<Rightarrow> client \<Rightarrow> client option" where
  "run_handler (Connected ec) c = on_connect ec c"
| "run_handler (Written ec) c = on_client_write ec c"
| "run_handler (Head_done r) c = on_client_head r c"
| "run_handler (Body_done i ty n r) c = on_client_body i ty n r c"
| "run_handler (Deadline_done timeout failed) c = on_deadline timeout failed c"
| "run_handler (Call_timer i) c = Some (on_call_timer i c)"

text \<open>The operation was begun; what was read has the length that was asked for.\<close>

fun can_complete :: "client \<Rightarrow> completion \<Rightarrow> bool" where
  "can_complete c (Connected ec) \<longleftrightarrow> Op_connect \<in> set (cl_pending c)"
| "can_complete c (Written ec) \<longleftrightarrow> Op_write \<in> set (cl_pending c)"
| "can_complete c (Head_done r) \<longleftrightarrow>
     Op_read_head \<in> set (cl_pending c) \<and> (case r of Inl ec \<Rightarrow> True | Inr head \<Rightarrow> length head = HEAD_LEN)"
| "can_complete c (Body_done i ty n r) \<longleftrightarrow>
     Op_read_body i ty n \<in> set (cl_pending c) \<and> (case r of Inl ec \<Rightarrow> True | Inr data \<Rightarrow> length data = n)"
| "can_complete c (Deadline_done timeout failed) \<longleftrightarrow> Op_deadline timeout \<in> set (cl_pending c)"
| "can_complete c (Call_timer i) \<longleftrightarrow>
     (case map_of (cl_callback_map c) i of None \<Rightarrow> False | Some cl \<Rightarrow> ct_timer_armed cl)"

text \<open>A handler runs, a thread of the user calls an operation, or a callback does.\<close>

inductive client_acts :: "client \<Rightarrow> client \<Rightarrow> bool" where
  handles: "can_complete c e \<Longrightarrow> run_handler e c = Some c' \<Longrightarrow> client_acts c c'"
| calls: "async_call_future name args c = Some (c', r) \<Longrightarrow> client_acts c c'"
| calls_back: "async_call_callback timeout name cb args c = Some (c', r') \<Longrightarrow> client_acts c c'"
| subscribes: "subscribe key f c = Some (c', r') \<Longrightarrow> client_acts c c'"
| subscribes_token: "subscribe_token key token f c = Some (c', r') \<Longrightarrow> client_acts c c'"
| publishes: "publish_value key v c = Some (c', r) \<Longrightarrow> client_acts c c'"
| publishes_token: "publish_value_by_token key token v c = Some (c', r) \<Longrightarrow> client_acts c c'"
| connects: "connect_to host port use_ssl c = Some (c', b) \<Longrightarrow> client_acts c c'"
| connects_async: "async_connect_to host port c = Some (c', r') \<Longrightarrow> client_acts c c'"
| closes: "client_acts c (close_client c)"
| sets: "client_acts c (set_connect_timeout ms (set_reconnect_count n (update_addr host port c)))"
| enables: "client_acts c (enable_auto_reconnect enable (enable_auto_heartbeat beat c))"

section \<open>The outbox is a FIFO writer\<close>

definition one_write :: "client \<Rightarrow> bool" where
  "one_write c \<longleftrightarrow> count_list (cl_pending c) Op_write \<le> 1 \<and>
     (cl_outbox c = [] \<longrightarrow> Op_write \<notin> set (cl_pending c))"

definition write_done :: "client \<Rightarrow> client" where
  "write_done c = the (on_client_write None c)"

lemma count_remove1: "count_list (remove1 x xs) x = count_list xs x - 1"
  by (induction xs) auto

lemma one_write_removed: "count_list xs x \<le> 1 \<Longrightarrow> x \<notin> set (remove1 x xs)"
  by (simp add: count_list_0_iff [symmetric] count_remove1)

lemmas outbox_defs = enqueue_message_def write_outbox_def on_client_write_def write_done_def Let_def

interpretation cl: fifo_writer cl_outbox cl_wire "\<lambda>c. Op_write \<in> set (cl_pending c)" one_write
  "\<lambda>c. client_frame (cl_pad c)" enqueue_message write_done
proof unfold_locales
  show "one_write c \<Longrightarrow> one_write (enqueue_message m c)" for c m
    by (auto simp: outbox_defs one_write_def count_list_0_iff)
  fix c assume c: "one_write c" "cl_outbox c \<noteq> []"
  then have no_write: "Op_write \<notin> set (remove1 Op_write (cl_pending c))"
    using one_write_removed [of "cl_pending c" Op_write] by (simp add: one_write_def)
  show "cl_wire (write_done c) = cl_wire c @ map (client_frame (cl_pad c)) (take 1 (tl (cl_outbox c)))"
    using c by (cases "tl (cl_outbox c)") (auto simp: outbox_defs)
  show "Op_write \<in> set (cl_pending (write_done c)) \<longleftrightarrow> tl (cl_outbox c) \<noteq> []"
    using c no_write by (auto simp: outbox_defs)
  show "one_write (write_done c)"
    using c no_write by (auto simp: outbox_defs one_write_def count_list_0_iff)
qed (auto simp: outbox_defs)

section \<open>Ids\<close>

lemma callback_id_flag: "drop_bit 63 ((i + 1) OR push_bit 63 1 :: u64) \<noteq> 0"
proof -
  have "bit ((i + 1) OR push_bit 63 1 :: u64) 63" by (simp add: bit_simps)
  then have "bit (drop_bit 63 ((i + 1) OR push_bit 63 1 :: u64)) 0" by (simp add: bit_simps)
  then show ?thesis by (metis bit_0_eq bot_apply bot_bool_def)
qed

lemma future_id_flag: "unat (i :: u64) < 2 ^ 63 \<Longrightarrow> drop_bit 63 i = 0"
  by (simp add: word_unat_eq_iff unat_drop_bit_eq drop_bit_eq_div unat_div_distrib)

text \<open>
  The ids that wait: futures below the counter with the top bit clear, callbacks with the top bit
  set, each once.
\<close>

definition ids_inv :: "client \<Rightarrow> bool" where
  "ids_inv c \<longleftrightarrow>
     distinct (cl_futures c) \<and> (\<forall>i \<in> set (cl_futures c). drop_bit 63 i = 0) \<and>
     distinct (map fst (cl_callback_map c)) \<and>
     (\<forall>i \<in> fst ` set (cl_callback_map c). drop_bit 63 i \<noteq> 0)"

lemma enqueue_keeps [simp]:
  "cl_futures (enqueue_message m c) = cl_futures c"
  "cl_callback_map (enqueue_message m c) = cl_callback_map c"
  "cl_resolved (enqueue_message m c) = cl_resolved c"
  "cl_called (enqueue_message m c) = cl_called c"
  "cl_has_connected (enqueue_message m c) = cl_has_connected c"
  "cl_open (enqueue_message m c) = cl_open c"
  "cl_outbox (enqueue_message m c) = cl_outbox c @ [m]"
  by (simp_all add: outbox_defs)

lemma ids_new: "ids_inv (new_client host port ok pad h)"
  by (simp add: ids_inv_def new_client_def)

lemma ids_future [inv_intros]:
  assumes "async_call_future name args c = Some (c', r)" "ids_inv c" "unat (cl_fu_id c + 1) < 2 ^ 63"
  shows "ids_inv c'"
  using assms future_id_flag [OF assms(3)]
  by (auto simp: async_call_future_def client_write_def ids_inv_def Let_def split: sum.splits if_splits)

lemma ids_callback [inv_intros]:
  assumes "async_call_callback timeout name cb args c = Some (c', r)" "ids_inv c"
  shows "ids_inv c'"
  using assms callback_id_flag [of "cl_callback_id c"]
  by (auto simp: async_call_callback_def client_write_def ids_inv_def Let_def map_of_eq_None_iff
      split: sum.splits if_splits)

lemma fst_set_delete: "fst ` set (AList.delete k al) = fst ` set al - {k}"
  by (metis delete_keys set_map set_removeAll)

lemma ids_call_back [inv_intros]:
  assumes "call_back i ec data c = Some c'" "ids_inv c"
  shows "ids_inv c'"
proof -
  have map: "distinct (map fst (AList.delete i (cl_callback_map c)))"
    "\<forall>j \<in> fst ` set (AList.delete i (cl_callback_map c)). drop_bit 63 j \<noteq> 0"
    using assms(2) by (auto simp only: ids_inv_def fst_set_delete delete_keys distinct_removeAll)
  show ?thesis
    using assms map
    by (auto simp: call_back_def call_callback_def ids_inv_def Let_def split: option.splits if_splits)
qed

section \<open>A wedged outbox\<close>

text \<open>Messages wait and no write is in flight: nothing starts one.\<close>

definition wedged :: "client \<Rightarrow> bool" where
  "wedged c \<longleftrightarrow> cl_outbox c \<noteq> [] \<and> Op_write \<notin> set (cl_pending c)"

text \<open>What operations without a message do to the outbox, and what any does to a wedged one: it can only be
  emptied by closing a connection that is up.\<close>

definition quiet :: "client \<Rightarrow> client \<Rightarrow> bool" where
  "quiet c c' \<longleftrightarrow> cl_wire c' = cl_wire c \<and>
     (cl_outbox c' = cl_outbox c \<or> cl_outbox c' = [] \<and> cl_has_connected c) \<and>
     (cl_has_connected c' \<longrightarrow> cl_has_connected c) \<and>
     (Op_write \<in> set (cl_pending c') \<longrightarrow> Op_write \<in> set (cl_pending c))"

definition kept :: "client \<Rightarrow> client \<Rightarrow> bool" where
  "kept c c' \<longleftrightarrow> cl_wire c' = cl_wire c \<and> (\<exists>new. cl_outbox c' = cl_outbox c @ new) \<and> Op_write \<notin> set (cl_pending c')"

definition stays_wedged :: "client \<Rightarrow> client \<Rightarrow> bool" where
  "stays_wedged c c' \<longleftrightarrow> kept c c' \<or> cl_wire c' = cl_wire c \<and> cl_outbox c' = [] \<and> cl_has_connected c"

named_theorems quiet_intros \<open>operations that are quiet\<close>

lemma quiet_trans: "quiet c c1 \<Longrightarrow> quiet c1 c2 \<Longrightarrow> quiet c c2"
  by (auto simp: quiet_def)

lemma quiet_same:
  assumes "cl_wire c' = cl_wire c" "cl_outbox c' = cl_outbox c" "cl_has_connected c' \<longrightarrow> cl_has_connected c"
    "set (cl_pending c') \<subseteq> insert Op_connect (insert Op_read_head (set (cl_pending c))) \<union> {op. \<exists>i ty n. op = Op_read_body i ty n} \<union> range Op_deadline"
  shows "quiet c c'"
  using assms by (auto simp: quiet_def)

lemma quiet_close [quiet_intros]: "quiet c (close_client c)"
  by (simp add: quiet_def close_client_def clear_cache_def)

lemma quiet_async_connect: "async_connect c = Some (c', r) \<Longrightarrow> quiet c c'"
  by (auto simp: async_connect_def quiet_def split: if_splits)

lemma quiet_reconnect: "async_reconnect c = Some c' \<Longrightarrow> quiet c c'"
  using quiet_async_connect [of "reset_socket c"]
  by (auto simp: async_reconnect_def in_handler_def reset_socket_def quiet_def split: option.splits prod.splits sum.splits)

lemma quiet_error:
  assumes "error_callback ec c1 = Some c'" "quiet c c1"
  shows "quiet c c'"
proof -
  have "quiet c1 (c1\<lparr>cl_errors := cl_errors c1 @ [ec]\<rparr>)" by (rule quiet_same) auto
  then have "quiet c1 c'"
    using assms(1) quiet_reconnect [of "c1\<lparr>cl_errors := cl_errors c1 @ [ec]\<rparr>" c'] quiet_trans
    by (auto simp: error_callback_def Let_def split: if_splits)
  then show ?thesis using assms(2) by (rule quiet_trans [rotated])
qed

lemma quiet_call_back: "call_back i ec data c = Some c' \<Longrightarrow> quiet c c'"
  by (rule quiet_same) (auto simp: call_back_def call_callback_def Let_def split: if_splits option.splits)

lemma quiet_callback_sub:
  assumes "callback_sub result c = Some c'"
  shows "quiet c c'"
proof (cases "error_callback invalid_argument_ec c = Some c'")
  case True
  then show ?thesis by (rule quiet_error) (rule quiet_same; auto)
next
  case False
  then show ?thesis using assms
    by (intro quiet_same) (auto simp: callback_sub_def split: sum.splits option.splits)
qed

lemma quiet_removed: "quiet c (c\<lparr>cl_pending := remove1 op (cl_pending c)\<rparr>)"
  using set_remove1_subset by (fastforce simp: quiet_def)

lemma quiet_head:
  assumes "on_client_head r c0 = Some c'"
  shows "quiet c0 c'"
proof -
  let ?c = "c0\<lparr>cl_pending := remove1 Op_read_head (cl_pending c0)\<rparr>"
  have removed: "quiet c0 ?c" by (rule quiet_removed)
  have closing: "quiet c0 (close_client ?c)" "quiet c0 (close_client (call_all ec ?c))" for ec
  proof -
    have "quiet ?c (call_all ec ?c)" by (rule quiet_same) (auto simp: call_all_def)
    then show "quiet c0 (close_client ?c)" "quiet c0 (close_client (call_all ec ?c))"
      using removed quiet_close quiet_trans by blast+
  qed
  have other: "quiet c0 (?c\<lparr>cl_has_connected := False\<rparr>)"
    "quiet c0 (?c\<lparr>cl_body := b, cl_pending := remove1 Op_read_head (cl_pending c0) @ [Op_read_body i ty n]\<rparr>)" for b i ty n
    using removed by (auto simp: quiet_def)
  show ?thesis
    using assms closing quiet_error removed other
    by (auto simp: on_client_head_def Let_def split: if_splits sum.splits)
qed

lemma quiet_body:
  assumes "on_client_body i ty n r c0 = Some c'"
  shows "quiet c0 c'"
proof -
  let ?c = "c0\<lparr>cl_pending := remove1 (Op_read_body i ty n) (cl_pending c0)\<rparr>"
  have removed: "quiet c0 ?c" by (rule quiet_removed)
  have read: "quiet c0 (do_read c1)" if "quiet c0 c1" for c1
    using that by (auto simp: quiet_def do_read_def)
  have data: "quiet c0 (?c\<lparr>cl_body := b\<rparr>)" "quiet c0 (?c\<lparr>cl_has_connected := False\<rparr>)" for b
    using removed by (auto simp: quiet_def)
  show ?thesis
    using assms quiet_trans [OF removed quiet_call_back] quiet_trans [OF data(1) quiet_call_back]
      quiet_trans [OF data(1) quiet_callback_sub] quiet_trans [OF data(2) quiet_call_back]
      quiet_trans [OF data(1) quiet_close] quiet_trans [OF _ quiet_close] quiet_error read
    by (auto simp: on_client_body_def Let_def split: if_splits sum.splits option.splits)
qed

lemma quiet_stays: "wedged c \<Longrightarrow> quiet c c' \<Longrightarrow> stays_wedged c c'"
  by (auto simp: wedged_def quiet_def stays_wedged_def kept_def)

lemma kept_stays: "kept c c' \<Longrightarrow> stays_wedged c c'"
  by (simp add: stays_wedged_def)

lemma kept_trans: "kept c c1 \<Longrightarrow> kept c1 c2 \<Longrightarrow> kept c c2"
  by (auto simp: kept_def)

lemma kept_wedged: "wedged c \<Longrightarrow> kept c c' \<Longrightarrow> wedged c'"
  by (auto simp: wedged_def kept_def)

lemma kept_same:
  "wedged c \<Longrightarrow> cl_wire c' = cl_wire c \<Longrightarrow> cl_outbox c' = cl_outbox c \<Longrightarrow> Op_write \<notin> set (cl_pending c') \<Longrightarrow> kept c c'"
  by (simp add: kept_def)

lemma kept_write: "wedged c \<Longrightarrow> client_write i ty m f c = Some c' \<Longrightarrow> kept c c'"
  by (auto simp: client_write_def wedged_def kept_def outbox_defs split: if_splits)

lemma kept_subscribe: "wedged c \<Longrightarrow> send_subscribe k t c = Some (c', r) \<Longrightarrow> kept c c'"
  using kept_same by (auto simp: send_subscribe_def wedged_def dest: kept_write [unfolded wedged_def, rotated] split: sum.splits)

lemma kept_resend: "wedged c \<Longrightarrow> resend_loop ps c = Some (c', r) \<Longrightarrow> kept c c'"
proof (induction ps arbitrary: c)
  case Nil
  then show ?case by (simp add: kept_same wedged_def)
next
  case (Cons p rest)
  obtain key token where p: "p = (key, token)" by (cases p)
  from Cons.prems(2) obtain c1 r1 where sent: "send_subscribe key token c = Some (c1, r1)"
    and more: "(case r1 of Inl e \<Rightarrow> Some (c1, Inl e) | Inr u \<Rightarrow> resend_loop rest c1) = Some (c', r)"
    by (auto simp: p split: option.splits)
  have c1: "kept c c1" using kept_subscribe [OF Cons.prems(1) sent] .
  then show ?case using more Cons.IH [OF kept_wedged [OF Cons.prems(1) c1]] kept_trans by (cases r1) auto
qed

lemma kept_on_connect:
  assumes "wedged c" "on_connect ec c = Some c'"
  shows "stays_wedged c c'"
proof -
  let ?c = "c\<lparr>cl_pending := remove1 Op_connect (cl_pending c)\<rparr>"
  let ?d = "do_read (?c\<lparr>cl_has_connected := True\<rparr>)"
  have c: "quiet c ?c" "quiet c (?c\<lparr>cl_reconnect_cnt := n\<rparr>)" for n using quiet_removed [of c Op_connect] by (auto simp: quiet_def)
  have d: "kept c ?d" using assms(1) by (intro kept_same) (auto simp: do_read_def wedged_def)
  have resent: "kept c c'" if "resend_subscribe ?d = Some (c', r)" for r
    using that kept_resend [OF kept_wedged [OF assms(1) d]] kept_trans [OF d] by (auto simp: resend_subscribe_def)
  show ?thesis
    using assms quiet_stays [OF assms(1) c(1)] quiet_stays [OF assms(1) quiet_trans [OF c(2) quiet_reconnect]] resent kept_stays
    by (auto simp: on_connect_def in_handler_def Let_def split: if_splits option.splits prod.splits sum.splits)
qed

lemma kept_deadline:
  assumes "wedged c" "on_deadline timeout failed c = Some c'"
  shows "kept c c'"
proof -
  let ?c = "c\<lparr>cl_pending := remove1 (Op_deadline timeout) (cl_pending c)\<rparr>"
  have c: "kept c ?c" using assms(1) by (intro kept_same) (auto simp: wedged_def)
  have again: "kept c1 (reset_deadline_timer timeout c1)" if "wedged c1" for c1
    using that by (intro kept_same) (auto simp: reset_deadline_timer_def wedged_def)
  obtain c1 where c1: "c' = reset_deadline_timer timeout c1" "c1 = ?c \<or> client_write 0 req_res [] 0 ?c = Some c1"
    using assms(2) by (auto simp: on_deadline_def Let_def split: if_splits)
  then have "kept c c1" using c kept_trans [OF c kept_write [OF kept_wedged [OF assms(1) c]]] by blast
  then show ?thesis using again [OF kept_wedged [OF assms(1)]] kept_trans c1(1) by blast
qed

lemma kept_calls:
  assumes "wedged c"
  shows "async_call_future name args c = Some (c', r) \<Longrightarrow> kept c c'"
    "async_call_callback timeout name cb args c = Some (c', r') \<Longrightarrow> kept c c'"
    "subscribe_token key token f c = Some (c', r') \<Longrightarrow> kept c c'"
    "subscribe key f c = Some (c', r') \<Longrightarrow> kept c c'"
proof -
  have upd: "client_write i ty m g d = Some c' \<Longrightarrow> kept c d \<Longrightarrow> kept c c'" for d i ty m g
    using assms kept_trans kept_wedged kept_write by blast
  have same: "kept c d" if "cl_wire d = cl_wire c" "cl_outbox d = cl_outbox c" "cl_pending d = cl_pending c" for d
    using that assms by (intro kept_same) (auto simp: wedged_def)
  show "async_call_future name args c = Some (c', r) \<Longrightarrow> kept c c'"
    by (auto simp: async_call_future_def Let_def elim!: upd intro!: same split: sum.splits)
  show "async_call_callback timeout name cb args c = Some (c', r') \<Longrightarrow> kept c c'"
    by (auto simp: async_call_callback_def Let_def elim!: upd intro!: same split: sum.splits if_splits)
  have sub: "kept c d'" if "send_subscribe k t d = Some (d', q)" "kept c d" for d d' k t q
    using that assms kept_trans kept_wedged kept_subscribe by blast
  have last: "kept c (d\<lparr>cl_key_token_set := x\<rparr>)" if "kept c d" for d x using that by (simp add: kept_def)
  have own: "kept c c" by (rule same) simp_all
  have entered: "kept c (c\<lparr>cl_sub_map := m\<rparr>)" for m by (rule same) simp_all
  show "subscribe_token key token f c = Some (c', r') \<Longrightarrow> kept c c'"
    using own by (auto simp: subscribe_token_def last entered dest!: sub split: sum.splits if_splits option.splits)
  show "subscribe key f c = Some (c', r') \<Longrightarrow> kept c c'"
    using own by (auto simp: subscribe_def last entered dest!: sub split: sum.splits if_splits option.splits)
qed

lemma wedged_handler:
  assumes "wedged c" "can_complete c e" "run_handler e c = Some c'"
  shows "stays_wedged c c'"
proof (cases e)
  case (Written ec)
  then show ?thesis using assms by (simp add: wedged_def)
next
  case (Call_timer i)
  have "quiet c (on_call_timer i c)" by (rule quiet_same) (auto simp: on_call_timer_def)
  then show ?thesis using assms quiet_stays Call_timer by auto
qed (use assms kept_on_connect quiet_head quiet_body kept_deadline quiet_stays kept_stays in auto)

lemma wedged_acts: "client_acts c c' \<Longrightarrow> wedged c \<Longrightarrow> stays_wedged c c'"
proof (induction rule: client_acts.induct)
  case (handles c e c')
  then show ?case by (intro wedged_handler)
next
  case (connects host port use_ssl c c' b)
  let ?c = "if cl_port c = 0 then c\<lparr>cl_host := host, cl_port := port\<rparr> else c"
  have "quiet c ?c" by (rule quiet_same) auto
  moreover have "quiet ?c c'"
    using connects quiet_async_connect [of ?c]
    by (auto simp: connect_to_def connect_def upgrade_to_ssl_def is_ssl_def split: if_splits prod.splits intro: quiet_same)
  ultimately show ?case using quiet_trans quiet_stays connects.prems by blast
next
  case (connects_async host port c c' r')
  let ?c = "if cl_port c = 0 then c\<lparr>cl_host := host, cl_port := port\<rparr> else c"
  have "quiet c ?c" by (rule quiet_same) auto
  then show ?case
    using connects_async quiet_async_connect [of ?c] quiet_trans quiet_stays unfolding async_connect_to_def by blast
next
  case (closes c)
  then show ?case using quiet_close quiet_stays by blast
next
  case (sets c ms n host port)
  have "quiet c (set_connect_timeout ms (set_reconnect_count n (update_addr host port c)))"
    by (rule quiet_same) (auto simp: set_connect_timeout_def set_reconnect_count_def update_addr_def)
  then show ?case using sets quiet_stays by blast
next
  case (enables c enable beat)
  have "quiet c (enable_auto_reconnect enable (enable_auto_heartbeat beat c))"
    by (rule quiet_same) (auto simp: enable_auto_reconnect_def enable_auto_heartbeat_def reset_deadline_timer_def)
  then show ?case using enables quiet_stays by blast
next
  case (publishes key v c c' r)
  then show ?case using kept_calls(1) kept_stays kept_same
    by (auto simp: publish_value_def wedged_def split: sum.splits)
next
  case (publishes_token key token v c c' r)
  then show ?case using kept_calls(1) kept_stays kept_same
    by (auto simp: publish_value_by_token_def wedged_def split: sum.splits)
qed (auto intro!: kept_stays intro: kept_calls)

lemma wedged_run:
  assumes "(\<lambda>a b. client_acts a b \<and> cl_outbox b \<noteq> [])\<^sup>*\<^sup>* c c'" "wedged c"
  shows "wedged c' \<and> cl_wire c' = cl_wire c \<and> (\<exists>new. cl_outbox c' = cl_outbox c @ new)"
  using assms(1)
proof (induction rule: rtranclp_induct)
  case base
  then show ?case using assms(2) by simp
next
  case (step c1 c2)
  then have "kept c1 c2" using wedged_acts [of c1 c2] by (auto simp: stays_wedged_def)
  then show ?case using step.IH kept_wedged by (auto simp: kept_def)
qed

section \<open>Properties\<close>

text \<open>C8. Requests, subscriptions and heartbeats leave in the order in which they were queued, one
  at a time and each as one whole frame.\<close>

theorem calls_in_order:
  "legal os \<Longrightarrow>
   cl_wire (run_ops enqueue_message write_done os (new_client host port ok pad h))
     = map (client_frame pad) (take (Suc (completions os)) (pushed os))"
  by (subst cl.in_order) (simp_all add: one_write_def new_client_def)

theorem calls_in_order_witness:
  "cl_wire (run_ops enqueue_message write_done
      [Push \<lparr>cm_req_id = 1, cm_req_type = 0, cm_content = [5], cm_func_id = 8\<rparr>,
       Push \<lparr>cm_req_id = 2, cm_req_type = 0, cm_content = [6], cm_func_id = 9\<rparr>, Completed]
      (new_client [] 0 (\<lambda>_. True) [0, 0, 0, 0, 0, 0] blank_header))
   = [client_frame [0, 0, 0, 0, 0, 0] \<lparr>cm_req_id = 1, cm_req_type = 0, cm_content = [5], cm_func_id = 8\<rparr>,
      client_frame [0, 0, 0, 0, 0, 0] \<lparr>cm_req_id = 2, cm_req_type = 0, cm_content = [6], cm_func_id = 9\<rparr>]"
  by (subst calls_in_order) (auto simp: legal_def le_Suc_eq)

text \<open>A future is resolved by the reply to its own call and by no other: whatever calls were
  made meanwhile, a reply under the call's id sets this promise, with the reply's bytes, and leaves
  every other waiting call waiting.\<close>

theorem reply_resolves_its_call:
  assumes "ids_inv c" "i \<in> set (cl_futures c)"
  shows "\<exists>c'. call_back i None reply c = Some c' \<and>
    cl_resolved c' = cl_resolved c @ [(i, reply)] \<and>
    set (cl_futures c') = set (cl_futures c) - {i} \<and>
    cl_callback_map c' = cl_callback_map c \<and> cl_called c' = cl_called c \<and> ids_inv c'"
proof -
  have "drop_bit 63 i = 0" using assms by (auto simp: ids_inv_def)
  then obtain c' where c': "call_back i None reply c = Some c'"
    "c' = c\<lparr>cl_temp_req_id := i, cl_resolved := cl_resolved c @ [(i, reply)], cl_futures := remove1 i (cl_futures c)\<rparr>"
    using assms(2) by (auto simp: call_back_def)
  then show ?thesis using assms(1) ids_call_back [OF c'(1)] by (auto simp: ids_inv_def)
qed

theorem reply_resolves_its_call_witness:
  "\<exists>c'. call_back 1 None [7] ((new_client [] 0 (\<lambda>_. True) [] blank_header)\<lparr>cl_futures := [1, 2]\<rparr>) = Some c' \<and>
     cl_resolved c' = [(1, [7])] \<and> set (cl_futures c') = {2}"
proof -
  let ?c = "(new_client [] 0 (\<lambda>_. True) [] blank_header)\<lparr>cl_futures := [1, 2]\<rparr>"
  have flags: "drop_bit 63 (1 :: u64) = 0" "drop_bit 63 (2 :: u64) = 0" by (rule future_id_flag; simp)+
  have "ids_inv ?c" unfolding ids_inv_def using flags by (simp add: new_client_def)
  from reply_resolves_its_call [OF this, of 1 "[7]"] show ?thesis by (auto simp: new_client_def)
qed

text \<open>C12. A callback is called by the reply under its id exactly once, with the reply, or with
  \<open>timed_out\<close> when its timer ran out before; the entry is gone afterwards.\<close>

theorem reply_calls_its_callback:
  assumes "ids_inv c" "map_of (cl_callback_map c) i = Some cl"
  shows "\<exists>c'. call_back i None reply c = Some c' \<and>
    cl_called c' = cl_called c @
      [if ct_has_timeout cl then (ct_cb cl, Some timed_out, []) else (ct_cb cl, None, reply)] \<and>
    map_of (cl_callback_map c') i = None \<and>
    (\<forall>j. j \<noteq> i \<longrightarrow> map_of (cl_callback_map c') j = map_of (cl_callback_map c) j) \<and>
    cl_resolved c' = cl_resolved c \<and> cl_futures c' = cl_futures c"
proof -
  have "drop_bit 63 i \<noteq> 0" using assms by (force simp: ids_inv_def dest: map_of_SomeD)
  then show ?thesis using assms(2) by (simp add: call_back_def call_callback_def delete_conv Let_def)
qed

theorem reply_calls_its_callback_witness:
  "\<exists>c'. call_back (push_bit 63 1 OR 1) None [7] ((new_client [] 0 (\<lambda>_. True) [] blank_header)\<lparr>cl_callback_map :=
      [(push_bit 63 1 OR 1, \<lparr>ct_cb = 3, ct_timeout = 100, ct_has_timeout = True, ct_timer_armed = False\<rparr>)]\<rparr>) = Some c' \<and>
     cl_called c' = [(3, Some timed_out, [])]"
proof -
  let ?c = "(new_client [] 0 (\<lambda>_. True) [] blank_header)\<lparr>cl_callback_map :=
      [(push_bit 63 1 OR 1, \<lparr>ct_cb = 3, ct_timeout = 100, ct_has_timeout = True, ct_timer_armed = False\<rparr>)]\<rparr>"
  have "ids_inv ?c" using callback_id_flag [of 0] by (simp add: ids_inv_def new_client_def or.commute)
  from reply_calls_its_callback [OF this, of "push_bit 63 1 OR 1" _ "[7]"] show ?thesis
    by (auto simp: new_client_def)
qed

text \<open>A reply under an id nobody waits for ends the client process (the assertion in
  \<open>call_back\<close>), whether it is a future's or a callback's.\<close>

theorem unknown_reply_aborts:
  assumes "i \<notin> set (cl_futures c)" "map_of (cl_callback_map c) i = None" "cl_open c"
  shows "on_client_body i req_res n (Inr reply) c = None"
  using assms by (simp add: on_client_body_def call_back_def Let_def)

theorem unknown_reply_aborts_witness:
  "on_client_body 5 req_res 1 (Inr [0]) ((new_client [] 0 (\<lambda>_. True) [] blank_header)\<lparr>cl_open := True\<rparr>) = None"
  by (rule unknown_reply_aborts) (simp_all add: new_client_def)

text \<open>C32. After a failed write the outbox keeps its front and no write is in flight. From then on, whatever
  the client does, calls, handlers and reconnecting with its re-subscriptions, nothing is sent and the
  messages pile up, until something empties the outbox; and that can only be the closing of a connection
  that was made again meanwhile. Without one the client never sends again.\<close>

theorem write_error_wedges:
  assumes "one_write c" "cl_outbox c \<noteq> []" "on_client_write (Some e) c = Some c1"
  shows "cl_outbox c1 = cl_outbox c \<and> \<not> cl_has_connected c1 \<and> cl_wire c1 = cl_wire c \<and>
    (\<forall>c2. (\<lambda>a b. client_acts a b \<and> cl_outbox b \<noteq> [])\<^sup>*\<^sup>* c1 c2 \<longrightarrow>
      cl_wire c2 = cl_wire c \<and> (\<exists>new. cl_outbox c2 = cl_outbox c @ new) \<and>
      (\<forall>c3. client_acts c2 c3 \<longrightarrow> cl_wire c3 = cl_wire c \<and> (cl_outbox c3 = [] \<longrightarrow> cl_has_connected c2)))"
proof -
  let ?c = "c\<lparr>cl_pending := remove1 Op_write (cl_pending c), cl_has_connected := False\<rparr>"
  have err: "error_callback e ?c = Some c1" using assms(3) by (simp add: on_client_write_def close_client_def Let_def)
  have "quiet ?c ?c" by (rule quiet_same) auto
  from quiet_error [OF err this] have c1: "cl_outbox c1 = cl_outbox c" "\<not> cl_has_connected c1" "cl_wire c1 = cl_wire c"
    "Op_write \<in> set (cl_pending c1) \<longrightarrow> Op_write \<in> set (remove1 Op_write (cl_pending c))"
    by (auto simp: quiet_def)
  then have w: "wedged c1"
    using assms(1,2) one_write_removed [of "cl_pending c" Op_write] by (auto simp: wedged_def one_write_def)
  show ?thesis
  proof (intro conjI allI impI)
    fix c2 assume run: "(\<lambda>a b. client_acts a b \<and> cl_outbox b \<noteq> [])\<^sup>*\<^sup>* c1 c2"
    from wedged_run [OF run w] have c2: "wedged c2" "cl_wire c2 = cl_wire c" "\<exists>new. cl_outbox c2 = cl_outbox c @ new"
      using c1 by simp_all
    then show "cl_wire c2 = cl_wire c" "\<exists>new. cl_outbox c2 = cl_outbox c @ new" by simp_all
    fix c3 assume "client_acts c2 c3"
    from wedged_acts [OF this c2(1)] show "cl_wire c3 = cl_wire c" "cl_outbox c3 = [] \<Longrightarrow> cl_has_connected c2"
      using c2 by (auto simp: stays_wedged_def kept_def wedged_def)
  qed (use c1 in simp_all)
qed

theorem write_error_wedges_witness:
  "\<exists>c2. on_connect None
      (the (on_client_write (Some (transport [])) ((enqueue_message
        \<lparr>cm_req_id = 1, cm_req_type = 0, cm_content = [5], cm_func_id = 8\<rparr>
        (new_client [] 0 (\<lambda>_. True) [0, 0, 0, 0, 0, 0] blank_header))\<lparr>cl_has_connected := True, cl_pending := [Op_write, Op_connect]\<rparr>))) = Some c2 \<and>
    length (cl_wire c2) = 1"
proof -
  let ?c = "(enqueue_message \<lparr>cm_req_id = 1, cm_req_type = 0, cm_content = [5], cm_func_id = 8\<rparr>
        (new_client [] 0 (\<lambda>_. True) [0, 0, 0, 0, 0, 0] blank_header))\<lparr>cl_has_connected := True, cl_pending := [Op_write, Op_connect]\<rparr>"
  obtain c1 where c1: "on_client_write (Some (transport [])) ?c = Some c1" "cl_key_token_set c1 = []"
    "\<not> cl_has_connected c1" "cl_pending c1 = [Op_connect]"
    by (simp add: on_client_write_def close_client_def error_callback_def Let_def outbox_defs new_client_def)
  obtain c2 where c2: "on_connect None c1 = Some c2"
    using c1 by (simp add: on_connect_def resend_subscribe_def do_read_def in_handler_def Let_def)
  then have "client_acts c1 c2" using handles [of c1 "Connected None" c2] c1(4) by simp
  moreover have "one_write ?c" "cl_outbox ?c \<noteq> []" "length (cl_wire ?c) = 1"
    by (simp_all add: one_write_def outbox_defs new_client_def)
  ultimately show ?thesis using write_error_wedges [OF _ _ c1(1)] c1(1) c2 by auto
qed

text \<open>A reply of exactly 10 MB is neither read nor refused: no read is started, the connection
  stays open and no error is reported, so no later reply is ever read.\<close>

theorem exact_limit_reply_stalls:
  assumes "cl_open c" "cl_pending c = [Op_read_head]" "length pad = 6" "unat (h_body_len h) = MAX_BUF_LEN"
  shows "\<exists>c'. on_client_head (Inr (header_memory pad h)) c = Some c' \<and> cl_pending c' = [] \<and>
    cl_has_connected c' = cl_has_connected c \<and> cl_open c' \<and> cl_errors c' = cl_errors c"
  using assms header_of_header_memory [of pad h "[]"] by (simp add: on_client_head_def MAX_BUF_LEN_def Let_def)

theorem exact_limit_reply_stalls_witness:
  "\<exists>c'. on_client_head (Inr (header_memory [0, 0, 0, 0, 0, 0]
      \<lparr>h_magic = 39, h_req_type = req_res, h_body_len = 10485760, h_req_id = 1, h_func_id = 0\<rparr>))
     ((new_client [] 0 (\<lambda>_. True) [] blank_header)\<lparr>cl_open := True, cl_pending := [Op_read_head]\<rparr>) = Some c' \<and>
     cl_pending c' = []"
  using exact_limit_reply_stalls [of "(new_client [] 0 (\<lambda>_. True) [] blank_header)\<lparr>cl_open := True, cl_pending := [Op_read_head]\<rparr>"
      "[0, 0, 0, 0, 0, 0]" "\<lparr>h_magic = 39, h_req_type = req_res, h_body_len = 10485760, h_req_id = 1, h_func_id = 0\<rparr>"]
  by (auto simp: MAX_BUF_LEN_def)

text \<open>A call with a callback whose timer runs out is not told: the callback is called only when
  the reply arrives, however late, and then with \<open>timed_out\<close>.\<close>

theorem timeout_reported_by_reply:
  assumes "ids_inv c" "map_of (cl_callback_map c) i = Some cl"
  shows "cl_called (on_call_timer i c) = cl_called c \<and>
    (\<exists>c'. call_back i None reply (on_call_timer i c) = Some c' \<and>
      cl_called c' = cl_called c @ [(ct_cb cl, Some timed_out, [])])"
proof -
  have flag: "drop_bit 63 i \<noteq> 0" using assms by (force simp: ids_inv_def dest: map_of_SomeD)
  have "map_of (map (\<lambda>(j, cl). if j = i then (j, cl\<lparr>ct_has_timeout := True, ct_timer_armed := False\<rparr>) else (j, cl)) al) i
      = map_option (\<lambda>cl. cl\<lparr>ct_has_timeout := True, ct_timer_armed := False\<rparr>) (map_of al i)" for al :: "(u64 \<times> call_t) list"
    by (induction al) auto
  then show ?thesis using flag assms(2)
    by (simp add: on_call_timer_def call_back_def call_callback_def Let_def)
qed

theorem timeout_reported_by_reply_witness:
  "cl_called (on_call_timer (push_bit 63 1 OR 1) ((new_client [] 0 (\<lambda>_. True) [] blank_header)\<lparr>cl_callback_map :=
      [(push_bit 63 1 OR 1, \<lparr>ct_cb = 3, ct_timeout = 100, ct_has_timeout = False, ct_timer_armed = True\<rparr>)]\<rparr>)) = []"
proof -
  let ?c = "(new_client [] 0 (\<lambda>_. True) [] blank_header)\<lparr>cl_callback_map :=
      [(push_bit 63 1 OR 1, \<lparr>ct_cb = 3, ct_timeout = 100, ct_has_timeout = False, ct_timer_armed = True\<rparr>)]\<rparr>"
  have "ids_inv ?c" using callback_id_flag [of 0] by (simp add: ids_inv_def new_client_def or.commute)
  from timeout_reported_by_reply [OF this, of "push_bit 63 1 OR 1"] show ?thesis
    by (auto simp: new_client_def)
qed

text \<open>A heartbeat, once enabled, cannot be switched off: the cancelled timer's handler arms the
  timer again, and keeps sending on a connection that is up.\<close>

theorem heartbeat_never_stops:
  assumes "Op_deadline t \<in> set (cl_pending c)"
    and "on_deadline t failed (enable_auto_heartbeat False c) = Some c'"
  shows "Op_deadline t \<in> set (cl_pending c')"
  using assms(2) by (auto simp: on_deadline_def reset_deadline_timer_def Let_def)

theorem heartbeat_never_stops_witness:
  "Op_deadline 5 \<in> set (cl_pending (the (on_deadline 5 True (enable_auto_heartbeat False
      (enable_auto_heartbeat True (new_client [] 0 (\<lambda>_. True) [] blank_header))))))"
  by (rule heartbeat_never_stops [where failed = True and
        c = "enable_auto_heartbeat True (new_client [] 0 (\<lambda>_. True) [] blank_header)"])
    (simp_all add: enable_auto_heartbeat_def reset_deadline_timer_def on_deadline_def)

text \<open>Closing a connected client while the body of a reply is being read ends the process: the
  waiting ids are forgotten, and the handler of the aborted read looks its id up and fails the
  assertion.\<close>

theorem close_during_body_read_aborts:
  assumes "cl_has_connected c"
  shows "on_client_body i ty n r (close_client c) = None"
  using assms
  by (auto simp: close_client_def clear_cache_def on_client_body_def call_back_def Let_def)

theorem close_during_body_read_aborts_witness:
  "on_client_body 1 req_res 4 (Inl connection_aborted) (close_client ((new_client [] 0 (\<lambda>_. True) [] blank_header)
     \<lparr>cl_open := True, cl_has_connected := True, cl_futures := [1], cl_pending := [Op_read_body 1 req_res 4]\<rparr>)) = None"
  by (rule close_during_body_read_aborts) simp

end
