(* ===== verification/Connection.thy ===== *)
theory Connection imports Router Fifo_Writer begin

text \<open>
  \<open>include/rest_rpc/connection.h\<close>: the server's side of one TCP connection, without
  \<open>CINATRA_ENABLE_SSL\<close>. A connection reads a header, then the body it announces, hands the body to
  the router (a request) or to the subscription callback, and reads the next header; answers are
  queued and written one at a time.

  Asio is outside of src/. An \<open>async_read\<close> of n bytes or an \<open>async_write\<close> is an operation in
  flight, recorded in the state; its completion, with an error or with exactly the n bytes, is an
  event whose handler is modelled below. All handlers of one connection run on one thread. Closing
  the socket completes the operations in flight, so their events stay possible afterwards.

  \<open>None\<close> as the result of a handler is the end of the process: a failed \<open>assert\<close> or an exception
  that leaves the handler.
\<close>

section \<open>State\<close>

datatype pending_read = No_read | Head_read | Body_read u32 nat

text \<open>
  \<open>c_pad\<close> stands for the padding bytes of \<open>header_\<close>, \<open>c_wire\<close> collects the buffers given to
  \<open>async_write\<close>, \<open>c_net_errors\<close> the reasons passed to the network-error callback, which is set when
  \<open>c_on_net_err\<close> is.
\<close>

record conn =
  c_open :: bool
  c_has_closed :: bool
  c_reading :: pending_read
  c_writing :: bool
  c_body :: bytes
  c_req_id :: u64
  c_req_type :: request_type
  c_header :: rpc_header
  c_pad :: bytes
  c_write_size :: u32
  c_write_queue :: "message_type list"
  c_timer_armed :: bool
  c_timeout_seconds :: nat
  c_conn_id :: int
  c_on_net_err :: bool
  c_wire :: "bytes list"
  c_net_errors :: "bytes list"

definition new_connection :: "bytes \<Rightarrow> u64 \<Rightarrow> request_type \<Rightarrow> rpc_header \<Rightarrow> nat \<Rightarrow> conn" where
  "new_connection pad some_id some_type some_header timeout_seconds =
     \<lparr>c_open = True, c_has_closed = False, c_reading = No_read, c_writing = False,
      c_body = replicate INIT_BUF_SIZE 0, c_req_id = some_id, c_req_type = some_type,
      c_header = some_header, c_pad = pad, c_write_size = 0, c_write_queue = [],
      c_timer_armed = False, c_timeout_seconds = timeout_seconds, c_conn_id = 0,
      c_on_net_err = False, c_wire = [], c_net_errors = []\<rparr>"

section \<open>Small operations\<close>

definition report :: "bytes \<Rightarrow> conn \<Rightarrow> conn" where
  "report reason c = (if c_on_net_err c then c\<lparr>c_net_errors := c_net_errors c @ [reason]\<rparr> else c)"

definition close_conn :: "conn \<Rightarrow> conn" where
  "close_conn c = (if c_has_closed c then c else c\<lparr>c_open := False, c_has_closed := True\<rparr>)"

definition reset_timer :: "conn \<Rightarrow> conn" where
  "reset_timer c = (if c_timeout_seconds c = 0 then c else c\<lparr>c_timer_armed := True\<rparr>)"

definition cancel_timer :: "conn \<Rightarrow> conn" where
  "cancel_timer c = (if c_timeout_seconds c = 0 then c else c\<lparr>c_timer_armed := False\<rparr>)"

text \<open>The timer's handler: \<open>cancelled\<close> is an error code in \<open>ec\<close>.\<close>

definition on_timer :: "bool \<Rightarrow> conn \<Rightarrow> conn" where
  "on_timer cancelled c0 =
     (let c = (if cancelled then c0 else c0\<lparr>c_timer_armed := False\<rparr>) in
      if c_has_closed c then c else if cancelled then c else close_conn c)"

definition set_conn_id :: "int \<Rightarrow> conn \<Rightarrow> conn" where
  "set_conn_id i c = c\<lparr>c_conn_id := i\<rparr>"

definition on_network_error :: "conn \<Rightarrow> conn" where
  "on_network_error c = c\<lparr>c_on_net_err := True\<rparr>"

text \<open>\<open>remote_adress\<close>, with what \<open>remote_endpoint\<close> says of the open socket as a parameter.\<close>

definition remote_adress :: "bytes option \<Rightarrow> conn \<Rightarrow> bytes" where
  "remote_adress endpoint c =
     (if c_has_closed c then [] else case endpoint of None \<Rightarrow> [] | Some a \<Rightarrow> a)"

section \<open>Writing\<close>

definition message_header :: "message_type \<Rightarrow> rpc_header" where
  "message_header msg =
     \<lparr>h_magic = MAGIC_NUM, h_req_type = m_req_type msg,
      h_body_len = of_nat (length (m_content msg)), h_req_id = m_req_id msg, h_func_id = 0\<rparr>"

text \<open>\<open>write()\<close>. The two buffers of one write: the header's memory and \<open>write_size_\<close> bytes of the content.\<close>

definition frame_bytes :: "bytes \<Rightarrow> message_type \<Rightarrow> bytes" where
  "frame_bytes pad msg =
     header_memory pad (message_header msg) @
     take (unat (of_nat (length (m_content msg)) :: u32)) (m_content msg)"

definition write_front :: "conn \<Rightarrow> conn" where
  "write_front c =
     (let msg = hd (c_write_queue c) in
      c\<lparr>c_write_size := of_nat (length (m_content msg)), c_header := message_header msg,
        c_writing := True, c_wire := c_wire c @ [frame_bytes (c_pad c) msg]\<rparr>)"

definition enqueue :: "message_type \<Rightarrow> conn \<Rightarrow> conn" where
  "enqueue msg c =
     (let c' = c\<lparr>c_write_queue := c_write_queue c @ [msg]\<rparr> in
      if length (c_write_queue c') > 1 then c' else write_front c')"

definition response :: "u64 \<Rightarrow> bytes \<Rightarrow> request_type \<Rightarrow> conn \<Rightarrow> conn option" where
  "response req_id data req_type c =
     (if length data < MAX_BUF_LEN
      then Some (enqueue \<lparr>m_req_id = req_id, m_req_type = req_type, m_content = data\<rparr> c)
      else None)"

text \<open>\<open>pack_and_response\<close> and \<open>publish\<close> let an exception of the codec through to their caller.\<close>

definition pack_and_response :: "u64 \<Rightarrow> cval \<Rightarrow> conn \<Rightarrow> conn res option" where
  "pack_and_response req_id data c =
     (case pack_args_str RC_OK [data] of
        Inl e \<Rightarrow> Some (Inl e)
      | Inr result \<Rightarrow> map_option Inr (response req_id result req_res c))"

definition publish_conn :: "bytes \<Rightarrow> bytes \<Rightarrow> conn \<Rightarrow> conn res option" where
  "publish_conn key data c =
     (case pack_args_str RC_OK [V_string key, V_string data] of
        Inl e \<Rightarrow> Some (Inl e)
      | Inr result \<Rightarrow> map_option Inr (response 0 result sub_pub c))"

text \<open>\<open>ec\<close> is \<open>Some message\<close> for an error.\<close>

definition on_write :: "bytes option \<Rightarrow> conn \<Rightarrow> conn" where
  "on_write ec c0 =
     (let c = c0\<lparr>c_writing := False\<rparr> in
      case ec of
        Some message \<Rightarrow> close_conn (report message c)
      | None \<Rightarrow>
          (if c_has_closed c then c
           else
             (let c' = c\<lparr>c_write_queue := tl (c_write_queue c)\<rparr> in
              if c_write_queue c' \<noteq> [] then write_front c' else c')))"

section \<open>Reading\<close>

definition read_head :: "conn \<Rightarrow> conn" where
  "read_head c = (reset_timer c)\<lparr>c_reading := Head_read\<rparr>"

definition start :: "conn \<Rightarrow> conn" where
  "start c = read_head c"

text \<open>\<open>body_.resize(n)\<close> appends zero bytes.\<close>

definition resize_body :: "nat \<Rightarrow> bytes \<Rightarrow> bytes" where
  "resize_body n body = (if length body < n then body @ replicate (n - length body) 0 else body)"

definition on_read_head :: "bytes + bytes \<Rightarrow> conn \<Rightarrow> conn" where
  "on_read_head r c0 =
     (let c = c0\<lparr>c_reading := No_read\<rparr> in
      if \<not> c_open c then report (lit ''socket already closed'') c
      else case r of
        Inr head \<Rightarrow>
          (let header = header_of_memory head in
           if h_magic header \<noteq> MAGIC_NUM then close_conn c
           else
             (let body_len = unat (h_body_len header);
                  c = c\<lparr>c_req_id := h_req_id header, c_req_type := h_req_type header\<rparr> in
              if 0 < body_len \<and> body_len < MAX_BUF_LEN
              then c\<lparr>c_body := resize_body body_len (c_body c),
                     c_reading := Body_read (h_func_id header) body_len\<rparr>
              else if body_len = 0 then read_head (cancel_timer c)
              else c))
      | Inl ec \<Rightarrow> close_conn (report (lit ''invalid body len'') c))"

text \<open>
  The completion of the body's read, up to what it hands on: a request for the router, a
  subscription for the server's callback, or nothing.
\<close>

datatype body_event = No_event | Route_event u32 bytes | Subscribe_event bytes bytes

definition on_body_bytes :: "bytes + bytes \<Rightarrow> conn \<Rightarrow> conn \<times> body_event" where
  "on_body_bytes res c0 =
     (case c_reading c0 of
        Body_read func_id size_to_read \<Rightarrow>
          (let c = cancel_timer (c0\<lparr>c_reading := No_read\<rparr>) in
           if \<not> c_open c then (report (lit ''socket already closed'') c, No_event)
           else case res of
             Inr data \<Rightarrow>
               (let c = read_head (c\<lparr>c_body := data @ drop (length data) (c_body c)\<rparr>);
                    request = take (length data) (c_body c) in
                if c_req_type c = req_res then (c, Route_event func_id request)
                else if c_req_type c = sub_pub
                then (case codec_unpack (T_tuple [T_string, T_string]) request of
                        Inr p \<Rightarrow> (c, Subscribe_event (string_of (tuple_get 0 p)) (string_of (tuple_get 1 p)))
                      | Inl e \<Rightarrow> (report (what e) c, No_event))
                else (c, No_event))
           | Inl message \<Rightarrow> (report message c, No_event))
      | _ \<Rightarrow> (c0, No_event))"

text \<open>
  The whole handler. \<open>self\<close> is the connection's own weak reference. The state of the rest of the
  program, \<open>'w\<close>, passes through the registered function; the last component of the value is what
  the subscription callback was called with. (\<open>Rpc_Server\<close> has the handler for the case that the
  registered function touches this connection too.)
\<close>

definition on_read_body ::
    "('w, 'c) router \<Rightarrow> 'c \<Rightarrow> bytes + bytes \<Rightarrow> 'w \<Rightarrow> conn \<Rightarrow> ('w \<times> conn \<times> (bytes \<times> bytes) option) option" where
  "on_read_body r self res w c0 =
     (case on_body_bytes res c0 of
        (c, No_event) \<Rightarrow> Some (w, c, None)
      | (c, Subscribe_event key token) \<Rightarrow> Some (w, c, Some (key, token))
      | (c, Route_event func_id request) \<Rightarrow>
          (case route r func_id request (Some (self, c_req_id c)) w of
             (w', Inl e) \<Rightarrow> None
           | (w', Inr None) \<Rightarrow> Some (w', c, None)
           | (w', Inr (Some (rid, result))) \<Rightarrow>
               (case response rid result req_res c of
                  None \<Rightarrow> None | Some c' \<Rightarrow> Some (w', c', None))))"

section \<open>The outgoing queue is a FIFO writer\<close>

lemmas conn_ops = report_def close_conn_def reset_timer_def cancel_timer_def on_timer_def set_conn_id_def
  on_network_error_def write_front_def enqueue_def on_write_def read_head_def resize_body_def on_read_head_def

interpretation out: fifo_writer c_write_queue c_wire c_writing "\<lambda>c. \<not> c_has_closed c"
  "\<lambda>c. frame_bytes (c_pad c)" enqueue "on_write None"
  by unfold_locales (auto simp: conn_ops Let_def take_Suc hd_append split: list.splits)

section \<open>Steps and the invariant\<close>

text \<open>
  What can happen to a connection: completions of the operations in flight, the timer, an answer
  from another thread (an asynchronous function or the publisher), the server's bookkeeping and
  any change \<open>env\<close> of the rest of the program.
\<close>

inductive conn_step :: "('w, 'c) router \<Rightarrow> 'w \<times> conn \<Rightarrow> 'w \<times> conn \<Rightarrow> bool" for r where
  step_head: "c_reading c = Head_read \<Longrightarrow> (\<forall>m. res = Inr m \<longrightarrow> length m = HEAD_LEN) \<Longrightarrow>
    conn_step r (w, c) (w, on_read_head res c)"
| step_body: "c_reading c = Body_read f n \<Longrightarrow> (\<forall>m. res = Inr m \<longrightarrow> length m = n) \<Longrightarrow>
    on_read_body r self res w c = Some (w', c', cb) \<Longrightarrow> conn_step r (w, c) (w', c')"
| step_write: "c_writing c \<Longrightarrow> conn_step r (w, c) (w, on_write ec c)"
| step_timer: "c_timer_armed c \<or> cancelled \<Longrightarrow> conn_step r (w, c) (w, on_timer cancelled c)"
| step_response: "response rid data ty c = Some c' \<Longrightarrow> conn_step r (w, c) (w, c')"
| step_conn_id: "conn_step r (w, c) (w, set_conn_id i c)"
| step_net_err: "conn_step r (w, c) (w, on_network_error c)"
| step_env: "conn_step r (w, c) (env w, c)"

inductive_cases conn_stepE: "conn_step r (w, c) (w', c')"

definition conn_inv :: "conn \<Rightarrow> bool" where
  "conn_inv c \<longleftrightarrow>
     (c_open c \<longleftrightarrow> \<not> c_has_closed c) \<and>
     (\<forall>f n. c_reading c = Body_read f n \<longrightarrow> 0 < n \<and> n < MAX_BUF_LEN \<and> n \<le> length (c_body c)) \<and>
     (\<forall>msg \<in> set (c_write_queue c). length (m_content msg) < MAX_BUF_LEN) \<and>
     (\<not> c_has_closed c \<longrightarrow> (c_writing c \<longleftrightarrow> c_write_queue c \<noteq> [])) \<and>
     (c_timer_armed c \<longrightarrow> c_timeout_seconds c \<noteq> 0)"

lemma inv_new: "conn_inv (start (new_connection pad i ty h t))"
  by (simp add: conn_inv_def start_def read_head_def reset_timer_def new_connection_def)

lemma inv_report [inv_intros]: "conn_inv c \<Longrightarrow> conn_inv (report reason c)"
  by (simp add: conn_inv_def report_def)

lemma inv_close [inv_intros]: "conn_inv c \<Longrightarrow> conn_inv (close_conn c)"
  by (simp add: conn_inv_def close_conn_def)

lemma inv_read_head [inv_intros]: "conn_inv c \<Longrightarrow> conn_inv (read_head c)"
  by (auto simp: conn_inv_def read_head_def reset_timer_def)

lemma inv_cancel [inv_intros]: "conn_inv c \<Longrightarrow> conn_inv (cancel_timer c)"
  by (auto simp: conn_inv_def cancel_timer_def)

lemma inv_timer [inv_intros]: "conn_inv c \<Longrightarrow> conn_inv (on_timer cancelled c)"
  by (auto simp: conn_inv_def on_timer_def close_conn_def)

lemma inv_no_read [inv_intros]: "conn_inv c \<Longrightarrow> conn_inv (c\<lparr>c_reading := No_read\<rparr>)"
  by (simp add: conn_inv_def)

lemma inv_enqueue [inv_intros]:
  "conn_inv c \<Longrightarrow> length (m_content msg) < MAX_BUF_LEN \<Longrightarrow> conn_inv (enqueue msg c)"
  by (auto simp: conn_inv_def enqueue_def write_front_def Let_def)

lemma inv_response [inv_intros]: "response rid data ty c = Some c' \<Longrightarrow> conn_inv c \<Longrightarrow> conn_inv c'"
  by (auto simp: response_def intro: inv_enqueue split: if_splits)

lemma inv_write [inv_intros]: "conn_inv c \<Longrightarrow> conn_inv (on_write ec c)"
  by (cases "c_write_queue c")
    (auto simp: conn_inv_def on_write_def write_front_def close_conn_def report_def Let_def split: option.splits)

lemma inv_req [simp]: "conn_inv (c\<lparr>c_req_id := i, c_req_type := ty\<rparr>) \<longleftrightarrow> conn_inv c"
  by (simp add: conn_inv_def)

lemma inv_expect_body:
  "conn_inv c \<Longrightarrow> 0 < n \<Longrightarrow> n < MAX_BUF_LEN \<Longrightarrow>
   conn_inv (c\<lparr>c_body := resize_body n (c_body c), c_reading := Body_read f n\<rparr>)"
  by (simp add: conn_inv_def resize_body_def)

lemmas inv_simps = inv_report inv_close inv_read_head inv_cancel inv_no_read inv_enqueue

lemma inv_head [inv_intros]:
  assumes "conn_inv c"
  shows "conn_inv (on_read_head res c)"
proof (cases res)
  case (Inl ec)
  then show ?thesis using assms by (simp add: on_read_head_def Let_def inv_simps)
next
  case (Inr head)
  let ?h = "header_of_memory head"
  let ?c = "c\<lparr>c_reading := No_read, c_req_id := h_req_id ?h, c_req_type := h_req_type ?h\<rparr>"
  have "conn_inv ?c" using assms inv_no_read by simp
  then show ?thesis using Inr assms inv_expect_body [of ?c]
    by (simp add: on_read_head_def Let_def inv_simps)
qed

lemma inv_body_data:
  "conn_inv c \<Longrightarrow> c_reading c = No_read \<Longrightarrow> conn_inv (c\<lparr>c_body := b\<rparr>)"
  by (simp add: conn_inv_def)

lemma on_body_bytes_cases:
  assumes "on_body_bytes res c = (c', event)"
  obtains "c' = c" "event = No_event"
    | reason where "c' = report reason (cancel_timer (c\<lparr>c_reading := No_read\<rparr>))" "event = No_event"
    | data where "c' = read_head ((cancel_timer (c\<lparr>c_reading := No_read\<rparr>))\<lparr>c_body := data\<rparr>)"
        "c_open c" "c_reading c \<noteq> No_read"
    | data reason where "c' = report reason (read_head ((cancel_timer (c\<lparr>c_reading := No_read\<rparr>))\<lparr>c_body := data\<rparr>))"
        "c_open c" "c_reading c \<noteq> No_read" "event = No_event"
proof -
  have "c_open (cancel_timer (c\<lparr>c_reading := No_read\<rparr>)) = c_open c" by (simp add: cancel_timer_def)
  then show thesis
    using assms that unfolding on_body_bytes_def Let_def
    by (auto split: pending_read.splits if_splits sum.splits)
qed

lemma inv_body_bytes:
  assumes "conn_inv c" "on_body_bytes res c = (c', event)"
  shows "conn_inv c'"
proof -
  have "c_reading (cancel_timer (c\<lparr>c_reading := No_read\<rparr>)) = No_read" by (simp add: cancel_timer_def)
  then have d: "conn_inv (read_head ((cancel_timer (c\<lparr>c_reading := No_read\<rparr>))\<lparr>c_body := b\<rparr>))" for b
    using assms(1) by (simp add: inv_simps inv_body_data)
  from assms(2) show ?thesis
    by (rule on_body_bytes_cases) (use assms(1) d in \<open>auto simp: inv_simps\<close>)
qed

lemma inv_body:
  assumes "conn_inv c" "on_read_body r self res w c = Some (w', c', cb)"
  shows "conn_inv c'"
proof -
  obtain d event where d: "on_body_bytes res c = (d, event)" by fastforce
  show ?thesis
    using assms(2) inv_body_bytes [OF assms(1) d] inv_response
    by (fastforce simp: on_read_body_def d split: body_event.splits prod.splits sum.splits option.splits)
qed

lemma inv_step: "conn_step r s t \<Longrightarrow> conn_inv (snd s) \<Longrightarrow> conn_inv (snd t)"
proof (induction rule: conn_step.induct)
  case (step_body c f n res self w w' c' cb)
  then show ?case using inv_body by fastforce
next
  case (step_response rid data ty c c' w)
  then show ?case using inv_response by fastforce
next
  case (step_conn_id w c i)
  then show ?case by (simp add: conn_inv_def set_conn_id_def)
next
  case (step_net_err w c)
  then show ?case by (simp add: conn_inv_def on_network_error_def)
qed (simp_all add: inv_head inv_write inv_timer)

interpretation conn_sys: invariant_system "conn_step r" "\<lambda>s. conn_inv (snd s)" for r :: "('w, 'c) router"
  by unfold_locales (rule inv_step)

section \<open>Frames\<close>

lemma frame_bytes_parts:
  assumes "length pad = 6" "length (m_content msg) < MAX_BUF_LEN"
  shows "take HEAD_LEN (frame_bytes pad msg) = header_memory pad (message_header msg)"
    "drop HEAD_LEN (frame_bytes pad msg) = m_content msg"
    "unat (h_body_len (message_header msg)) = length (m_content msg)"
  using assms by (simp_all add: frame_bytes_def length_header_memory unat_of_nat MAX_BUF_LEN_def message_header_def)

lemma header_of_frame:
  "length pad = 6 \<Longrightarrow> header_of_memory (header_memory pad h) = h"
  using header_of_header_memory [of pad h "[]"] by simp

section \<open>Serving one request\<close>

lemma read_request_head:
  assumes "c_reading c = Head_read" "c_open c" "length pad = 6"
    "h_magic h = MAGIC_NUM" "0 < unat (h_body_len h)" "unat (h_body_len h) < MAX_BUF_LEN"
  shows "on_read_head (Inr (header_memory pad h)) c =
    c\<lparr>c_req_id := h_req_id h, c_req_type := h_req_type h,
      c_body := resize_body (unat (h_body_len h)) (c_body c),
      c_reading := Body_read (h_func_id h) (unat (h_body_len h))\<rparr>"
  using assms by (cases c) (simp add: on_read_head_def header_of_frame Let_def)

lemma read_request_body:
  assumes "c_reading c = Body_read f (length request)" "c_open c" "c_req_type c = req_res"
    "route r f request (Some (self, c_req_id c)) w = (w', Inr (Some (rid, result)))"
    "length result < MAX_BUF_LEN"
  shows "on_read_body r self (Inr request) w c =
    Some (w', enqueue \<lparr>m_req_id = rid, m_req_type = req_res, m_content = result\<rparr>
      (read_head ((cancel_timer (c\<lparr>c_reading := No_read\<rparr>))\<lparr>c_body := request @ drop (length request) (c_body c)\<rparr>)), None)"
  using assms
  by (cases "c_timeout_seconds c = 0")
    (simp_all add: on_read_body_def on_body_bytes_def Let_def cancel_timer_def read_head_def reset_timer_def response_def)

lemma request_steps:
  assumes "c_reading c = Head_read" "c_open c" "length pad = 6"
    and "h_magic h = MAGIC_NUM" "h_req_type h = req_res"
    and "unat (h_body_len h) = length request" "request \<noteq> []" "length request < MAX_BUF_LEN"
    and "route r (h_func_id h) request (Some (self, h_req_id h)) w = (w', Inr (Some (rid, result)))"
    and "length result < MAX_BUF_LEN"
  shows "\<exists>c'. on_read_body r self (Inr request) w (on_read_head (Inr (header_memory pad h)) c) = Some (w', c', None) \<and>
    c_reading c' = Head_read \<and> c_req_id c' = h_req_id h \<and> c_wire c' = c_wire c @
      (if c_write_queue c = []
       then [frame_bytes (c_pad c) \<lparr>m_req_id = rid, m_req_type = req_res, m_content = result\<rparr>] else []) \<and>
    c_write_queue c' = c_write_queue c @ [\<lparr>m_req_id = rid, m_req_type = req_res, m_content = result\<rparr>]"
proof -
  let ?c = "c\<lparr>c_req_id := h_req_id h, c_req_type := h_req_type h,
      c_body := resize_body (unat (h_body_len h)) (c_body c),
      c_reading := Body_read (h_func_id h) (unat (h_body_len h))\<rparr>"
  have head: "on_read_head (Inr (header_memory pad h)) c = ?c"
    using assms by (intro read_request_head) simp_all
  have "on_read_body r self (Inr request) w ?c =
    Some (w', enqueue \<lparr>m_req_id = rid, m_req_type = req_res, m_content = result\<rparr>
      (read_head ((cancel_timer (?c\<lparr>c_reading := No_read\<rparr>))\<lparr>c_body := request @ drop (length request) (c_body ?c)\<rparr>)), None)"
    using assms by (intro read_request_body) simp_all
  then show ?thesis
    unfolding head
    by (simp add: enqueue_def write_front_def read_head_def reset_timer_def cancel_timer_def Let_def)
qed

section \<open>Properties\<close>

text \<open>C13. Whatever the peer sends and however completions, the timer and answers from other threads
  interleave: a read of a body never exceeds \<open>body_\<close>, a write is in flight exactly when the queue
  is not empty (while the connection is open), no queued message reaches the 10 MB limit, and the
  socket is closed exactly when \<open>has_closed_\<close> is set.\<close>

theorem connection_safe:
  assumes "(conn_step r)\<^sup>*\<^sup>* (w, start (new_connection pad i ty h t)) (w', c)"
  shows "(c_open c \<longleftrightarrow> \<not> c_has_closed c) \<and>
    (\<forall>f n. c_reading c = Body_read f n \<longrightarrow> 0 < n \<and> n < MAX_BUF_LEN \<and> n \<le> length (c_body c)) \<and>
    (\<forall>msg \<in> set (c_write_queue c). length (m_content msg) < MAX_BUF_LEN) \<and>
    (\<not> c_has_closed c \<longrightarrow> (c_writing c \<longleftrightarrow> c_write_queue c \<noteq> []))"
proof -
  have "conn_inv c" using conn_sys.reachable_good [OF assms] by (simp add: inv_new)
  then show ?thesis unfolding conn_inv_def by blast
qed

theorem connection_safe_witness:
  "c_writing (on_timer False (enqueue \<lparr>m_req_id = 4, m_req_type = sub_pub, m_content = [1]\<rparr>
      (start (new_connection [0, 0, 0, 0, 0, 0] 0 0 undefined 15))))"
proof -
  let ?c0 = "start (new_connection [0, 0, 0, 0, 0, 0] 0 0 undefined 15)"
  let ?c1 = "enqueue \<lparr>m_req_id = 4, m_req_type = sub_pub, m_content = [1]\<rparr> ?c0"
  have "conn_step (empty_router :: (unit, int) router) ((), ?c0) ((), ?c1)"
    by (rule step_response [where rid = 4 and data = "[1]" and ty = sub_pub]) (simp add: response_def MAX_BUF_LEN_def)
  then have "(conn_step (empty_router :: (unit, int) router))\<^sup>*\<^sup>* ((), ?c0) ((), ?c1)" by simp
  note this [THEN connection_safe]
  then show ?thesis
    by (simp add: on_timer_def close_conn_def enqueue_def write_front_def start_def read_head_def reset_timer_def
        new_connection_def Let_def)
qed

text \<open>C7. Answers leave in the order in which \<open>response\<close> was called, one at a time and each as one
  whole frame: after any legal interleaving of answers and completed writes, what was given to the
  socket is the frames of the first (completed + 1) answers.\<close>

theorem responses_in_order:
  "legal os \<Longrightarrow>
   c_wire (run_ops enqueue (on_write None) os (start (new_connection pad i ty h t)))
     = map (frame_bytes pad) (take (Suc (completions os)) (pushed os))"
  by (subst out.in_order)
    (simp_all add: start_def read_head_def reset_timer_def new_connection_def)

theorem responses_in_order_witness:
  "c_wire (run_ops enqueue (on_write None)
      [Push \<lparr>m_req_id = 1, m_req_type = 0, m_content = [5]\<rparr>, Push \<lparr>m_req_id = 2, m_req_type = 0, m_content = [6]\<rparr>,
       Completed, Push \<lparr>m_req_id = 3, m_req_type = 0, m_content = [7]\<rparr>]
      (start (new_connection [0, 0, 0, 0, 0, 0] 0 0 undefined 0)))
   = [frame_bytes [0, 0, 0, 0, 0, 0] \<lparr>m_req_id = 1, m_req_type = 0, m_content = [5]\<rparr>,
      frame_bytes [0, 0, 0, 0, 0, 0] \<lparr>m_req_id = 2, m_req_type = 0, m_content = [6]\<rparr>]"
  by (subst responses_in_order) (auto simp: legal_def le_Suc_eq)

text \<open>C6. A request that arrives while the connection waits for a header is handed to the router
  under its own id, its answer is appended to the outgoing queue under the id the router gives, and
  the connection waits for the next header.\<close>

theorem request_answered:
  assumes "c_reading c = Head_read" "c_open c" "length pad = 6"
    and "h_magic h = MAGIC_NUM" "h_req_type h = req_res"
    and "unat (h_body_len h) = length request" "request \<noteq> []" "length request < MAX_BUF_LEN"
    and "route r (h_func_id h) request (Some (self, h_req_id h)) w = (w', Inr (Some (rid, result)))"
    and "length result < MAX_BUF_LEN"
  shows "\<exists>c'. on_read_body r self (Inr request) w (on_read_head (Inr (header_memory pad h)) c) = Some (w', c', None) \<and>
    c_reading c' = Head_read \<and>
    c_write_queue c' = c_write_queue c @ [\<lparr>m_req_id = rid, m_req_type = req_res, m_content = result\<rparr>]"
  using request_steps [OF assms] by blast

theorem request_answered_witness:
  "\<exists>c'. on_read_body (empty_router :: (nat, int) router) 0 (Inr [0x90]) 5
       (on_read_head (Inr (header_memory [0, 0, 0, 0, 0, 0]
          \<lparr>h_magic = MAGIC_NUM, h_req_type = req_res, h_body_len = 1, h_req_id = 12, h_func_id = 7\<rparr>))
        (start (new_connection [0, 0, 0, 0, 0, 0] 0 0 undefined 0))) = Some (5, c', None) \<and>
     c_reading c' = Head_read \<and>
     c_write_queue c' = c_write_queue (start (new_connection [0, 0, 0, 0, 0, 0] 0 0 undefined 0)) @
       [\<lparr>m_req_id = 12, m_req_type = req_res,
         m_content = [0x92, 0x01] @ pack_str 18 @ lit ''unknown function:7''\<rparr>]"
proof -
  have name: "get_name_by_key (empty_router :: (nat, int) router) 7 = lit ''7''"
    by (simp add: get_name_by_key_def to_string.simps lit_def of_char_def)
  have "route (empty_router :: (nat, int) router) 7 [0x90] (Some (0, 12)) 5
      = (5, Inr (Some (12, [0x92, 0x01] @ pack_str 18 @ lit ''unknown function:7'')))"
    by (simp add: route_def name fail_reply flip: lit_append)
  then show ?thesis
    by (intro request_answered)
      (simp_all add: start_def read_head_def reset_timer_def new_connection_def MAX_BUF_LEN_def pack_str_def)
qed

text \<open>A header that announces 10 MB or more is neither served nor refused: no read is started,
  the socket stays open and nothing is reported. With the timeout disabled nothing ever happens on
  the connection again.\<close>

theorem oversize_request_stalls:
  assumes "conn_inv c" "c_open c" "length pad = 6" "h_magic h = MAGIC_NUM" "MAX_BUF_LEN \<le> unat (h_body_len h)"
  shows "c_reading (on_read_head (Inr (header_memory pad h)) c) = No_read \<and>
    \<not> c_has_closed (on_read_head (Inr (header_memory pad h)) c) \<and>
    c_net_errors (on_read_head (Inr (header_memory pad h)) c) = c_net_errors c"
  using assms by (auto simp: on_read_head_def header_of_frame Let_def conn_inv_def MAX_BUF_LEN_def)

theorem oversize_request_stalls_witness:
  "c_reading (on_read_head (Inr (header_memory [0, 0, 0, 0, 0, 0]
     \<lparr>h_magic = MAGIC_NUM, h_req_type = req_res, h_body_len = 10485760, h_req_id = 1, h_func_id = 2\<rparr>))
     (start (new_connection [0, 0, 0, 0, 0, 0] 0 0 undefined 0))) = No_read"
  by (rule oversize_request_stalls [OF inv_new, THEN conjunct1])
    (simp_all add: start_def read_head_def reset_timer_def new_connection_def MAX_BUF_LEN_def)

text \<open>When the read of a body fails on an open socket the connection is only reported, not
  closed: no read and no timer remain, so nothing closes it later and the server's cleaning never
  removes it.\<close>

theorem failed_body_read_leaks:
  assumes "conn_inv c" "c_open c" "c_reading c = Body_read f n"
  shows "\<exists>c'. on_read_body r self (Inl message) w c = Some (w, c', None) \<and>
    c_reading c' = No_read \<and> \<not> c_timer_armed c' \<and> \<not> c_has_closed c'"
  using assms by (auto simp: on_read_body_def on_body_bytes_def cancel_timer_def report_def conn_inv_def Let_def)

theorem failed_body_read_leaks_witness:
  "\<exists>c'. on_read_body (empty_router :: (unit, int) router) 0 (Inl (lit ''End of file'')) ()
      ((start (new_connection [0, 0, 0, 0, 0, 0] 0 0 undefined 15))\<lparr>c_reading := Body_read 3 1\<rparr>) = Some ((), c', None) \<and>
    c_reading c' = No_read \<and> \<not> c_timer_armed c' \<and> \<not> c_has_closed c'"
  by (rule failed_body_read_leaks [where f = 3 and n = 1])
    (simp_all add: conn_inv_def start_def read_head_def reset_timer_def new_connection_def MAX_BUF_LEN_def INIT_BUF_SIZE_def)

text \<open>An asynchronous function's answer is not checked against the limit before the \<open>assert\<close>
  in \<open>response\<close>: a string of 10485753 bytes or more, answered with \<open>pack_and_response\<close>, ends the
  server process.\<close>

theorem async_answer_aborts:
  assumes "10485753 \<le> length s" "length s < 2 ^ 32"
  shows "pack_and_response req_id (V_string s) c = None"
proof -
  have "pack_args_str RC_OK [V_string s] = Inr ([0x92, 0x00] @ pack_str (of_nat (length s)) @ s)"
    using assms(2) by (simp add: pack_args_str_def append_res_def pack_array_def pack_int_def pack_imp_int32_def
        pack_string_def checked_get_container_size_def)
  moreover have "length (pack_str (of_nat (length s))) = 5"
    using assms by (simp add: pack_str_def length_word_cases)
  ultimately show ?thesis using assms(1) by (simp add: pack_and_response_def response_def MAX_BUF_LEN_def)
qed

theorem async_answer_aborts_witness:
  "pack_and_response 1 (V_string (replicate 10485753 0)) (new_connection [0, 0, 0, 0, 0, 0] 0 0 undefined 15) = None"
  by (rule async_answer_aborts) simp_all

end
