(* ===== verification/End_To_End.thy ===== *)
theory End_To_End imports Rpc_Client Connection begin

text \<open>
  One client and the server's connection to it, composed: \<open>rpc_client.hpp\<close> on one end of a TCP
  stream, \<open>connection.h\<close> and \<open>router.h\<close> on the other. Each side sends the bytes its write log has;
  TCP keeps their order, and a read of \<open>n\<close> bytes completes, at any later time, with the next \<open>n\<close>
  bytes. Writes and reads of both sides and new calls of the client interleave arbitrarily.

  The specification is \<open>run_calls\<close>: the calls executed one after the other, in the order in which they
  were made. The theorems show that the composed system implements it and finishes.
\<close>

section \<open>The composed system\<close>

text \<open>
  \<open>lk_up\<close> and \<open>lk_down\<close> count the bytes read of the two streams, \<open>lk_calls\<close> records the calls made.
\<close>

record 'w link =
  lk_client :: client
  lk_conn :: conn
  lk_world :: 'w
  lk_up :: nat
  lk_down :: nat
  lk_calls :: "(bytes \<times> cval list) list"

definition up_unread :: "'w link \<Rightarrow> bytes" where
  "up_unread l = drop (lk_up l) (concat (cl_wire (lk_client l)))"

definition down_unread :: "'w link \<Rightarrow> bytes" where
  "down_unread l = drop (lk_down l) (concat (c_wire (lk_conn l)))"

text \<open>The steps that need no user: completions of the operations in flight on both sides.\<close>

inductive inner_step :: "('w, 'c) router \<Rightarrow> 'c \<Rightarrow> 'w link \<Rightarrow> 'w link \<Rightarrow> bool" for r self where
  client_sent: "Op_write \<in> set (cl_pending (lk_client l)) \<Longrightarrow> on_client_write None (lk_client l) = Some c' \<Longrightarrow>
    inner_step r self l (l\<lparr>lk_client := c'\<rparr>)"
| server_head: "c_reading (lk_conn l) = Head_read \<Longrightarrow> HEAD_LEN \<le> length (up_unread l) \<Longrightarrow>
    inner_step r self l (l\<lparr>lk_conn := on_read_head (Inr (take HEAD_LEN (up_unread l))) (lk_conn l),
      lk_up := lk_up l + HEAD_LEN\<rparr>)"
| server_body: "c_reading (lk_conn l) = Body_read f n \<Longrightarrow> n \<le> length (up_unread l) \<Longrightarrow>
    on_read_body r self (Inr (take n (up_unread l))) (lk_world l) (lk_conn l) = Some (w', c', cb) \<Longrightarrow>
    inner_step r self l (l\<lparr>lk_conn := c', lk_world := w', lk_up := lk_up l + n\<rparr>)"
| server_sent: "c_writing (lk_conn l) \<Longrightarrow> inner_step r self l (l\<lparr>lk_conn := on_write None (lk_conn l)\<rparr>)"
| client_head: "Op_read_head \<in> set (cl_pending (lk_client l)) \<Longrightarrow> HEAD_LEN \<le> length (down_unread l) \<Longrightarrow>
    on_client_head (Inr (take HEAD_LEN (down_unread l))) (lk_client l) = Some c' \<Longrightarrow>
    inner_step r self l (l\<lparr>lk_client := c', lk_down := lk_down l + HEAD_LEN\<rparr>)"
| client_body: "Op_read_body i ty n \<in> set (cl_pending (lk_client l)) \<Longrightarrow> n \<le> length (down_unread l) \<Longrightarrow>
    on_client_body i ty n (Inr (take n (down_unread l))) (lk_client l) = Some c' \<Longrightarrow>
    inner_step r self l (l\<lparr>lk_client := c', lk_down := lk_down l + n\<rparr>)"

text \<open>
  A call with a future that could be packed and is below the limit of the size. Ids repeat and reach
  the bit of the callbacks after \<open>2 ^ 63\<close> calls.
\<close>

inductive link_step :: "('w, 'c) router \<Rightarrow> 'c \<Rightarrow> 'w link \<Rightarrow> 'w link \<Rightarrow> bool" for r self where
  inner: "inner_step r self l l' \<Longrightarrow> link_step r self l l'"
| call: "async_call_future name args (lk_client l) = Some (c', Inr i) \<Longrightarrow> Suc (length (lk_calls l)) < 2 ^ 63 \<Longrightarrow>
    link_step r self l (l\<lparr>lk_client := c', lk_calls := lk_calls l @ [(name, args)]\<rparr>)"

text \<open>A new client connects, without an exception, and the server starts its new connection.\<close>

definition connected_client :: "bytes \<Rightarrow> u16 \<Rightarrow> (bytes \<Rightarrow> bool) \<Rightarrow> bytes \<Rightarrow> rpc_header \<Rightarrow> client option" where
  "connected_client host port ok pad h =
     Option.bind (in_handler (async_connect (new_client host port ok pad h))) (on_connect None)"

definition new_link :: "client \<Rightarrow> conn \<Rightarrow> 'w \<Rightarrow> 'w link" where
  "new_link c s w =
     \<lparr>lk_client = c, lk_conn = start s, lk_world = w, lk_up = 0, lk_down = 0, lk_calls = []\<rparr>"

text \<open>What such a pair can reach, on a server whose functions share the state \<open>w0\<close> at first.\<close>

definition reachable_link :: "('w, 'c) router \<Rightarrow> 'c \<Rightarrow> 'w \<Rightarrow> 'w link \<Rightarrow> bool" where
  "reachable_link r self w0 l \<longleftrightarrow>
     (\<exists>host port ok cpad h c pad i ty hdr t.
        connected_client host port ok cpad h = Some c \<and> length cpad = 6 \<and> length pad = 6 \<and>
        (link_step r self)\<^sup>*\<^sup>* (new_link c (new_connection pad i ty hdr t) w0) l)"

lemma reachable_linkI:
  "connected_client host port ok cpad h = Some c \<Longrightarrow> length cpad = 6 \<Longrightarrow> length pad = 6 \<Longrightarrow>
   (link_step r self)\<^sup>*\<^sup>* (new_link c (new_connection pad i ty hdr t) w0) l \<Longrightarrow> reachable_link r self w0 l"
  unfolding reachable_link_def by blast

section \<open>The specification\<close>

text \<open>A call as the server sees it: its id, the function's id and the packed arguments.\<close>

type_synonym request = "u64 \<times> u32 \<times> bytes"

fun run_calls :: "('w, 'c) router \<Rightarrow> 'c \<Rightarrow> request list \<Rightarrow> 'w \<Rightarrow> 'w \<times> (u64 \<times> bytes) list" where
  "run_calls r self [] w = (w, [])"
| "run_calls r self ((i, f, q) # cs) w =
     (case route r f q (Some (self, i)) w of
        (w1, Inr (Some a)) \<Rightarrow> (case run_calls r self cs w1 of (w2, as) \<Rightarrow> (w2, a # as))
      | (w1, _) \<Rightarrow> run_calls r self cs w1)"

definition packed :: "cval list \<Rightarrow> bytes" where
  "packed args = (case pack_args args of Inl e \<Rightarrow> [] | Inr b \<Rightarrow> b)"

text \<open>The k-th call has the id k + 1.\<close>

definition requests :: "(bytes \<times> cval list) list \<Rightarrow> request list" where
  "requests calls =
     map (\<lambda>k. (of_nat (Suc k), hash_name (fst (calls ! k)), packed (snd (calls ! k)))) [0..<length calls]"

lemma length_requests [simp]: "length (requests calls) = length calls"
  by (simp add: requests_def)

lemma requests_snoc:
  "requests (calls @ [(name, args)]) =
     requests calls @ [(of_nat (Suc (length calls)), hash_name name, packed args)]"
  by (simp add: requests_def nth_append)

lemma run_calls_append:
  "run_calls r self (cs @ ds) w =
     (case run_calls r self cs w of (w1, as) \<Rightarrow>
        (case run_calls r self ds w1 of (w2, bs) \<Rightarrow> (w2, as @ bs)))"
proof (induction cs arbitrary: w)
  case Nil
  then show ?case by (cases "run_calls r self ds w") simp
next
  case (Cons c cs)
  obtain i f q where c: "c = (i, f, q)" by (cases c)
  show ?case by (auto simp: c Cons.IH split: prod.splits sum.splits option.splits)
qed

section \<open>Streams of frames\<close>

text \<open>Where the k-th frame starts; reading it is reading its header and then its content.\<close>

definition frame_start :: "bytes list \<Rightarrow> nat \<Rightarrow> nat" where
  "frame_start fs k = length (concat (take k fs))"

lemma frame_start_0 [simp]: "frame_start fs 0 = 0"
  by (simp add: frame_start_def)

lemma frame_start_Suc: "k < length fs \<Longrightarrow> frame_start fs (Suc k) = frame_start fs k + length (fs ! k)"
  by (simp add: frame_start_def take_Suc_conv_app_nth)

lemma drop_frame_start: "drop (frame_start fs k) (concat fs) = concat (drop k fs)"
proof -
  have "concat fs = concat (take k fs) @ concat (drop k fs)"
    by (simp flip: concat_append)
  then show ?thesis by (simp add: frame_start_def)
qed

lemma unread_at_frame:
  assumes "k < m" "m \<le> length fs"
  shows "\<exists>rest. drop (frame_start fs k) (concat (take m fs)) = fs ! k @ rest"
proof -
  have "frame_start fs k = frame_start (take m fs) k" using assms by (simp add: frame_start_def min_def)
  then show ?thesis
    using assms Cons_nth_drop_Suc [of k "take m fs"] by (simp add: drop_frame_start flip: Cons_nth_drop_Suc)
qed

lemma nothing_unread:
  assumes "m \<le> k"
  shows "drop (frame_start fs k) (concat (take m fs)) = []"
proof -
  have "length (concat (take m fs)) \<le> frame_start fs k"
  proof -
    have "take k fs = take m fs @ drop m (take k fs)" using assms by (metis append_take_drop_id min.absorb1 take_take)
    then show ?thesis by (metis concat_append frame_start_def le_add1 length_append)
  qed
  then show ?thesis by simp
qed

lemma frame_start_append: "k \<le> length fs \<Longrightarrow> frame_start (fs @ gs) k = frame_start fs k"
  by (simp add: frame_start_def)

section \<open>The invariant\<close>

fun call_msg :: "request \<Rightarrow> client_message_type" where
  "call_msg (i, f, q) = \<lparr>cm_req_id = i, cm_req_type = req_res, cm_content = q, cm_func_id = f\<rparr>"

fun reply_msg :: "u64 \<times> bytes \<Rightarrow> message_type" where
  "reply_msg (i, b) = \<lparr>m_req_id = i, m_req_type = req_res, m_content = b\<rparr>"

definition up_frames :: "bytes \<Rightarrow> request list \<Rightarrow> bytes list" where
  "up_frames pad cs = map (client_frame pad) (map call_msg cs)"

definition down_frames :: "bytes \<Rightarrow> (u64 \<times> bytes) list \<Rightarrow> bytes list" where
  "down_frames pad as = map (frame_bytes pad) (map reply_msg as)"

definition sendable :: "bytes \<Rightarrow> bool" where
  "sendable b \<longleftrightarrow> b \<noteq> [] \<and> length b < MAX_BUF_LEN"

text \<open>The outgoing queues: \<open>d\<close> of the messages are written completely.\<close>

definition client_out :: "request list \<Rightarrow> nat \<Rightarrow> client \<Rightarrow> bool" where
  "client_out cs d c \<longleftrightarrow> length (cl_pad c) = 6 \<and> one_write c \<and>
     fifo_state cl_outbox cl_wire (\<lambda>c. Op_write \<in> set (cl_pending c)) (client_frame (cl_pad c)) (map call_msg cs) d c"

definition server_out :: "(u64 \<times> bytes) list \<Rightarrow> nat \<Rightarrow> conn \<Rightarrow> bool" where
  "server_out as e s \<longleftrightarrow> length (c_pad s) = 6 \<and> \<not> c_has_closed s \<and>
     fifo_state c_write_queue c_wire c_writing (frame_bytes (c_pad s)) (map reply_msg as) e s"

text \<open>The readers: \<open>k\<close> frames are read completely, and of the next one the header if \<open>in_body\<close>.\<close>

definition server_in :: "bytes \<Rightarrow> request list \<Rightarrow> nat \<Rightarrow> bool \<Rightarrow> nat \<Rightarrow> conn \<Rightarrow> bool" where
  "server_in pad cs k in_body pos s \<longleftrightarrow> c_open s \<and> k \<le> length cs \<and>
     (if in_body
      then k < length cs \<and> pos = frame_start (up_frames pad cs) k + HEAD_LEN \<and>
        (case cs ! k of (i, f, q) \<Rightarrow>
           c_reading s = Body_read f (length q) \<and> c_req_id s = i \<and> c_req_type s = req_res)
      else pos = frame_start (up_frames pad cs) k \<and> c_reading s = Head_read)"

fun is_read :: "pending_op \<Rightarrow> bool" where
  "is_read Op_read_head \<longleftrightarrow> True"
| "is_read (Op_read_body i ty n) \<longleftrightarrow> True"
| "is_read _ \<longleftrightarrow> False"

definition client_in :: "bytes \<Rightarrow> (u64 \<times> bytes) list \<Rightarrow> nat \<Rightarrow> bool \<Rightarrow> nat \<Rightarrow> client \<Rightarrow> bool" where
  "client_in pad as g in_body pos c \<longleftrightarrow> cl_open c \<and> g \<le> length as \<and> cl_resolved c = take g as \<and>
     (if in_body
      then g < length as \<and> pos = frame_start (down_frames pad as) g + HEAD_LEN \<and>
        (case as ! g of (i, b) \<Rightarrow> filter is_read (cl_pending c) = [Op_read_body i req_res (length b)])
      else pos = frame_start (down_frames pad as) g \<and> filter is_read (cl_pending c) = [Op_read_head])"

text \<open>The calls without a reply so far are in \<open>future_map_\<close>.\<close>

definition waiting :: "request list \<Rightarrow> (u64 \<times> bytes) list \<Rightarrow> client \<Rightarrow> bool" where
  "waiting cs got c \<longleftrightarrow> distinct (cl_futures c) \<and> cl_fu_id c = of_nat (length cs) \<and> length cs < 2 ^ 63 \<and>
     fst ` set cs - fst ` set got \<subseteq> set (cl_futures c)"

definition link_inv ::
    "('w, 'c) router \<Rightarrow> 'c \<Rightarrow> 'w \<Rightarrow> request list \<Rightarrow> (u64 \<times> bytes) list \<Rightarrow>
     nat \<times> nat \<Rightarrow> nat \<times> bool \<Rightarrow> nat \<times> bool \<Rightarrow> 'w link \<Rightarrow> bool" where
  "link_inv r self w0 cs as de kb gb l \<longleftrightarrow>
     cs = requests (lk_calls l) \<and> run_calls r self (take (fst kb) cs) w0 = (lk_world l, as) \<and>
     (\<forall>(i, f, q) \<in> set cs. sendable q) \<and> (\<forall>(i, b) \<in> set as. sendable b) \<and>
     client_out cs (fst de) (lk_client l) \<and> server_out as (snd de) (lk_conn l) \<and>
     server_in (cl_pad (lk_client l)) cs (fst kb) (snd kb) (lk_up l) (lk_conn l) \<and>
     client_in (c_pad (lk_conn l)) as (fst gb) (snd gb) (lk_down l) (lk_client l) \<and>
     waiting cs (take (fst gb) as) (lk_client l)"

section \<open>Frames\<close>

lemma call_frame:
  assumes "length pad = 6" "sendable q"
  shows "client_frame pad (call_msg (i, f, q)) = header_memory pad (client_header (call_msg (i, f, q))) @ q"
    "unat (h_body_len (client_header (call_msg (i, f, q)))) = length q"
  using assms by (simp_all add: client_frame_def client_header_def sendable_def unat_of_nat MAX_BUF_LEN_def)

lemma reply_frame:
  assumes "length pad = 6" "sendable b"
  shows "frame_bytes pad (reply_msg (i, b)) = header_memory pad (message_header (reply_msg (i, b))) @ b"
    "unat (h_body_len (message_header (reply_msg (i, b)))) = length b"
  using assms by (simp_all add: frame_bytes_def message_header_def sendable_def unat_of_nat MAX_BUF_LEN_def)

lemma up_frames_simps [simp]:
  "length (up_frames pad cs) = length cs" "up_frames pad (cs @ ds) = up_frames pad cs @ up_frames pad ds"
  "k < length cs \<Longrightarrow> up_frames pad cs ! k = client_frame pad (call_msg (cs ! k))"
  by (simp_all add: up_frames_def)

lemma down_frames_simps [simp]:
  "length (down_frames pad as) = length as" "down_frames pad (as @ bs) = down_frames pad as @ down_frames pad bs"
  "k < length as \<Longrightarrow> down_frames pad as ! k = frame_bytes pad (reply_msg (as ! k))"
  by (simp_all add: down_frames_def)

lemma server_in_append:
  assumes "server_in pad cs k b pos s"
  shows "server_in pad (cs @ ds) k b pos s"
  using assms frame_start_append [of k "up_frames pad cs"]
  by (auto simp: server_in_def nth_append split: if_splits)

lemma client_in_append:
  assumes "client_in pad as g b pos c"
  shows "client_in pad (as @ bs) g b pos c"
  using assms frame_start_append [of g "down_frames pad as"]
  by (auto simp: client_in_def nth_append split: if_splits)

lemma server_in_cong:
  "server_in pad cs k b pos s \<Longrightarrow> c_open s' = c_open s \<Longrightarrow> c_reading s' = c_reading s \<Longrightarrow>
   c_req_id s' = c_req_id s \<Longrightarrow> c_req_type s' = c_req_type s \<Longrightarrow> server_in pad cs k b pos s'"
  by (simp add: server_in_def)

lemma client_in_cong:
  "client_in pad as g b pos c \<Longrightarrow> cl_open c' = cl_open c \<Longrightarrow> cl_resolved c' = cl_resolved c \<Longrightarrow>
   filter is_read (cl_pending c') = filter is_read (cl_pending c) \<Longrightarrow> client_in pad as g b pos c'"
  by (simp add: client_in_def)

lemma client_out_cong:
  "client_out cs d c \<Longrightarrow> cl_pad c' = cl_pad c \<Longrightarrow> cl_outbox c' = cl_outbox c \<Longrightarrow> cl_wire c' = cl_wire c \<Longrightarrow>
   count_list (cl_pending c') Op_write = count_list (cl_pending c) Op_write \<Longrightarrow> client_out cs d c'"
  unfolding client_out_def one_write_def fifo_state_def by (metis count_list_0_iff)

lemma waiting_cong:
  "waiting cs got c \<Longrightarrow> cl_futures c' = cl_futures c \<Longrightarrow> cl_fu_id c' = cl_fu_id c \<Longrightarrow> waiting cs got c'"
  by (simp add: waiting_def)

section \<open>The client's writes and calls\<close>

lemma filter_remove1: "\<not> P x \<Longrightarrow> filter P (remove1 x xs) = filter P xs"
  by (induction xs) auto

lemma filter_remove1_eq: "P x \<Longrightarrow> filter P (remove1 x xs) = remove1 x (filter P xs)"
  by (induction xs) auto

lemma count_remove1_other: "x \<noteq> y \<Longrightarrow> count_list (remove1 x xs) y = count_list xs y"
  by (induction xs) auto

lemma on_client_write_done: "on_client_write None c = Some (write_done c)"
  by (simp add: outbox_defs)

lemma write_done_keeps [simp]:
  "cl_pad (write_done c) = cl_pad c" "cl_open (write_done c) = cl_open c"
  "cl_resolved (write_done c) = cl_resolved c" "cl_futures (write_done c) = cl_futures c"
  "cl_fu_id (write_done c) = cl_fu_id c"
  "filter is_read (cl_pending (write_done c)) = filter is_read (cl_pending c)"
  by (simp_all add: outbox_defs filter_remove1)

lemma enqueue_message_keeps [simp]:
  "cl_pad (enqueue_message m c) = cl_pad c" "cl_fu_id (enqueue_message m c) = cl_fu_id c"
  "filter is_read (cl_pending (enqueue_message m c)) = filter is_read (cl_pending c)"
  by (simp_all add: outbox_defs)

lemma client_out_sent:
  assumes "client_out cs d c" "Op_write \<in> set (cl_pending c)"
  shows "client_out cs (Suc d) (write_done c)" "d < length cs"
proof -
  show d: "d < length cs" using assms by (simp add: client_out_def fifo_state_def)
  have "cl_outbox c \<noteq> []" using assms d by (simp add: client_out_def fifo_state_def)
  then show "client_out cs (Suc d) (write_done c)"
    using assms d cl.complete_state [of c "map call_msg cs" d] cl.complete_usable
    by (simp add: client_out_def)
qed

lemma call_effect:
  assumes "async_call_future name args c = Some (c', Inr i)"
  shows "i = cl_fu_id c + 1"
    "c' = enqueue_message (call_msg (i, hash_name name, packed args))
       (c\<lparr>cl_fu_id := i, cl_futures := List.insert i (cl_futures c)\<rparr>)"
    "sendable (packed args)"
proof -
  obtain b where b: "pack_args args = Inr b" using assms
    by (auto simp: async_call_future_def Let_def split: sum.splits)
  then show "i = cl_fu_id c + 1" "c' = enqueue_message (call_msg (i, hash_name name, packed args))
       (c\<lparr>cl_fu_id := i, cl_futures := List.insert i (cl_futures c)\<rparr>)"
    using assms by (auto simp: async_call_future_def packed_def client_write_def Let_def split: if_splits)
  have "b \<noteq> []" using b unfolding pack_args_def by (rule mp.pack_nonempty)
  then show "sendable (packed args)"
    using assms b by (auto simp: async_call_future_def packed_def sendable_def client_write_def Let_def split: if_splits)
qed

lemma client_out_call:
  assumes "client_out cs d c"
  shows "client_out (cs @ [x]) d (enqueue_message (call_msg x) (c\<lparr>cl_fu_id := i, cl_futures := is\<rparr>))"
proof -
  let ?c = "c\<lparr>cl_fu_id := i, cl_futures := is\<rparr>"
  have c: "client_out cs d ?c" using assms by (rule client_out_cong) simp_all
  then show ?thesis
    using cl.push_state [of ?c "map call_msg cs" d "call_msg x"] cl.push_usable [of ?c]
    by (simp add: client_out_def)
qed

section \<open>The server's writes and reads\<close>

lemma server_out_cong:
  "server_out as e s \<Longrightarrow> c_pad s' = c_pad s \<Longrightarrow> c_has_closed s' = c_has_closed s \<Longrightarrow>
   c_write_queue s' = c_write_queue s \<Longrightarrow> c_wire s' = c_wire s \<Longrightarrow> c_writing s' = c_writing s \<Longrightarrow> server_out as e s'"
  by (simp add: server_out_def fifo_state_def)

lemma on_write_keeps [simp]:
  assumes "\<not> c_has_closed s"
  shows "c_pad (on_write None s) = c_pad s" "c_open (on_write None s) = c_open s"
    "c_reading (on_write None s) = c_reading s" "c_req_id (on_write None s) = c_req_id s"
    "c_req_type (on_write None s) = c_req_type s" "\<not> c_has_closed (on_write None s)"
  using assms by (simp_all add: on_write_def write_front_def Let_def)

lemma enqueue_keeps_conn [simp]:
  "c_pad (enqueue m s) = c_pad s" "c_open (enqueue m s) = c_open s" "c_reading (enqueue m s) = c_reading s"
  "c_req_id (enqueue m s) = c_req_id s" "c_req_type (enqueue m s) = c_req_type s"
  "c_has_closed (enqueue m s) = c_has_closed s"
  by (simp_all add: enqueue_def write_front_def Let_def)

lemma server_out_sent:
  assumes "server_out as e s" "c_writing s"
  shows "server_out as (Suc e) (on_write None s)" "e < length as"
proof -
  show e: "e < length as" using assms by (simp add: server_out_def fifo_state_def)
  have "c_write_queue s \<noteq> []" using assms e by (simp add: server_out_def fifo_state_def)
  then show "server_out as (Suc e) (on_write None s)"
    using assms e out.complete_state [of s "map reply_msg as" e]
    by (simp add: server_out_def)
qed

lemma server_out_reply:
  assumes "server_out as e s"
  shows "server_out (as @ [a]) e (enqueue (reply_msg a) s)"
  using assms out.push_state [of s "map reply_msg as" e "reply_msg a"]
  by (simp add: server_out_def)

section \<open>What a reader finds\<close>

lemma take_min: "take (min m (length xs)) xs = take m xs"
  by (simp add: min_def)

lemma unread_frame:
  assumes "k < length fs" "k < m" "fs ! k = h @ b" "length h = HEAD_LEN"
  shows "take HEAD_LEN (drop (frame_start fs k) (concat (take m fs))) = h"
    "take (length b) (drop (frame_start fs k + HEAD_LEN) (concat (take m fs))) = b"
    "HEAD_LEN \<le> length (drop (frame_start fs k) (concat (take m fs)))"
    "length b \<le> length (drop (frame_start fs k + HEAD_LEN) (concat (take m fs)))"
    "frame_start fs (Suc k) = frame_start fs k + HEAD_LEN + length b"
proof -
  obtain rest where rest: "drop (frame_start fs k) (concat (take m fs)) = h @ b @ rest"
    using unread_at_frame [of k "min m (length fs)" fs] assms(1-3) by (auto simp: take_min)
  then show "take HEAD_LEN (drop (frame_start fs k) (concat (take m fs))) = h"
    "HEAD_LEN \<le> length (drop (frame_start fs k) (concat (take m fs)))"
    using assms(4) by simp_all
  have "drop (frame_start fs k + HEAD_LEN) (concat (take m fs)) = drop HEAD_LEN (h @ b @ rest)"
    unfolding rest [symmetric] by (simp add: add.commute)
  then have tail: "drop (frame_start fs k + HEAD_LEN) (concat (take m fs)) = b @ rest"
    using assms(4) by simp
  show "take (length b) (drop (frame_start fs k + HEAD_LEN) (concat (take m fs))) = b"
    "length b \<le> length (drop (frame_start fs k + HEAD_LEN) (concat (take m fs)))"
    unfolding tail by simp_all
  show "frame_start fs (Suc k) = frame_start fs k + HEAD_LEN + length b"
    using assms by (simp add: frame_start_Suc)
qed

lemma unread_exists:
  assumes "n \<le> length (drop (frame_start fs k + j) (concat (take m fs)))" "0 < n"
  shows "k < m \<and> k < length fs"
proof (rule ccontr)
  assume "\<not> (k < m \<and> k < length fs)"
  then have "drop (frame_start fs k) (concat (take (min m (length fs)) fs)) = []" by (intro nothing_unread) auto
  then have "length (concat (take m fs)) \<le> frame_start fs k" by (cases "m \<le> length fs") (auto simp: min_def)
  then show False using assms by simp
qed

lemma HEAD_LEN_pos [simp]: "0 < HEAD_LEN"
  by (simp add: HEAD_LEN_def)

lemma up_wire:
  "client_out cs d c \<Longrightarrow> concat (cl_wire c) = concat (take (Suc d) (up_frames (cl_pad c) cs))"
  by (simp add: client_out_def fifo_state_def up_frames_def take_map)

lemma down_wire:
  "server_out as e s \<Longrightarrow> concat (c_wire s) = concat (take (Suc e) (down_frames (c_pad s) as))"
  by (simp add: server_out_def fifo_state_def down_frames_def take_map)

lemma up_frame:
  assumes "k < length cs" "cs ! k = (i, f, q)" "\<forall>(i, f, q) \<in> set cs. sendable q" "length pad = 6"
  shows "up_frames pad cs ! k = header_memory pad (client_header (call_msg (i, f, q))) @ q"
    "length (header_memory pad (client_header (call_msg (i, f, q)))) = HEAD_LEN"
    "sendable q" "unat (h_body_len (client_header (call_msg (i, f, q)))) = length q"
proof -
  show q: "sendable q" using assms(1-3) nth_mem by fastforce
  show "up_frames pad cs ! k = header_memory pad (client_header (call_msg (i, f, q))) @ q"
    using call_frame(1) [OF assms(4) q] assms(1,2) by simp
  show "length (header_memory pad (client_header (call_msg (i, f, q)))) = HEAD_LEN"
    using assms(4) by (rule length_header_memory)
  show "unat (h_body_len (client_header (call_msg (i, f, q)))) = length q"
    using call_frame(2) [OF assms(4) q] .
qed

lemma down_frame:
  assumes "k < length as" "as ! k = (i, b)" "\<forall>(i, b) \<in> set as. sendable b" "length pad = 6"
  shows "down_frames pad as ! k = header_memory pad (message_header (reply_msg (i, b))) @ b"
    "length (header_memory pad (message_header (reply_msg (i, b)))) = HEAD_LEN"
    "sendable b" "unat (h_body_len (message_header (reply_msg (i, b)))) = length b"
proof -
  show b: "sendable b" using assms(1-3) nth_mem by fastforce
  show "down_frames pad as ! k = header_memory pad (message_header (reply_msg (i, b))) @ b"
    using reply_frame(1) [OF assms(4) b] assms(1,2) by simp
  show "length (header_memory pad (message_header (reply_msg (i, b)))) = HEAD_LEN"
    using assms(4) by (rule length_header_memory)
  show "unat (h_body_len (message_header (reply_msg (i, b)))) = length b"
    using reply_frame(2) [OF assms(4) b] .
qed

section \<open>Reads of the server\<close>

lemma server_reads_head:
  assumes "server_in pad cs k False pos s" "k < length cs" "cs ! k = (i, f, q)"
    "\<forall>(i, f, q) \<in> set cs. sendable q" "length pad = 6"
  defines "s' \<equiv> on_read_head (Inr (header_memory pad (client_header (call_msg (i, f, q))))) s"
  shows "server_in pad cs k True (pos + HEAD_LEN) s'"
    "server_out as e s \<Longrightarrow> server_out as e s'" "c_pad s' = c_pad s"
proof -
  note frame = up_frame [OF assms(2-5)]
  have s': "s' = s\<lparr>c_req_id := i, c_req_type := req_res, c_body := resize_body (length q) (c_body s),
      c_reading := Body_read f (length q)\<rparr>"
    using assms(1) frame(3,4) unfolding s'_def
    by (subst read_request_head [OF _ _ assms(5)])
      (simp_all add: server_in_def client_header_def sendable_def)
  show "server_in pad cs k True (pos + HEAD_LEN) s'"
    using assms(1-3) unfolding s' by (simp add: server_in_def)
  show "c_pad s' = c_pad s" unfolding s' by simp
  show "server_out as e s \<Longrightarrow> server_out as e s'" unfolding s' by (erule server_out_cong) simp_all
qed

text \<open>The state of the connection when the body has been read and the next read has started.\<close>

definition body_taken :: "bytes \<Rightarrow> conn \<Rightarrow> conn" where
  "body_taken q s =
     read_head ((cancel_timer (s\<lparr>c_reading := No_read\<rparr>))\<lparr>c_body := q @ drop (length q) (c_body s)\<rparr>)"

lemma body_taken_keeps [simp]:
  "c_pad (body_taken q s) = c_pad s" "c_open (body_taken q s) = c_open s"
  "c_reading (body_taken q s) = Head_read" "c_req_id (body_taken q s) = c_req_id s"
  "c_has_closed (body_taken q s) = c_has_closed s" "c_write_queue (body_taken q s) = c_write_queue s"
  "c_wire (body_taken q s) = c_wire s" "c_writing (body_taken q s) = c_writing s"
  by (simp_all add: body_taken_def read_head_def reset_timer_def cancel_timer_def)

lemma body_event_request:
  assumes "c_reading s = Body_read f (length q)" "c_open s" "c_req_type s = req_res"
  shows "on_body_bytes (Inr q) s = (body_taken q s, Route_event f q)"
  using assms by (simp add: on_body_bytes_def body_taken_def Let_def cancel_timer_def read_head_def reset_timer_def)

lemma server_reads_body:
  assumes "server_in pad cs k True pos s" "cs ! k = (i, f, q)"
    "\<forall>(i, f, q) \<in> set cs. sendable q" "length pad = 6" "plain_router r" "short_names r"
    "server_out as e s" "run_calls r self (take k cs) w0 = (w, as)" "\<forall>(i, b) \<in> set as. sendable b"
  shows "\<exists>w' s' as'. on_read_body r self (Inr q) w s = Some (w', s', None) \<and>
    server_in pad cs (Suc k) False (pos + length q) s' \<and> c_pad s' = c_pad s \<and>
    server_out (as @ as') e s' \<and> run_calls r self (take (Suc k) cs) w0 = (w', as @ as') \<and>
    (\<forall>(i, b) \<in> set (as @ as'). sendable b) \<and> length as' \<le> 1"
proof -
  have k: "k < length cs" and s: "c_reading s = Body_read f (length q)" "c_open s" "c_req_type s = req_res"
    "c_req_id s = i" "pos = frame_start (up_frames pad cs) k + HEAD_LEN"
    using assms(1,2) by (simp_all add: server_in_def)
  note frame = up_frame [OF k assms(2-4)]
  have step: "frame_start (up_frames pad cs) (Suc k) = pos + length q"
    using frame_start_Suc [of k "up_frames pad cs"] k frame(1,2) s(5) by simp
  have run: "run_calls r self (take (Suc k) cs) w0
      = (case run_calls r self [(i, f, q)] w of (w2, bs) \<Rightarrow> (w2, as @ bs))"
    using k assms(2,8) by (simp add: take_Suc_conv_app_nth run_calls_append)
  have taken: "server_out as e (body_taken q s)" using assms(7) by (rule server_out_cong) simp_all
  show ?thesis
  proof (cases rule: route_live [OF assms(5,6), of f q self i w])
    case (1 w')
    then have "on_read_body r self (Inr q) w s = Some (w', body_taken q s, None)"
      using s body_event_request by (simp add: on_read_body_def)
    then show ?thesis
      using taken k step s run 1 assms(9)
      by (intro exI [of _ w'] exI [of _ "body_taken q s"] exI [of _ "[]"]) (simp add: server_in_def)
  next
    case (2 w' b)
    let ?s = "enqueue (reply_msg (i, b)) (body_taken q s)"
    have "on_read_body r self (Inr q) w s = Some (w', ?s, None)"
      using 2 s body_event_request by (simp add: on_read_body_def response_def)
    then show ?thesis
      using server_out_reply [OF taken, of "(i, b)"] k step s run 2 assms(9)
      by (intro exI [of _ w'] exI [of _ ?s] exI [of _ "[(i, b)]"]) (simp add: server_in_def sendable_def)
  qed
qed

section \<open>Reads of the client\<close>

lemma client_reads_head:
  assumes "client_in pad as g False pos c" "g < length as" "as ! g = (i, b)"
    "\<forall>(i, b) \<in> set as. sendable b" "length pad = 6"
  shows "\<exists>c'. on_client_head (Inr (header_memory pad (message_header (reply_msg (i, b))))) c = Some c' \<and>
    client_in pad as g True (pos + HEAD_LEN) c' \<and> cl_pad c' = cl_pad c \<and>
    (client_out cs d c \<longrightarrow> client_out cs d c') \<and> (waiting cs got c \<longrightarrow> waiting cs got c')"
proof -
  note frame = down_frame [OF assms(2-5)]
  let ?h = "message_header (reply_msg (i, b))"
  let ?c = "c\<lparr>cl_body := resize_client_body (length b) (cl_body c),
    cl_pending := remove1 Op_read_head (cl_pending c) @ [Op_read_body i req_res (length b)]\<rparr>"
  have "cl_open c" using assms(1) by (simp add: client_in_def)
  then have c': "on_client_head (Inr (header_memory pad ?h)) c = Some ?c"
    using frame(3,4)
    by (simp add: on_client_head_def header_of_frame [OF assms(5)] Let_def sendable_def message_header_def)
  have reads: "filter is_read (remove1 Op_read_head (cl_pending c)) = []"
    using assms(1) by (simp add: client_in_def filter_remove1_eq)
  then have "client_in pad as g True (pos + HEAD_LEN) ?c"
    using assms(1-3) by (simp add: client_in_def)
  moreover have "client_out cs d c \<longrightarrow> client_out cs d ?c"
    by (intro impI, erule client_out_cong) (simp_all add: count_remove1_other)
  moreover have "waiting cs got c \<longrightarrow> waiting cs got ?c" by (simp add: waiting_def)
  ultimately show ?thesis using c' by simp
qed

lemma client_reads_body:
  assumes "client_in pad as g True pos c" "as ! g = (i, b)" "\<forall>(i, b) \<in> set as. sendable b" "length pad = 6"
    "waiting cs (take g as) c" "i \<in> fst ` set cs" "i \<notin> fst ` set (take g as)"
    "drop_bit 63 i = 0"
  shows "\<exists>c'. on_client_body i req_res (length b) (Inr b) c = Some c' \<and>
    client_in pad as (Suc g) False (pos + length b) c' \<and> cl_pad c' = cl_pad c \<and>
    (client_out cs d c \<longrightarrow> client_out cs d c') \<and> waiting cs (take (Suc g) as) c'"
proof -
  have g: "g < length as" "cl_open c" "pos = frame_start (down_frames pad as) g + HEAD_LEN"
    "cl_resolved c = take g as"
    "filter is_read (cl_pending c) = [Op_read_body i req_res (length b)]"
    using assms(1,2) by (simp_all add: client_in_def)
  note frame = down_frame [OF g(1) assms(2-4)]
  have step: "frame_start (down_frames pad as) (Suc g) = pos + length b"
    using frame_start_Suc [of g "down_frames pad as"] g frame(1,2) by simp
  have waits: "i \<in> set (cl_futures c)" "distinct (cl_futures c)"
    using assms(5-7) by (auto simp: waiting_def)
  let ?c = "c\<lparr>cl_temp_req_id := i, cl_body := b @ drop (length b) (cl_body c),
    cl_resolved := take g as @ [(i, b)], cl_futures := remove1 i (cl_futures c),
    cl_pending := remove1 (Op_read_body i req_res (length b)) (cl_pending c) @ [Op_read_head]\<rparr>"
  have c': "on_client_body i req_res (length b) (Inr b) c = Some ?c"
    using g waits(1) assms(8) by (simp add: on_client_body_def call_back_def do_read_def Let_def)
  have "filter is_read (remove1 (Op_read_body i req_res (length b)) (cl_pending c)) = []"
    using g(5) by (simp add: filter_remove1_eq)
  moreover have take: "take (Suc g) as = take g as @ [(i, b)]" using g(1) assms(2) by (simp add: take_Suc_conv_app_nth)
  ultimately have "client_in pad as (Suc g) False (pos + length b) ?c"
    using g step by (simp add: client_in_def)
  moreover have "client_out cs d c \<longrightarrow> client_out cs d ?c"
    by (intro impI, erule client_out_cong) (simp_all add: count_remove1_other)
  moreover have "waiting cs (take (Suc g) as) ?c"
    using assms(5) waits(2) take by (auto simp: waiting_def)
  ultimately show ?thesis using c' by simp
qed

section \<open>Ids\<close>

lemma run_calls_ids:
  assumes "plain_router r" "short_names r" "run_calls r self cs w = (w', as)"
  shows "fst ` set as \<subseteq> fst ` set cs \<and> (distinct (map fst cs) \<longrightarrow> distinct (map fst as))"
  using assms(3)
proof (induction cs arbitrary: w w' as)
  case (Cons c cs)
  obtain i f q where c: "c = (i, f, q)" by (cases c)
  show ?case
  proof (cases rule: route_live [OF assms(1,2), of f q self i w])
    case (1 w1)
    then have "run_calls r self cs w1 = (w', as)" using Cons.prems by (simp add: c)
    then show ?thesis using Cons.IH [of w1 w' as] by (auto simp: c)
  next
    case (2 w1 b)
    obtain w2 bs where rest: "run_calls r self cs w1 = (w2, bs)" by fastforce
    then have "as = (i, b) # bs" using 2 Cons.prems by (simp add: c)
    then show ?thesis using Cons.IH [OF rest] by (auto simp: c)
  qed
qed simp

lemma request_id: "k < length calls \<Longrightarrow> fst (requests calls ! k) = of_nat (Suc k)"
  by (simp add: requests_def)

lemma unat_id: "Suc k < 2 ^ 64 \<Longrightarrow> unat (of_nat (Suc k) :: u64) = Suc k"
  by (subst unat_of_nat) simp

lemma distinct_requests:
  assumes "length calls < 2 ^ 63"
  shows "distinct (map fst (requests calls))"
proof -
  have "inj_on (\<lambda>k. of_nat (Suc k) :: u64) {0..<length calls}"
  proof (rule inj_onI)
    fix j k assume "j \<in> {0..<length calls}" "k \<in> {0..<length calls}" "(of_nat (Suc j) :: u64) = of_nat (Suc k)"
    then have "unat (of_nat (Suc j) :: u64) = unat (of_nat (Suc k) :: u64)" "Suc j < 2 ^ 64" "Suc k < 2 ^ 64"
      using assms by simp_all
    then show "j = k" by (simp only: unat_id)
  qed
  then show ?thesis by (simp add: requests_def distinct_map comp_def)
qed

lemma request_id_flag:
  assumes "length calls < 2 ^ 63" "i \<in> fst ` set (requests calls)"
  shows "drop_bit 63 i = 0"
proof -
  obtain k where k: "k < length calls" "i = of_nat (Suc k)"
    using assms(2) by (auto simp: in_set_conv_nth request_id requests_def)
  then have "unat i < 2 ^ 63" using assms(1) unat_id [of k] by simp
  then show ?thesis by (rule future_id_flag)
qed

text \<open>The id of a reply that was not read yet waits.\<close>

lemma unread_reply_waits:
  assumes "link_inv r self w0 cs as de kb gb l" "plain_router r" "short_names r" "g < length as" "as ! g = (i, b)"
  shows "i \<in> fst ` set cs" "i \<notin> fst ` set (take g as)" "drop_bit 63 i = 0"
proof -
  have cs: "cs = requests (lk_calls l)" "length (lk_calls l) < 2 ^ 63"
    and run: "run_calls r self (take (fst kb) cs) w0 = (lk_world l, as)"
    using assms(1) by (auto simp: link_inv_def waiting_def)
  have dist: "distinct (map fst cs)" using cs distinct_requests by simp
  then have "distinct (map fst (take (fst kb) cs))" by (simp flip: take_map)
  then have as: "fst ` set as \<subseteq> fst ` set (take (fst kb) cs)" "distinct (map fst as)"
    using run_calls_ids [OF assms(2,3) run] by blast+
  have "(i, b) \<in> set as" using assms(4,5) nth_mem by metis
  then show in_cs: "i \<in> fst ` set cs" using as(1) set_take_subset by force
  then show "drop_bit 63 i = 0" using request_id_flag cs by simp
  show "i \<notin> fst ` set (take g as)"
  proof
    assume "i \<in> fst ` set (take g as)"
    then obtain j where "j < g" "fst (as ! j) = i" using assms(4) by (auto simp: in_set_conv_nth)
    then show False using distinct_conv_nth [THEN iffD1, rule_format, OF as(2), of j g] assms(4,5) by simp
  qed
qed

section \<open>Every step keeps the invariant\<close>

text \<open>How much the system still has to do without further calls.\<close>

definition work :: "request list \<Rightarrow> (u64 \<times> bytes) list \<Rightarrow> nat \<times> nat \<Rightarrow> nat \<times> bool \<Rightarrow> nat \<times> bool \<Rightarrow> nat" where
  "work cs as de kb gb =
     (length cs - fst de) + (length as - snd de) +
     (8 * (length cs - fst kb) - (if snd kb then 1 else 0)) + (2 * (length as - fst gb) - (if snd gb then 1 else 0))"

lemma work_less:
  assumes "d \<le> length cs" "e \<le> length as" "k \<le> length cs" "g \<le> length as"
  shows "d < length cs \<Longrightarrow> work cs as (Suc d, e) kb' gb' < work cs as (d, e) kb' gb'"
    "e < length as \<Longrightarrow> work cs as (d, Suc e) kb' gb' < work cs as (d, e) kb' gb'"
    "k < length cs \<Longrightarrow> work cs as (d, e) (k, True) gb' < work cs as (d, e) (k, False) gb'"
    "g < length as \<Longrightarrow> work cs as (d, e) kb' (g, True) < work cs as (d, e) kb' (g, False)"
    "g < length as \<Longrightarrow> work cs as (d, e) kb' (Suc g, False) < work cs as (d, e) kb' (g, True)"
    "k < length cs \<Longrightarrow> length as' \<le> 1 \<Longrightarrow> work cs (as @ as') (d, e) (Suc k, False) (g, gb) < work cs as (d, e) (k, True) (g, gb)"
  using assms unfolding work_def fst_conv snd_conv if_True if_False length_append
  by (linarith, linarith, linarith, linarith, linarith) (cases gb; simp; linarith)

lemma link_invI:
  assumes "cs = requests (lk_calls l)" "run_calls r self (take k cs) w0 = (lk_world l, as)"
    "\<forall>(i, f, q) \<in> set cs. sendable q" "\<forall>(i, b) \<in> set as. sendable b"
    "client_out cs d (lk_client l)" "server_out as e (lk_conn l)"
    "server_in (cl_pad (lk_client l)) cs k kb (lk_up l) (lk_conn l)"
    "client_in (c_pad (lk_conn l)) as g gb (lk_down l) (lk_client l)"
    "waiting cs (take g as) (lk_client l)"
  shows "link_inv r self w0 cs as (d, e) (k, kb) (g, gb) l"
  using assms by (simp add: link_inv_def)

lemma inner_keeps_inv:
  assumes "link_inv r self w0 cs as (d, e) (k, kb) (g, gb) l" "plain_router r" "short_names r" "inner_step r self l l'"
  shows "\<exists>as' de' kb' gb'. link_inv r self w0 cs as' de' kb' gb' l' \<and> work cs as' de' kb' gb' < work cs as (d, e) (k, kb) (g, gb) \<and>
    lk_calls l' = lk_calls l"
proof -
  note inv = assms(1) [unfolded link_inv_def fst_conv snd_conv]
  from inv have cs: "cs = requests (lk_calls l)" and run: "run_calls r self (take k cs) w0 = (lk_world l, as)"
    and ok: "\<forall>(i, f, q) \<in> set cs. sendable q" "\<forall>(i, b) \<in> set as. sendable b"
    and co: "client_out cs d (lk_client l)" and so: "server_out as e (lk_conn l)"
    and si: "server_in (cl_pad (lk_client l)) cs k kb (lk_up l) (lk_conn l)"
    and ci: "client_in (c_pad (lk_conn l)) as g gb (lk_down l) (lk_client l)"
    and wt: "waiting cs (take g as) (lk_client l)"
    by blast+
  have pads: "length (cl_pad (lk_client l)) = 6" "length (c_pad (lk_conn l)) = 6"
    and open_s: "\<not> c_has_closed (lk_conn l)"
    using co so by (simp_all add: client_out_def server_out_def)
  have bounds: "d \<le> length cs" "e \<le> length as" "k \<le> length cs" "g \<le> length as" "kb \<longrightarrow> k < length cs" "gb \<longrightarrow> g < length as"
    using co so si ci by (auto simp: client_out_def server_out_def fifo_state_def server_in_def client_in_def split: if_splits)
  from assms(4) show ?thesis
  proof cases
    case (client_sent c')
    then have l': "l' = l\<lparr>lk_client := write_done (lk_client l)\<rparr>" using on_client_write_done by simp
    have "link_inv r self w0 cs as (Suc d, e) (k, kb) (g, gb) l'"
      unfolding l' using cs run ok so si client_out_sent(1) [OF co client_sent(2)] ci wt
      by (intro link_invI) (auto intro: client_in_cong waiting_cong)
    then show ?thesis using client_out_sent(2) [OF co client_sent(2)] l' bounds
      by (intro exI conjI) (assumption, simp_all add: work_less)
  next
    case server_head
    then have kb: "\<not> kb" using si by (auto simp: server_in_def split: if_splits)
    have pos: "lk_up l = frame_start (up_frames (cl_pad (lk_client l)) cs) k" using si kb by (simp add: server_in_def)
    have k: "k < Suc d \<and> k < length cs"
      using unread_exists [of HEAD_LEN "up_frames (cl_pad (lk_client l)) cs" k 0 "Suc d"] server_head(3) pos
      by (simp add: up_unread_def up_wire [OF co])
    obtain i f q where x: "cs ! k = (i, f, q)" by (cases "cs ! k")
    note fr = up_frame [OF conjunct2 [OF k] x ok(1) pads(1)]
    have got: "take HEAD_LEN (up_unread l) = header_memory (cl_pad (lk_client l)) (client_header (call_msg (i, f, q)))"
      using unread_frame(1) [OF _ _ fr(1,2), of "Suc d"] k by (simp add: up_unread_def up_wire [OF co] pos)
    have l': "l' = l\<lparr>lk_conn := on_read_head (Inr (header_memory (cl_pad (lk_client l)) (client_header (call_msg (i, f, q))))) (lk_conn l),
        lk_up := lk_up l + HEAD_LEN\<rparr>"
      using server_head(1) got by simp
    note step = server_reads_head [OF si [simplified kb] conjunct2 [OF k] x ok(1) pads(1)]
    have "link_inv r self w0 cs as (d, e) (k, True) (g, gb) l'"
      unfolding l' using cs run ok co ci wt step(1) step(2) [OF so] step(3) by (intro link_invI) simp_all
    then show ?thesis using k kb l' bounds by (intro exI conjI) (assumption, simp_all add: work_less)
  next
    case (server_body f n w' c' cb)
    then have kb: "kb" using si by (auto simp: server_in_def split: if_splits)
    then have k: "k < length cs" using bounds by simp
    obtain i f' q where x: "cs ! k = (i, f', q)" by (cases "cs ! k")
    have f: "f = f'" "n = length q" and pos: "lk_up l = frame_start (up_frames (cl_pad (lk_client l)) cs) k + HEAD_LEN"
      using si kb x server_body(2) by (simp_all add: server_in_def)
    note fr = up_frame [OF k x ok(1) pads(1)]
    have "0 < n" using fr(3) f by (simp add: sendable_def)
    then have kd: "k < Suc d"
      using unread_exists [of n "up_frames (cl_pad (lk_client l)) cs" k HEAD_LEN "Suc d"] server_body(3) pos
      by (simp add: up_unread_def up_wire [OF co])
    have got: "take n (up_unread l) = q"
      using unread_frame(2) [OF _ kd fr(1,2)] k f by (simp add: up_unread_def up_wire [OF co] pos)
    obtain w2 s2 as' where step: "on_read_body r self (Inr q) (lk_world l) (lk_conn l) = Some (w2, s2, None)"
      "server_in (cl_pad (lk_client l)) cs (Suc k) False (lk_up l + length q) s2" "c_pad s2 = c_pad (lk_conn l)"
      "server_out (as @ as') e s2" "run_calls r self (take (Suc k) cs) w0 = (w2, as @ as')"
      "\<forall>(i, b) \<in> set (as @ as'). sendable b" "length as' \<le> 1"
      using server_reads_body [OF si [simplified kb] x ok(1) pads(1) assms(2,3) so run ok(2)] by blast
    have l': "l' = l\<lparr>lk_conn := s2, lk_world := w2, lk_up := lk_up l + length q\<rparr>"
      using server_body(1,4) step(1) got f by simp
    have "client_in (c_pad s2) (as @ as') g gb (lk_down l) (lk_client l)"
      unfolding step(3) using ci by (rule client_in_append)
    then have "link_inv r self w0 cs (as @ as') (d, e) (Suc k, False) (g, gb) l'"
      unfolding l' using cs ok(1) co wt step(2,4-6) bounds(4) by (intro link_invI) simp_all
    then show ?thesis using k kb l' step(7) bounds by (intro exI conjI) (assumption, simp_all add: work_less)
  next
    case server_sent
    have "link_inv r self w0 cs as (d, Suc e) (k, kb) (g, gb) l'"
      unfolding server_sent(1) using cs run ok co ci wt server_out_sent(1) [OF so server_sent(2)] server_in_cong [OF si] open_s
      by (intro link_invI) simp_all
    then show ?thesis using server_out_sent(2) [OF so server_sent(2)] server_sent(1) bounds
      by (intro exI conjI) (assumption, simp_all add: work_less)
  next
    case (client_head c')
    have gb: "\<not> gb"
    proof
      assume gb
      then obtain i n where "filter is_read (cl_pending (lk_client l)) = [Op_read_body i req_res n]"
        using ci by (auto simp: client_in_def split: prod.splits)
      moreover have "Op_read_head \<in> set (filter is_read (cl_pending (lk_client l)))" using client_head(2) by simp
      ultimately show False by (simp only: list.set insert_iff empty_iff pending_op.distinct simp_thms)
    qed
    have pos: "lk_down l = frame_start (down_frames (c_pad (lk_conn l)) as) g" using ci gb by (simp add: client_in_def)
    have g: "g < Suc e \<and> g < length as"
      using unread_exists [of HEAD_LEN "down_frames (c_pad (lk_conn l)) as" g 0 "Suc e"] client_head(3) pos
      by (simp add: down_unread_def down_wire [OF so])
    obtain i b where x: "as ! g = (i, b)" by (cases "as ! g")
    note fr = down_frame [OF conjunct2 [OF g] x ok(2) pads(2)]
    have got: "take HEAD_LEN (down_unread l) = header_memory (c_pad (lk_conn l)) (message_header (reply_msg (i, b)))"
      using unread_frame(1) [OF _ _ fr(1,2), of "Suc e"] g by (simp add: down_unread_def down_wire [OF so] pos)
    have step: "client_in (c_pad (lk_conn l)) as g True (lk_down l + HEAD_LEN) c'" "cl_pad c' = cl_pad (lk_client l)"
      "client_out cs d c'" "waiting cs (take g as) c'"
      using client_reads_head [OF ci [simplified gb] conjunct2 [OF g] x ok(2) pads(2), of cs d "take g as"]
        client_head(4) got co wt by auto
    have "link_inv r self w0 cs as (d, e) (k, kb) (g, True) l'"
      unfolding client_head(1) using cs run ok so si step by (intro link_invI) simp_all
    then show ?thesis using g gb client_head(1) bounds by (intro exI conjI) (assumption, simp_all add: work_less)
  next
    case (client_body i ty n c')
    have reads: "Op_read_body i ty n \<in> set (filter is_read (cl_pending (lk_client l)))" using client_body(2) by simp
    have gb: gb
    proof (rule ccontr)
      assume "\<not> gb"
      then have "filter is_read (cl_pending (lk_client l)) = [Op_read_head]" using ci by (simp add: client_in_def)
      then show False using reads by (simp only: list.set insert_iff empty_iff pending_op.distinct simp_thms)
    qed
    then have g: "g < length as" using bounds by simp
    obtain i' b where x: "as ! g = (i', b)" by (cases "as ! g")
    have i: "i = i'" "ty = req_res" "n = length b"
      and pos: "lk_down l = frame_start (down_frames (c_pad (lk_conn l)) as) g + HEAD_LEN"
    proof -
      have c: "filter is_read (cl_pending (lk_client l)) = [Op_read_body i' req_res (length b)]"
        "lk_down l = frame_start (down_frames (c_pad (lk_conn l)) as) g + HEAD_LEN"
        using ci gb x by (simp_all add: client_in_def)
      then show "i = i'" "ty = req_res" "n = length b"
        using reads by (simp_all only: list.set insert_iff empty_iff pending_op.inject simp_thms)
      show "lk_down l = frame_start (down_frames (c_pad (lk_conn l)) as) g + HEAD_LEN" by (rule c)
    qed
    note fr = down_frame [OF g x ok(2) pads(2)]
    have "0 < n" using fr(3) i by (simp add: sendable_def)
    then have ge: "g < Suc e"
      using unread_exists [of n "down_frames (c_pad (lk_conn l)) as" g HEAD_LEN "Suc e"] client_body(3) pos
      by (simp add: down_unread_def down_wire [OF so])
    have got: "take n (down_unread l) = b"
      using unread_frame(2) [OF _ ge fr(1,2)] g i by (simp add: down_unread_def down_wire [OF so] pos)
    have step: "client_in (c_pad (lk_conn l)) as (Suc g) False (lk_down l + length b) c'" "cl_pad c' = cl_pad (lk_client l)"
      "client_out cs d c'" "waiting cs (take (Suc g) as) c'"
      using client_reads_body [OF ci [simplified gb] x ok(2) pads(2) wt unread_reply_waits [OF assms(1-3) g x], of d]
        client_body(4) got co i by auto
    have "link_inv r self w0 cs as (d, e) (k, kb) (Suc g, False) l'"
      unfolding client_body(1) using cs run ok so si step i by (intro link_invI) simp_all
    then show ?thesis using g gb client_body(1) bounds by (intro exI conjI) (assumption, simp_all add: work_less)
  qed
qed

lemma call_keeps_inv:
  assumes "link_inv r self w0 cs as (d, e) (k, kb) (g, gb) l"
    and "async_call_future name args (lk_client l) = Some (c', Inr i)" "Suc (length (lk_calls l)) < 2 ^ 63"
  shows "link_inv r self w0 (cs @ [(i, hash_name name, packed args)]) as (d, e) (k, kb) (g, gb)
    (l\<lparr>lk_client := c', lk_calls := lk_calls l @ [(name, args)]\<rparr>)"
proof -
  note inv = assms(1) [unfolded link_inv_def fst_conv snd_conv]
  from inv have cs: "cs = requests (lk_calls l)" and run: "run_calls r self (take k cs) w0 = (lk_world l, as)"
    and ok: "\<forall>(i, f, q) \<in> set cs. sendable q" "\<forall>(i, b) \<in> set as. sendable b"
    and co: "client_out cs d (lk_client l)" and so: "server_out as e (lk_conn l)"
    and si: "server_in (cl_pad (lk_client l)) cs k kb (lk_up l) (lk_conn l)"
    and ci: "client_in (c_pad (lk_conn l)) as g gb (lk_down l) (lk_client l)"
    and wt: "waiting cs (take g as) (lk_client l)"
    by blast+
  let ?x = "(i, hash_name name, packed args)"
  note eff = call_effect [OF assms(2)]
  have i: "i = of_nat (Suc (length cs))" using eff(1) wt by (simp add: waiting_def)
  have c': "c' = enqueue_message (call_msg ?x) ((lk_client l)\<lparr>cl_fu_id := i, cl_futures := List.insert i (cl_futures (lk_client l))\<rparr>)"
    using eff(2) by simp
  have k: "k \<le> length cs" using si by (simp add: server_in_def)
  have out': "client_out (cs @ [?x]) d c'" unfolding c' using co by (rule client_out_call)
  have in': "client_in (c_pad (lk_conn l)) as g gb (lk_down l) c'"
    using ci by (rule client_in_cong) (simp_all add: c')
  have "waiting (cs @ [?x]) (take g as) c'"
    using wt assms(3) cs i unfolding c' by (auto simp: waiting_def)
  then show ?thesis
    using cs run ok so server_in_append [OF si, of "[?x]"] out' in' eff(3) k i
    by (intro link_invI) (simp_all add: requests_snoc c')
qed

lemma start_inv:
  assumes "connected_client host port ok cpad h = Some c" "length cpad = 6" "length pad = 6"
  shows "link_inv r self w0 [] [] (0, 0) (0, False) (0, False) (new_link c (new_connection pad i ty hdr t) w0)"
proof -
  have c: "c = (new_client host port ok cpad h)\<lparr>cl_open := True, cl_pending := [Op_read_head], cl_has_connected := True\<rparr>"
    using assms(1)
    by (auto simp: connected_client_def async_connect_def in_handler_def on_connect_def new_client_def do_read_def resend_subscribe_def
        Let_def split: if_splits)
  show ?thesis
    unfolding new_link_def using assms(2,3)
    by (intro link_invI)
      (simp_all add: c requests_def client_out_def server_out_def server_in_def client_in_def waiting_def
        new_client_def new_connection_def start_def read_head_def reset_timer_def fifo_state_def one_write_def)
qed

definition link_good :: "('w, 'c) router \<Rightarrow> 'c \<Rightarrow> 'w \<Rightarrow> 'w link \<Rightarrow> bool" where
  "link_good r self w0 l \<longleftrightarrow> plain_router r \<and> short_names r \<and>
     (\<exists>cs as d e k kb g gb. link_inv r self w0 cs as (d, e) (k, kb) (g, gb) l)"

lemma link_goodI:
  "plain_router r \<Longrightarrow> short_names r \<Longrightarrow> link_inv r self w0 cs as de kb gb l \<Longrightarrow> link_good r self w0 l"
  unfolding link_good_def by (cases de; cases kb; cases gb) blast

interpretation link_sys: invariant_system "link_step r self" "link_good r self w0" for r self w0
proof
  fix l l' assume step: "link_step r self l l'" and good: "link_good r self w0 l"
  then obtain cs as d e k kb g gb where r: "plain_router r" "short_names r"
    and inv: "link_inv r self w0 cs as (d, e) (k, kb) (g, gb) l"
    unfolding link_good_def by blast
  from step show "link_good r self w0 l'"
  proof cases
    case inner
    then show ?thesis using inner_keeps_inv [OF inv r] link_goodI [OF r] by blast
  next
    case (call name args c' i)
    then show ?thesis using call_keeps_inv [OF inv call(2,3)] link_goodI [OF r] by blast
  qed
qed

lemma reachable_inv:
  assumes "reachable_link r self w0 l" "plain_router r" "short_names r"
  obtains cs as d e k kb g gb where "link_inv r self w0 cs as (d, e) (k, kb) (g, gb) l"
proof -
  obtain host port ok cpad h c pad i ty hdr t where
    start: "connected_client host port ok cpad h = Some c" "length cpad = 6" "length pad = 6"
    and run: "(link_step r self)\<^sup>*\<^sup>* (new_link c (new_connection pad i ty hdr t) w0) l"
    using assms(1) unfolding reachable_link_def by blast
  have "link_good r self w0 (new_link c (new_connection pad i ty hdr t) w0)"
    by (rule link_goodI [OF assms(2,3) start_inv [OF start]])
  from link_sys.reachable_good [OF run this] show thesis unfolding link_good_def using that by blast
qed

section \<open>Progress\<close>

text \<open>As long as a call is not served or a reply not read, some operation can complete.\<close>

lemma inner_enabled:
  assumes "link_inv r self w0 cs as (d, e) (k, kb) (g, gb) l" "plain_router r" "short_names r"
    and "\<not> (k = length cs \<and> g = length as)"
  shows "\<exists>l'. inner_step r self l l'"
proof -
  note inv = assms(1) [unfolded link_inv_def fst_conv snd_conv]
  from inv have run: "run_calls r self (take k cs) w0 = (lk_world l, as)"
    and ok: "\<forall>(i, f, q) \<in> set cs. sendable q" "\<forall>(i, b) \<in> set as. sendable b"
    and co: "client_out cs d (lk_client l)" and so: "server_out as e (lk_conn l)"
    and si: "server_in (cl_pad (lk_client l)) cs k kb (lk_up l) (lk_conn l)"
    and ci: "client_in (c_pad (lk_conn l)) as g gb (lk_down l) (lk_client l)"
    and wt: "waiting cs (take g as) (lk_client l)"
    by blast+
  have pads: "length (cl_pad (lk_client l)) = 6" "length (c_pad (lk_conn l)) = 6"
    using co so by (simp_all add: client_out_def server_out_def)
  have bounds: "k \<le> length cs" "g \<le> length as"
    using si ci by (auto simp: server_in_def client_in_def split: if_splits)
  show ?thesis
  proof (cases "k < length cs")
    case True
    show ?thesis
    proof (cases "k < Suc d")
      case False
      then have "Op_write \<in> set (cl_pending (lk_client l))" using co True by (simp add: client_out_def fifo_state_def)
      from inner_step.client_sent [OF this on_client_write_done] show ?thesis by (rule exI)
    next
      case kd: True
      obtain i f q where x: "cs ! k = (i, f, q)" by (cases "cs ! k")
      note fr = up_frame [OF True x ok(1) pads(1)]
      have len: "k < length (up_frames (cl_pad (lk_client l)) cs)" using True by simp
      note un = unread_frame [OF len kd fr(1,2)]
      show ?thesis
      proof (cases kb)
        case False
        then have "c_reading (lk_conn l) = Head_read" "HEAD_LEN \<le> length (up_unread l)"
          using si un(3) by (simp_all add: server_in_def up_unread_def up_wire [OF co])
        from inner_step.server_head [OF this] show ?thesis by (rule exI)
      next
        case kb: True
        then have s: "c_reading (lk_conn l) = Body_read f (length q)" "length q \<le> length (up_unread l)"
          "take (length q) (up_unread l) = q"
          using si x un(2,4) by (simp_all add: server_in_def up_unread_def up_wire [OF co])
        obtain w2 s2 where "on_read_body r self (Inr q) (lk_world l) (lk_conn l) = Some (w2, s2, None)"
          using server_reads_body [OF si [simplified kb] x ok(1) pads(1) assms(2,3) so run ok(2)] by blast
        then have "on_read_body r self (Inr (take (length q) (up_unread l))) (lk_world l) (lk_conn l) = Some (w2, s2, None)"
          by (simp only: s(3))
        from inner_step.server_body [OF s(1,2) this] show ?thesis by (rule exI)
      qed
    qed
  next
    case False
    then have g: "g < length as" using assms(4) bounds by auto
    show ?thesis
    proof (cases "g < Suc e")
      case False
      then have "c_writing (lk_conn l)" using so g by (simp add: server_out_def fifo_state_def)
      from inner_step.server_sent [OF this] show ?thesis by (rule exI)
    next
      case ge: True
      obtain i b where x: "as ! g = (i, b)" by (cases "as ! g")
      note fr = down_frame [OF g x ok(2) pads(2)]
      have len: "g < length (down_frames (c_pad (lk_conn l)) as)" using g by simp
      note un = unread_frame [OF len ge fr(1,2)]
      show ?thesis
      proof (cases gb)
        case False
        then have "filter is_read (cl_pending (lk_client l)) = [Op_read_head]" using ci by (simp add: client_in_def)
        then have "Op_read_head \<in> set (cl_pending (lk_client l))" using filter_is_subset [of is_read "cl_pending (lk_client l)"] by simp
        moreover have "HEAD_LEN \<le> length (down_unread l)"
          "take HEAD_LEN (down_unread l) = header_memory (c_pad (lk_conn l)) (message_header (reply_msg (i, b)))"
          using ci False un(1,3) by (simp_all add: client_in_def down_unread_def down_wire [OF so])
        moreover obtain c' where
          "on_client_head (Inr (header_memory (c_pad (lk_conn l)) (message_header (reply_msg (i, b))))) (lk_client l) = Some c'"
          using client_reads_head [OF ci [simplified False simp_thms] g x ok(2) pads(2)] by blast
        ultimately have "inner_step r self l (l\<lparr>lk_client := c', lk_down := lk_down l + HEAD_LEN\<rparr>)"
          by (intro inner_step.client_head) (simp_all only:)
        then show ?thesis by (rule exI)
      next
        case gb: True
        then have "filter is_read (cl_pending (lk_client l)) = [Op_read_body i req_res (length b)]"
          using ci x by (simp add: client_in_def)
        then have "Op_read_body i req_res (length b) \<in> set (cl_pending (lk_client l))"
          using filter_is_subset [of is_read "cl_pending (lk_client l)"] by simp
        moreover have "length b \<le> length (down_unread l)" "take (length b) (down_unread l) = b"
          using ci gb un(2,4) by (simp_all add: client_in_def down_unread_def down_wire [OF so])
        moreover obtain c' where "on_client_body i req_res (length b) (Inr b) (lk_client l) = Some c'"
          using client_reads_body [OF ci [simplified gb] x ok(2) pads(2) wt unread_reply_waits [OF assms(1-3) g x]] by blast
        ultimately have "inner_step r self l (l\<lparr>lk_client := c', lk_down := lk_down l + length b\<rparr>)"
          by (intro inner_step.client_body) (simp_all only:)
        then show ?thesis by (rule exI)
      qed
    qed
  qed
qed

section \<open>All is done at the end\<close>

lemma done_result:
  assumes "link_inv r self w0 cs as de kb gb l" "fst kb = length cs" "fst gb = length as"
  shows "run_calls r self (requests (lk_calls l)) w0 = (lk_world l, cl_resolved (lk_client l))"
  using assms by (auto simp: link_inv_def client_in_def)

text \<open>The composed system with the work it has left, between two calls.\<close>

definition link_at :: "('w, 'c) router \<Rightarrow> 'c \<Rightarrow> 'w \<Rightarrow> (bytes \<times> cval list) list \<Rightarrow> nat \<Rightarrow> 'w link \<Rightarrow> bool" where
  "link_at r self w0 calls n l \<longleftrightarrow> plain_router r \<and> short_names r \<and> lk_calls l = calls \<and>
     (\<exists>as d e k kb g gb. link_inv r self w0 (requests calls) as (d, e) (k, kb) (g, gb) l \<and>
        n = work (requests calls) as (d, e) (k, kb) (g, gb))"

lemma link_atI:
  "plain_router r \<Longrightarrow> short_names r \<Longrightarrow> lk_calls l = calls \<Longrightarrow> link_inv r self w0 (requests calls) as de kb gb l \<Longrightarrow>
   link_at r self w0 calls (work (requests calls) as de kb gb) l"
  unfolding link_at_def by (cases de; cases kb; cases gb) blast

interpretation quiet: decreasing_system "inner_step r self" "link_at r self w0 calls" for r self w0 calls
proof
  fix n l l' assume good: "link_at r self w0 calls n l" and step: "inner_step r self l l'"
  then obtain as d e k kb g gb where r: "plain_router r" "short_names r" "lk_calls l = calls"
    and inv: "link_inv r self w0 (requests calls) as (d, e) (k, kb) (g, gb) l"
    and n: "n = work (requests calls) as (d, e) (k, kb) (g, gb)"
    unfolding link_at_def by blast
  from inner_keeps_inv [OF inv r(1,2) step] obtain as' de' kb' gb' where
    "link_inv r self w0 (requests calls) as' de' kb' gb' l'" "lk_calls l' = lk_calls l"
    "work (requests calls) as' de' kb' gb' < n" unfolding n by blast
  then show "\<exists>m < n. link_at r self w0 calls m l'" using link_atI [OF r(1,2)] r(3) by metis
qed

lemma reachable_at:
  assumes "reachable_link r self w0 l" "plain_router r" "short_names r"
  obtains n where "link_at r self w0 (lk_calls l) n l"
proof -
  obtain cs as d e k kb g gb where inv: "link_inv r self w0 cs as (d, e) (k, kb) (g, gb) l"
    by (rule reachable_inv [OF assms])
  then have "cs = requests (lk_calls l)" by (simp add: link_inv_def)
  then show thesis using link_atI [OF assms(2,3) refl] inv that by blast
qed

text \<open>Wherever the system stops by itself, it has executed all calls.\<close>

lemma stopped_result:
  assumes "reachable_link r self w0 l" "plain_router r" "short_names r"
    and "(inner_step r self)\<^sup>*\<^sup>* l l'" "\<nexists>l''. inner_step r self l' l''"
  shows "run_calls r self (requests (lk_calls l)) w0 = (lk_world l', cl_resolved (lk_client l'))"
proof -
  obtain n where "link_at r self w0 (lk_calls l) n l" by (rule reachable_at [OF assms(1-3)])
  then have "\<exists>m. link_at r self w0 (lk_calls l) m l'" using quiet.any.reachable_good [OF assms(4)] by blast
  then obtain as d e k kb g gb where inv: "link_inv r self w0 (requests (lk_calls l)) as (d, e) (k, kb) (g, gb) l'"
    and calls: "lk_calls l' = lk_calls l" unfolding link_at_def by blast
  then have "k = length (requests (lk_calls l)) \<and> g = length as"
    using inner_enabled [OF inv assms(2,3)] assms(5) by blast
  then show ?thesis using done_result [OF inv] calls by simp
qed

lemma stops:
  assumes "reachable_link r self w0 l" "plain_router r" "short_names r"
  obtains l' where "(inner_step r self)\<^sup>*\<^sup>* l l'" "\<nexists>l''. inner_step r self l' l''"
    "run_calls r self (requests (lk_calls l)) w0 = (lk_world l', cl_resolved (lk_client l'))"
proof -
  obtain n where "link_at r self w0 (lk_calls l) n l" by (rule reachable_at [OF assms])
  from quiet.run_ends [OF this] show thesis using that stopped_result [OF assms] by blast
qed

text \<open>A call that is answered alike in every state of the server has that answer among the replies.\<close>

lemma run_calls_answer:
  assumes "c \<in> set cs" "c = (i, f, q)" "\<And>w. \<exists>w'. route r f q (Some (self, i)) w = (w', Inr (Some a))"
  shows "a \<in> set (snd (run_calls r self cs w))"
  using assms(1)
proof (induction cs arbitrary: w)
  case (Cons x cs)
  obtain j g p where x: "x = (j, g, p)" by (cases x)
  show ?case
  proof (cases "x = c")
    case True
    obtain w' where "route r f q (Some (self, i)) w = (w', Inr (Some a))" using assms(3) by blast
    then show ?thesis using True assms(2) by (auto simp: x split: prod.splits)
  next
    case False
    then have "a \<in> set (snd (run_calls r self cs w'))" for w' using Cons by simp
    then show ?thesis by (auto simp: x split: prod.splits sum.splits option.splits) (metis snd_conv)+
  qed
qed simp

section \<open>Properties of calls\<close>

text \<open>C2. The client, the two byte streams, the connection and the router together implement the
  sequential execution of the calls: whatever the interleaving of calls, writes and reads, the
  server's state is that after executing a prefix of the calls in the order they were made, and the
  futures resolved so far are a prefix of the answers of that execution, each under the id of its
  call.\<close>

theorem link_refines_calls:
  assumes "reachable_link r self w0 l" "plain_router r" "short_names r"
  shows "\<exists>served got. served \<le> length (lk_calls l) \<and>
    fst (run_calls r self (take served (requests (lk_calls l))) w0) = lk_world l \<and>
    take got (snd (run_calls r self (take served (requests (lk_calls l))) w0)) = cl_resolved (lk_client l)"
proof -
  obtain cs as d e k kb g gb where inv: "link_inv r self w0 cs as (d, e) (k, kb) (g, gb) l"
    by (rule reachable_inv [OF assms])
  then show ?thesis
    by (intro exI [of _ k] exI [of _ g]) (auto simp: link_inv_def client_in_def server_in_def)
qed

text \<open>C1. Every run without new calls is finite, and where it stops, all calls have been executed in
  order and every answer has resolved its future: no interleaving loses, duplicates or blocks a
  call. As in the next two properties, the functions of the router have no wide strings as parameters
  (\<open>plain_router\<close>), for which an unsuitable request would be undefined behaviour, and their names are
  shorter than the message limit.\<close>

theorem all_calls_answered:
  assumes "reachable_link r self w0 l" "plain_router r" "short_names r"
  shows "(\<exists>l'. (inner_step r self)\<^sup>*\<^sup>* l l' \<and> (\<nexists>l''. inner_step r self l' l'')) \<and>
    (\<nexists>f. f 0 = l \<and> (\<forall>n. inner_step r self (f n) (f (Suc n)))) \<and>
    (\<forall>l'. (inner_step r self)\<^sup>*\<^sup>* l l' \<longrightarrow> (\<nexists>l''. inner_step r self l' l'') \<longrightarrow>
       run_calls r self (requests (lk_calls l)) w0 = (lk_world l', cl_resolved (lk_client l')))"
proof (intro conjI allI impI notI)
  show "\<exists>l'. (inner_step r self)\<^sup>*\<^sup>* l l' \<and> (\<nexists>l''. inner_step r self l' l'')"
    using stops [OF assms] by metis
  show "run_calls r self (requests (lk_calls l)) w0 = (lk_world l', cl_resolved (lk_client l'))"
    if "(inner_step r self)\<^sup>*\<^sup>* l l'" "\<nexists>l''. inner_step r self l' l''" for l'
    using stopped_result [OF assms that] .
next
  assume "\<exists>f. f 0 = l \<and> (\<forall>n. inner_step r self (f n) (f (Suc n)))"
  then obtain f where f: "f 0 = l" "\<forall>n. inner_step r self (f n) (f (Suc n))" by blast
  obtain n where "link_at r self w0 (lk_calls l) n (f 0)" unfolding f(1) by (rule reachable_at [OF assms])
  from quiet.no_infinite_run [of _ _ _ _ _ f, OF this] f(2) show False by blast
qed

text \<open>C3. A remote call returns what the function returns: if the name is registered as a synchronous
  function, the arguments have its types and it yields \<open>v\<close> for them, then without further calls the
  system gets to where the future of the call is resolved and \<open>call<T>\<close> yields \<open>v\<close>.\<close>

theorem rpc_call_returns:
  assumes "reachable_link r self w0 l" "plain_router r" "short_names r"
    and "k < length (lk_calls l)" "lk_calls l ! k = (name, args)"
    and "map_invokers r (hash_name name) = Some (invoker_apply sync f)"
    and "list_all2 has_type args (hd_args f)" "fits (V_tuple args)"
    and "\<And>w. \<exists>w'. hd_call f w self args = (w', Inr (Some v))" "has_type v t" "fits v"
    and "\<forall>b. pack_args_str RC_OK [v] = Inr b \<longrightarrow> length b < MAX_BUF_LEN"
  shows "\<exists>l' reply. (inner_step r self)\<^sup>*\<^sup>* l l' \<and> (of_nat (Suc k), reply) \<in> set (cl_resolved (lk_client l')) \<and>
    call_result t (Fut_ready reply) = Inr v"
proof -
  obtain reply where rep: "pack_args_str RC_OK [v] = Inr reply" "reply \<noteq> []"
    "codec_unpack (T_tuple [T_int]) reply = Inr (V_tuple [V_int 0])"
    "codec_unpack (T_tuple [T_int, t]) reply = Inr (V_tuple [V_int 0, v])"
    by (rule reply_ok_bytes [OF assms(10,11)])
  have ok: "pack_args_str RC_OK (case Some v of None \<Rightarrow> [] | Some x \<Rightarrow> [x]) = Inr reply" "length reply < MAX_BUF_LEN"
    using rep(1) assms(12) by auto
  obtain request where req: "pack_args args = Inr request"
    using registered_answer(2) [OF assms(6-8) _ ok] assms(9) by metis
  have answer: "\<exists>w'. route r (hash_name name) request (Some (self, i)) w = (w', Inr (Some (i, reply)))" for i w
    using registered_answer(1) [OF assms(6-8) _ ok req] assms(9) by metis
  let ?c = "(of_nat (Suc k) :: u64, hash_name name, request)"
  have "requests (lk_calls l) ! k = ?c" using assms(4,5) req by (simp add: requests_def packed_def)
  then have "?c \<in> set (requests (lk_calls l))" using assms(4) nth_mem [of k "requests (lk_calls l)"] by simp
  from run_calls_answer [OF this refl answer]
  have in_replies: "(of_nat (Suc k), reply) \<in> set (snd (run_calls r self (requests (lk_calls l)) w0))" .
  obtain l' where "(inner_step r self)\<^sup>*\<^sup>* l l'"
    "run_calls r self (requests (lk_calls l)) w0 = (lk_world l', cl_resolved (lk_client l'))"
    by (rule stops [OF assms(1-3)])
  moreover have "call_result t (Fut_ready reply) = Inr v"
    using rep by (simp add: call_result_def req_as_def has_error_def get_result_def)
  ultimately show ?thesis using in_replies by auto
qed

text \<open>The witnesses: a server with one function, and a client that has just called it.\<close>

definition add_handler :: "(nat, unit) handler" where
  "add_handler = \<lparr>hd_args = [T_int, T_int],
     hd_call = (\<lambda>w c vs. (w + 1, case vs of [V_int a, V_int b] \<Rightarrow> Inr (Some (V_int (a + b))) | _ \<Rightarrow> Inr None))\<rparr>"

definition add_router :: "(nat, unit) router" where
  "add_router = register_handler sync (lit ''add'') add_handler empty_router"

lemma add_router_ok: "plain_router add_router" "short_names add_router"
proof -
  show "plain_router add_router" unfolding add_router_def by (intro plain_register plain_empty) (simp add: add_handler_def)
  show "short_names add_router"
    unfolding add_router_def by (intro short_names_register short_names_empty) (simp add: lit_def)
qed

lemma one_call_reachable:
  obtains l where "reachable_link add_router () 5 l" "lk_calls l = [(lit ''add'', [V_int 1, V_int 2])]"
proof -
  let ?pad = "[0, 0, 0, 0, 0, 0]" and ?hdr = blank_header
  obtain c where c: "connected_client [] 9000 (\<lambda>_. True) ?pad ?hdr = Some c" "cl_fu_id c = 0" "cl_outbox c = []"
    by (auto simp: connected_client_def async_connect_def in_handler_def on_connect_def new_client_def do_read_def resend_subscribe_def Let_def)
  let ?l = "new_link c (new_connection ?pad 0 0 ?hdr 0) (5 :: nat)"
  obtain c' where c': "async_call_future (lit ''add'') [V_int 1, V_int 2] c = Some (c', Inr 1)"
    using c(2) by (simp add: async_call_future_def pack_args_def append_res_def pack_array_def pack_int_def
        pack_imp_int32_def client_write_def MAX_BUF_LEN_def Let_def)
  have "link_step add_router () ?l (?l\<lparr>lk_client := c', lk_calls := lk_calls ?l @ [(lit ''add'', [V_int 1, V_int 2])]\<rparr>)"
    using c' by (intro link_step.call) (simp_all add: new_link_def)
  from reachable_linkI [OF c(1) _ _ r_into_rtranclp [where r = "link_step add_router ()", OF this]]
  have "reachable_link add_router () 5 (?l\<lparr>lk_client := c', lk_calls := lk_calls ?l @ [(lit ''add'', [V_int 1, V_int 2])]\<rparr>)"
    by simp
  then show thesis by (rule that) (simp add: new_link_def)
qed

theorem link_refines_calls_witness:
  "\<exists>(l :: nat link) served got. lk_calls l = [(lit ''add'', [V_int 1, V_int 2])] \<and> served \<le> 1 \<and>
    fst (run_calls add_router () (take served (requests (lk_calls l))) 5) = lk_world l \<and>
    take got (snd (run_calls add_router () (take served (requests (lk_calls l))) 5)) = cl_resolved (lk_client l)"
proof -
  obtain l where l: "reachable_link add_router () 5 l" "lk_calls l = [(lit ''add'', [V_int 1, V_int 2])]"
    by (rule one_call_reachable)
  obtain served got where "served \<le> length (lk_calls l)"
    "fst (run_calls add_router () (take served (requests (lk_calls l))) 5) = lk_world l"
    "take got (snd (run_calls add_router () (take served (requests (lk_calls l))) 5)) = cl_resolved (lk_client l)"
    using link_refines_calls [OF l(1) add_router_ok] by blast
  then show ?thesis using l(2) by (intro exI [of _ l] exI [of _ served] exI [of _ got]) simp
qed

theorem all_calls_answered_witness:
  "\<exists>(l :: nat link) l'. lk_calls l = [(lit ''add'', [V_int 1, V_int 2])] \<and> (inner_step add_router ())\<^sup>*\<^sup>* l l' \<and>
    run_calls add_router () (requests (lk_calls l)) 5 = (lk_world l', cl_resolved (lk_client l'))"
proof -
  obtain l where l: "reachable_link add_router () 5 l" "lk_calls l = [(lit ''add'', [V_int 1, V_int 2])]"
    by (rule one_call_reachable)
  show ?thesis using all_calls_answered [OF l(1) add_router_ok] l(2) by blast
qed

theorem rpc_call_returns_witness:
  "\<exists>(l :: nat link) l' reply. lk_calls l = [(lit ''add'', [V_int 1, V_int 2])] \<and> (inner_step add_router ())\<^sup>*\<^sup>* l l' \<and>
    (1, reply) \<in> set (cl_resolved (lk_client l')) \<and> call_result T_int (Fut_ready reply) = Inr (V_int 3)"
proof -
  obtain l where l: "reachable_link add_router () 5 l" "lk_calls l = [(lit ''add'', [V_int 1, V_int 2])]"
    by (rule one_call_reachable)
  have "\<exists>l' reply. (inner_step add_router ())\<^sup>*\<^sup>* l l' \<and> (of_nat (Suc 0), reply) \<in> set (cl_resolved (lk_client l')) \<and>
      call_result T_int (Fut_ready reply) = Inr (V_int 3)"
    by (rule rpc_call_returns [OF l(1) add_router_ok, where name = "lit ''add''" and args = "[V_int 1, V_int 2]" and f = add_handler])
      (simp_all add: l(2) add_router_def add_handler_def pack_args_str_def append_res_def pack_array_def pack_int_def
        pack_imp_int32_def MAX_BUF_LEN_def)
  then show ?thesis using l(2) by auto
qed

section \<open>Subscriptions and publications\<close>

lemma subscribe_message:
  assumes "subscribe_token key token fn c = Some (c1, Inr u)" "map_of (cl_sub_map c) (key @ token) = None"
  obtains b where "pack_args [V_string key, V_string token] = Inr b" "sendable b"
    "cl_outbox c1 = cl_outbox c @ [\<lparr>cm_req_id = 0, cm_req_type = sub_pub, cm_content = b, cm_func_id = hash_name key\<rparr>]"
    "map_of (cl_sub_map c1) (key @ token) = Some fn"
proof -
  obtain b where b: "pack_args [V_string key, V_string token] = Inr b" "length b < MAX_BUF_LEN"
    "cl_outbox c1 = cl_outbox c @ [\<lparr>cm_req_id = 0, cm_req_type = sub_pub, cm_content = b, cm_func_id = hash_name key\<rparr>]"
    "map_of (cl_sub_map c1) (key @ token) = Some fn"
    using assms
    by (auto simp: subscribe_token_def send_subscribe_def client_write_def outbox_defs
        split: option.splits sum.splits if_splits prod.splits)
  have "b \<noteq> []" using b(1) unfolding pack_args_def by (rule mp.pack_nonempty)
  then show thesis using that b by (simp add: sendable_def)
qed

text \<open>What a subscription is for the server that reads it.\<close>

lemma subscription_read:
  assumes "length pad = 6" "length key < 1000000" "length token < 1000000"
    and "pack_args [V_string key, V_string token] = Inr b" "sendable b"
    and "m = \<lparr>cm_req_id = 0, cm_req_type = sub_pub, cm_content = b, cm_func_id = f\<rparr>"
    and "c_reading s = Head_read" "c_open s"
  shows "\<exists>s'. on_body_bytes (Inr (drop HEAD_LEN (client_frame pad m)))
      (on_read_head (Inr (take HEAD_LEN (client_frame pad m))) s) = (s', Subscribe_event key token) \<and>
    c_reading s' = Head_read"
proof -
  have frame: "client_frame pad m = header_memory pad (client_header m) @ b"
    "unat (h_body_len (client_header m)) = length b"
    using assms(5,6) by (simp_all add: client_frame_def client_header_def sendable_def unat_of_nat MAX_BUF_LEN_def)
  have args: "codec_unpack (T_tuple [T_string, T_string]) b = Inr (V_tuple [V_string key, V_string token])"
    using mp.unpack_pack_exact [of "V_tuple [V_string key, V_string token]" "T_tuple [T_string, T_string]" b] assms(2-4)
    by (simp add: pack_args_def)
  have "on_read_head (Inr (header_memory pad (client_header m))) s =
      s\<lparr>c_req_id := 0, c_req_type := sub_pub, c_body := resize_body (length b) (c_body s),
        c_reading := Body_read f (length b)\<rparr>"
    using assms(1,5-8) frame(2) by (subst read_request_head) (simp_all add: client_header_def sendable_def)
  then show ?thesis
    using args assms(8) frame(1) length_header_memory [OF assms(1)]
    by (simp add: on_body_bytes_def cancel_timer_def read_head_def reset_timer_def req_res_def sub_pub_def Let_def)
qed

lemma publish_message:
  assumes "publish_conn ck data s = Some (Inr s1)" "length ck < 2 ^ 32"
  obtains p where "c_write_queue s1 = c_write_queue s @ [\<lparr>m_req_id = 0, m_req_type = sub_pub, m_content = p\<rparr>]"
    "sendable p" "codec_unpack (T_tuple [T_int, T_string, T_string]) p = Inr (V_tuple [V_int 0, V_string ck, V_string data])"
proof -
  obtain p where p: "pack_args_str RC_OK [V_string ck, V_string data] = Inr p" "length p < MAX_BUF_LEN"
    "c_write_queue s1 = c_write_queue s @ [\<lparr>m_req_id = 0, m_req_type = sub_pub, m_content = p\<rparr>]"
    using assms(1) by (auto simp: publish_conn_def response_def enqueue_def write_front_def Let_def split: sum.splits if_splits)
  have "length data < 2 ^ 32"
    using p(1) by (auto simp: pack_args_str_def append_res_def pack_string_def checked_get_container_size_def split: if_splits)
  then have "codec_unpack (T_tuple [T_int, T_string, T_string]) p = Inr (V_tuple [V_int 0, V_string ck, V_string data])"
    using mp.unpack_pack_exact [of "V_tuple [V_int 0, V_string ck, V_string data]" "T_tuple [T_int, T_string, T_string]" p]
      p(1) assms(2) by (simp add: pack_args_str_def)
  then show thesis using that p pack_args_str_nonempty [OF p(1)] by (simp add: sendable_def)
qed

text \<open>What a publication is for the client that reads it.\<close>

lemma publication_read:
  assumes "length pad = 6" "sendable p" "m = \<lparr>m_req_id = 0, m_req_type = sub_pub, m_content = p\<rparr>"
    and "codec_unpack (T_tuple [T_int, T_string, T_string]) p = Inr (V_tuple [V_int 0, V_string ck, V_string data])"
    and "cl_open c" "map_of (cl_sub_map c) ck = Some fn"
  shows "\<exists>c3 c4. on_client_head (Inr (take HEAD_LEN (frame_bytes pad m))) c = Some c3 \<and>
    on_client_body 0 sub_pub (length p) (Inr (drop HEAD_LEN (frame_bytes pad m))) c3 = Some c4 \<and>
    cl_delivered c4 = cl_delivered c @ [(fn, data)] \<and> Op_read_head \<in> set (cl_pending c4)"
proof -
  have frame: "frame_bytes pad m = header_memory pad (message_header m) @ p"
    "unat (h_body_len (message_header m)) = length p"
    using assms(2,3) by (simp_all add: frame_bytes_def message_header_def sendable_def unat_of_nat MAX_BUF_LEN_def)
  have "on_client_head (Inr (header_memory pad (message_header m))) c = Some (c\<lparr>cl_body := resize_client_body (length p) (cl_body c),
      cl_pending := remove1 Op_read_head (cl_pending c) @ [Op_read_body 0 sub_pub (length p)]\<rparr>)"
    using assms(2,3,5) frame(2)
    by (simp add: on_client_head_def header_of_frame [OF assms(1)] Let_def message_header_def sendable_def)
  then show ?thesis
    using frame(1) length_header_memory [OF assms(1)] assms(4-6)
    by (simp add: on_client_body_def callback_sub_def do_read_def req_res_def sub_pub_def Let_def)
qed

text \<open>C4. Publish and subscribe, from end to end. A subscription's frame, read by the server, is handed
  to the server's subscription callback with the same key and token; and whatever is published on a
  connection for that key and token, its frame, read by the client, calls the subscribed callback
  with exactly the published bytes, and the client goes on reading.\<close>

theorem subscription_delivers:
  assumes "length pad = 6" "length key < 1000000" "length token < 1000000"
    and "subscribe_token key token fn c = Some (c1, Inr u)" "map_of (cl_sub_map c) (key @ token) = None"
    and "c_reading s = Head_read" "c_open s"
    and "length (c_pad s) = 6" "publish_conn (key @ token) data s = Some (Inr s1)"
    and "cl_open c2" "map_of (cl_sub_map c2) (key @ token) = map_of (cl_sub_map c1) (key @ token)"
  shows "(\<exists>s'. on_body_bytes (Inr (drop HEAD_LEN (client_frame pad (last (cl_outbox c1)))))
        (on_read_head (Inr (take HEAD_LEN (client_frame pad (last (cl_outbox c1))))) s)
        = (s', Subscribe_event key token) \<and> c_reading s' = Head_read) \<and>
    (\<exists>c3 c4. on_client_head (Inr (take HEAD_LEN (frame_bytes (c_pad s) (last (c_write_queue s1))))) c2 = Some c3 \<and>
       on_client_body 0 sub_pub (length (m_content (last (c_write_queue s1))))
         (Inr (drop HEAD_LEN (frame_bytes (c_pad s) (last (c_write_queue s1))))) c3 = Some c4 \<and>
       cl_delivered c4 = cl_delivered c2 @ [(fn, data)] \<and> Op_read_head \<in> set (cl_pending c4))"
proof
  obtain b where b: "pack_args [V_string key, V_string token] = Inr b" "sendable b"
    "cl_outbox c1 = cl_outbox c @ [\<lparr>cm_req_id = 0, cm_req_type = sub_pub, cm_content = b, cm_func_id = hash_name key\<rparr>]"
    "map_of (cl_sub_map c1) (key @ token) = Some fn"
    by (rule subscribe_message [OF assms(4,5)])
  show "\<exists>s'. on_body_bytes (Inr (drop HEAD_LEN (client_frame pad (last (cl_outbox c1)))))
        (on_read_head (Inr (take HEAD_LEN (client_frame pad (last (cl_outbox c1))))) s)
        = (s', Subscribe_event key token) \<and> c_reading s' = Head_read"
    using subscription_read [OF assms(1-3) b(1,2) _ assms(6,7)] b(3) by simp
  obtain p where p: "c_write_queue s1 = c_write_queue s @ [\<lparr>m_req_id = 0, m_req_type = sub_pub, m_content = p\<rparr>]"
    "sendable p" "codec_unpack (T_tuple [T_int, T_string, T_string]) p = Inr (V_tuple [V_int 0, V_string (key @ token), V_string data])"
    by (rule publish_message [OF assms(9)]) (use assms(2,3) in simp_all)
  show "\<exists>c3 c4. on_client_head (Inr (take HEAD_LEN (frame_bytes (c_pad s) (last (c_write_queue s1))))) c2 = Some c3 \<and>
       on_client_body 0 sub_pub (length (m_content (last (c_write_queue s1))))
         (Inr (drop HEAD_LEN (frame_bytes (c_pad s) (last (c_write_queue s1))))) c3 = Some c4 \<and>
       cl_delivered c4 = cl_delivered c2 @ [(fn, data)] \<and> Op_read_head \<in> set (cl_pending c4)"
    using publication_read [OF assms(8) p(2) _ p(3) assms(10)] b(4) p(1) assms(11) by simp
qed

theorem subscription_delivers_witness:
  "\<exists>c1 s1 c3 c4. subscribe_token [107] [116] 3 (new_client [] 9000 (\<lambda>_. True) [0, 0, 0, 0, 0, 0] blank_header) = Some (c1, Inr ()) \<and>
    publish_conn [107, 116] [65, 66] (start (new_connection [0, 0, 0, 0, 0, 0] 0 0 blank_header 0)) = Some (Inr s1) \<and>
    on_client_head (Inr (take HEAD_LEN (frame_bytes [0, 0, 0, 0, 0, 0] (last (c_write_queue s1))))) (c1\<lparr>cl_open := True\<rparr>) = Some c3 \<and>
    on_client_body 0 sub_pub (length (m_content (last (c_write_queue s1))))
      (Inr (drop HEAD_LEN (frame_bytes [0, 0, 0, 0, 0, 0] (last (c_write_queue s1))))) c3 = Some c4 \<and>
    cl_delivered c4 = [(3, [65, 66])]"
proof -
  let ?c = "new_client [] 9000 (\<lambda>_. True) [0, 0, 0, 0, 0, 0] blank_header"
  let ?s = "start (new_connection [0, 0, 0, 0, 0, 0] 0 0 blank_header 0)"
  obtain c1 where c1: "subscribe_token [107] [116] 3 ?c = Some (c1, Inr ())" "cl_delivered c1 = []"
    by (simp add: subscribe_token_def send_subscribe_def client_write_def outbox_defs new_client_def pack_args_def
        append_res_def pack_string_def checked_get_container_size_def pack_array_def pack_str_def pack_body_def MAX_BUF_LEN_def)
  obtain s1 where s1: "publish_conn [107, 116] [65, 66] ?s = Some (Inr s1)"
    by (simp add: publish_conn_def pack_args_str_def append_res_def pack_string_def checked_get_container_size_def pack_array_def
        pack_str_def pack_body_def pack_int_def pack_imp_int32_def response_def MAX_BUF_LEN_def)
  have s: "c_reading ?s = Head_read" "c_open ?s" "c_pad ?s = [0, 0, 0, 0, 0, 0]"
    by (simp_all add: start_def read_head_def reset_timer_def new_connection_def)
  show ?thesis
    using subscription_delivers [of "[0, 0, 0, 0, 0, 0]" "[107]" "[116]" 3 ?c c1 "()" ?s "[65, 66]" s1 "c1\<lparr>cl_open := True\<rparr>"]
      c1 s1 s by (simp add: new_client_def) blast
qed

end
