(* ===== verification/Client_Life.thy ===== *)
theory Client_Life imports Rpc_Client Transitions begin

text \<open>
  How a client ends: \<open>run\<close>, \<open>stop\<close> and the destructor of \<open>rpc_client.hpp\<close>, and the thread of the client,
  which runs \<open>ios_.run()\<close> from the constructor on; \<open>work_\<close> keeps it there until \<open>ios_.stop()\<close>. The thread
  takes up a handler, is busy with it while others go on, and finishes it, also when the context was
  stopped meanwhile; what the handler does to the client (\<open>Rpc_Client\<close>) takes effect at its end. One of
  the three functions is called once, by a thread of the user or by a callback in one of the handlers;
  nobody else calls the client.
\<close>

section \<open>run, stop and the destructor\<close>

datatype life_call = Call_run | Call_stop | Call_destroy

datatype life_caller = By_user | By_handler

text \<open>Where the call is: before it, between \<open>close\<close> and \<open>stop\<close> of the destructor, in \<open>join\<close>, returned.\<close>

datatype life_pc = Not_yet | Closed | Joining | Finished

text \<open>
  \<open>li_thd\<close>: \<open>thd_\<close> is not null; \<open>li_joinable\<close>: it was not joined; \<open>li_io\<close>: the thread has not ended;
  \<open>li_handler\<close>: the handler it is busy with; \<open>li_dead\<close>: the process has ended.
\<close>

record client_life =
  li_client :: client
  li_thd :: bool
  li_joinable :: bool
  li_io :: bool
  li_handler :: "completion option"
  li_stopped :: bool
  li_pc :: life_pc
  li_dead :: bool

definition client_started :: "client \<Rightarrow> client_life" where
  "client_started c =
     \<lparr>li_client = c, li_thd = True, li_joinable = True, li_io = True, li_handler = None, li_stopped = False,
      li_pc = Not_yet, li_dead = False\<rparr>"

definition client_run :: "client_life \<Rightarrow> client_life" where
  "client_run l = l\<lparr>li_pc := if li_thd l \<and> li_joinable l then Joining else Finished\<rparr>"

definition client_stop :: "client_life \<Rightarrow> client_life" where
  "client_stop l =
     (if \<not> li_thd l then l\<lparr>li_pc := Finished\<rparr>
      else if li_joinable l then l\<lparr>li_stopped := True, li_pc := Joining\<rparr>
      else l\<lparr>li_stopped := True, li_thd := False, li_pc := Finished\<rparr>)"

definition client_destroy :: "client_life \<Rightarrow> client_life" where
  "client_destroy l = l\<lparr>li_client := close_client (li_client l), li_pc := Closed\<rparr>"

fun begin_call :: "life_call \<Rightarrow> client_life \<Rightarrow> client_life" where
  "begin_call Call_run l = client_run l"
| "begin_call Call_stop l = client_stop l"
| "begin_call Call_destroy l = client_destroy l"

text \<open>After \<open>join\<close>: \<open>run\<close> keeps the thread object, \<open>stop\<close> drops it.\<close>

fun joined :: "life_call \<Rightarrow> client_life \<Rightarrow> client_life" where
  "joined Call_run l = l\<lparr>li_joinable := False, li_pc := Finished\<rparr>"
| "joined _ l = l\<lparr>li_joinable := False, li_thd := False, li_pc := Finished\<rparr>"

text \<open>The handler cannot end while the callback in it is inside of the call. \<open>join\<close> on the thread that is to
  be joined throws \<open>resource_deadlock_would_occur\<close>: out of a handler, or out of the destructor, the
  exception ends the process.\<close>

definition in_call :: "life_caller \<Rightarrow> client_life \<Rightarrow> bool" where
  "in_call who l \<longleftrightarrow> who = By_handler \<and> li_pc l \<in> {Closed, Joining}"

inductive life_step :: "life_call \<Rightarrow> life_caller \<Rightarrow> client_life \<Rightarrow> client_life \<Rightarrow> bool" for cmd who where
  begins: "\<not> li_dead l \<Longrightarrow> li_pc l = Not_yet \<Longrightarrow> who = By_handler \<longrightarrow> li_handler l \<noteq> None \<Longrightarrow>
    life_step cmd who l (begin_call cmd l)"
| stops: "\<not> li_dead l \<Longrightarrow> li_pc l = Closed \<Longrightarrow> life_step cmd who l (client_stop l)"
| takes_up: "\<not> li_dead l \<Longrightarrow> li_io l \<Longrightarrow> \<not> li_stopped l \<Longrightarrow> li_handler l = None \<Longrightarrow> can_complete (li_client l) e \<Longrightarrow>
    life_step cmd who l (l\<lparr>li_handler := Some e\<rparr>)"
| finishes: "\<not> li_dead l \<Longrightarrow> li_handler l = Some e \<Longrightarrow> \<not> in_call who l \<Longrightarrow> run_handler e (li_client l) = Some c \<Longrightarrow>
    life_step cmd who l (l\<lparr>li_handler := None, li_client := c\<rparr>)"
| handler_dies: "\<not> li_dead l \<Longrightarrow> li_handler l = Some e \<Longrightarrow> \<not> in_call who l \<Longrightarrow> run_handler e (li_client l) = None \<Longrightarrow>
    life_step cmd who l (l\<lparr>li_dead := True\<rparr>)"
| io_ends: "\<not> li_dead l \<Longrightarrow> li_io l \<Longrightarrow> li_stopped l \<Longrightarrow> li_handler l = None \<Longrightarrow> life_step cmd who l (l\<lparr>li_io := False\<rparr>)"
| joins: "\<not> li_dead l \<Longrightarrow> li_pc l = Joining \<Longrightarrow> who = By_user \<Longrightarrow> \<not> li_io l \<Longrightarrow> life_step cmd who l (joined cmd l)"
| joins_itself: "\<not> li_dead l \<Longrightarrow> li_pc l = Joining \<Longrightarrow> who = By_handler \<Longrightarrow> life_step cmd who l (l\<lparr>li_dead := True\<rparr>)"

inductive_cases life_stepE: "life_step cmd who l l'"

lemmas life_calls = client_run_def client_stop_def client_destroy_def in_call_def

section \<open>Stages of the call\<close>

text \<open>What the handler that is being run leaves, \<open>None\<close> when it ends the process.\<close>

definition last_client :: "client_life \<Rightarrow> client option" where
  "last_client l = (case li_handler l of None \<Rightarrow> Some (li_client l) | Some e \<Rightarrow> run_handler e (li_client l))"

definition life_good :: "life_call \<Rightarrow> life_caller \<Rightarrow> client_life \<Rightarrow> bool" where
  "life_good cmd who l \<longleftrightarrow>
     (li_stopped l \<longrightarrow> cmd \<noteq> Call_run) \<and> (\<not> li_stopped l \<longrightarrow> li_io l) \<and> (li_handler l \<noteq> None \<longrightarrow> li_io l) \<and>
     (who = By_user \<and> li_stopped l \<and> li_dead l \<longrightarrow> last_client l = None) \<and>
     (case li_pc l of
        Not_yet \<Rightarrow> \<not> li_stopped l \<and> li_thd l \<and> li_joinable l
      | Closed \<Rightarrow> \<not> li_stopped l \<and> li_thd l \<and> li_joinable l \<and> cmd = Call_destroy \<and> (who = By_handler \<longrightarrow> li_handler l \<noteq> None)
      | Joining \<Rightarrow> li_thd l \<and> li_joinable l \<and> (cmd \<noteq> Call_run \<longrightarrow> li_stopped l) \<and> (who = By_handler \<longrightarrow> li_handler l \<noteq> None)
      | Finished \<Rightarrow> who = By_user \<and> li_stopped l \<and> \<not> li_thd l \<and> \<not> li_io l \<and> \<not> li_dead l)"

lemma joined_eq:
  "joined cmd l = l\<lparr>li_joinable := False, li_thd := li_thd l \<and> cmd = Call_run, li_pc := Finished\<rparr>"
  by (cases cmd) simp_all

lemma good_begins:
  "life_good cmd who l \<Longrightarrow> \<not> li_dead l \<Longrightarrow> li_pc l = Not_yet \<Longrightarrow> who = By_handler \<longrightarrow> li_handler l \<noteq> None \<Longrightarrow>
   life_good cmd who (begin_call cmd l)"
  by (cases cmd) (auto simp: life_good_def life_calls last_client_def)

interpretation life: invariant_system "life_step cmd who" "life_good cmd who" for cmd who
proof
  fix l l' assume "life_step cmd who l l'" and good: "life_good cmd who l"
  then show "life_good cmd who l'"
  proof (cases rule: life_step.cases)
    case begins
    then show ?thesis using good_begins [OF good] by simp
  qed (use good in \<open>auto simp: life_good_def life_calls joined_eq last_client_def split: life_pc.splits\<close>)
qed

lemma life_started: "life_good cmd who (client_started c)"
  by (simp add: life_good_def client_started_def)

text \<open>Once the context is stopped at most one handler ends, and few steps are left.\<close>

definition steps_left :: "client_life \<Rightarrow> nat" where
  "steps_left l = of_bool (li_io l) + of_bool (\<not> li_dead l) + of_bool (li_handler l \<noteq> None) +
     (case li_pc l of Not_yet \<Rightarrow> 3 | Closed \<Rightarrow> 2 | Joining \<Rightarrow> 1 | Finished \<Rightarrow> 0)"

definition stopping :: "life_call \<Rightarrow> life_caller \<Rightarrow> client option \<Rightarrow> client_life \<Rightarrow> bool" where
  "stopping cmd who c l \<longleftrightarrow> life_good cmd who l \<and> li_stopped l \<and> last_client l = c"

lemma stopping_step:
  assumes "life_step cmd who l l'" "stopping cmd who c l"
  shows "stopping cmd who c l' \<and> steps_left l' < steps_left l"
proof
  show "stopping cmd who c l'"
    using assms life.step_good [OF assms(1)]
    by (cases rule: life_step.cases)
      (auto simp: stopping_def life_good_def joined_eq last_client_def in_call_def split: life_pc.splits)
  show "steps_left l' < steps_left l"
    using assms by (cases rule: life_step.cases)
      (auto simp: stopping_def life_good_def steps_left_def joined_eq split: life_pc.splits)
qed

interpretation life_end: decreasing_system "life_step cmd who" "\<lambda>n l. stopping cmd who c l \<and> steps_left l = n" for cmd who c
  by unfold_locales (use stopping_step in blast)

lemma stopped_ends:
  assumes "stopping cmd who c l"
  shows "\<exists>t. (life_step cmd who)\<^sup>*\<^sup>* l t \<and> (\<nexists>u. life_step cmd who t u)"
    and "(life_step cmd who)\<^sup>*\<^sup>* l t \<Longrightarrow> stopping cmd who c t"
    and "\<nexists>f. f 0 = l \<and> (\<forall>k. life_step cmd who (f k) (f (Suc k)))"
  using life_end.run_ends [of cmd who c l "steps_left l"] life_end.any.reachable_good [of cmd who l t c]
    life_end.no_infinite_run [of cmd who c] assms by blast+

lemma stuck_by_user:
  assumes "stopping cmd By_user c t" "\<nexists>u. life_step cmd By_user t u"
  shows "case c of None \<Rightarrow> li_dead t | Some c' \<Rightarrow> li_pc t = Finished \<and> li_client t = c'"
proof (cases "li_dead t")
  case True
  then show ?thesis using assms(1) by (auto simp: stopping_def life_good_def)
next
  case False
  have t: "li_stopped t" "life_good cmd By_user t" "last_client t = c" using assms(1) by (simp_all add: stopping_def)
  have handler: "li_handler t = None"
    using assms(2) False finishes [of t _ By_user _ cmd] handler_dies [of t _ By_user cmd]
    by (cases "li_handler t"; cases "run_handler (the (li_handler t)) (li_client t)") (auto simp: in_call_def)
  then have "\<not> li_io t" using assms(2) io_ends [of t cmd By_user] t False by blast
  then have "li_pc t \<noteq> Joining" using assms(2) joins [of t By_user cmd] False by blast
  then have "li_pc t = Finished" using t(1,2) by (cases "li_pc t") (auto simp: life_good_def)
  then show ?thesis using t(3) handler by (auto simp: last_client_def)
qed

lemma finished_ended:
  assumes "life_good cmd By_user t" "li_pc t = Finished"
  shows "li_stopped t \<and> \<not> li_thd t \<and> \<not> li_io t \<and> li_handler t = None \<and> \<not> li_dead t \<and> (\<nexists>u. life_step cmd By_user t u)"
proof -
  have t: "li_stopped t \<and> \<not> li_thd t \<and> \<not> li_io t \<and> li_handler t = None \<and> \<not> li_dead t"
    using assms by (auto simp: life_good_def)
  then have "\<not> life_step cmd By_user t u" for u using assms(2) by (auto elim: life_stepE)
  then show ?thesis using t by blast
qed

section \<open>Properties\<close>

text \<open>C11. A \<open>stop\<close> or destructor on a thread of the user returns only when the client's thread has ended,
  and then nothing happens to the client any more. When it waits for the thread, it has stopped the io
  context (only \<open>run\<close> waits without that), and from \<open>ios_.stop()\<close> on every run ends. No handler
  is taken up any more; the one the thread was busy with still ends, and its effect is the last: the call
  returns with the client it leaves, unless it is a handler that ends the process.\<close>

theorem client_stop_ends:
  assumes "(life_step cmd By_user)\<^sup>*\<^sup>* (client_started c) l"
  shows "(li_pc l = Finished \<longrightarrow>
      li_stopped l \<and> \<not> li_io l \<and> \<not> li_thd l \<and> \<not> li_dead l \<and> (\<nexists>u. life_step cmd By_user l u)) \<and>
    (li_pc l = Joining \<longrightarrow> li_stopped l \<or> cmd = Call_run) \<and>
    (li_stopped l \<longrightarrow>
      (\<nexists>f. f 0 = l \<and> (\<forall>k. life_step cmd By_user (f k) (f (Suc k)))) \<and>
      (\<forall>t. (life_step cmd By_user)\<^sup>*\<^sup>* l t \<longrightarrow> (\<nexists>u. life_step cmd By_user t u) \<longrightarrow>
        (case last_client l of None \<Rightarrow> li_dead t | Some c' \<Rightarrow> li_pc t = Finished \<and> li_client t = c')))"
proof (intro conjI impI allI)
  have good: "life_good cmd By_user l" using life.reachable_good [OF assms life_started] .
  assume "li_pc l = Finished"
  from finished_ended [OF good this]
  show "li_stopped l" "\<not> li_io l" "\<not> li_thd l" "\<not> li_dead l" "\<nexists>u. life_step cmd By_user l u" by blast+
next
  assume "li_pc l = Joining"
  then show "li_stopped l \<or> cmd = Call_run"
    using life.reachable_good [OF assms life_started] by (auto simp: life_good_def)
next
  have good: "life_good cmd By_user l" using life.reachable_good [OF assms life_started] .
  assume stopped: "li_stopped l"
  show "\<nexists>f. f 0 = l \<and> (\<forall>k. life_step cmd By_user (f k) (f (Suc k)))"
    using stopped_ends(3) stopped good by (auto simp: stopping_def)
  fix t assume run: "(life_step cmd By_user)\<^sup>*\<^sup>* l t" and stuck: "\<nexists>u. life_step cmd By_user t u"
  have "stopping cmd By_user (last_client l) t" using stopped_ends(2) [OF _ run] stopped good by (auto simp: stopping_def)
  from stuck_by_user [OF this stuck]
  show "case last_client l of None \<Rightarrow> li_dead t | Some c' \<Rightarrow> li_pc t = Finished \<and> li_client t = c'" .
qed

text \<open>A \<open>stop\<close> while the handler of a failed connect is being run.\<close>

theorem client_stop_ends_witness:
  "let c = (new_client [] 1 (\<lambda>_. True) [] blank_header)\<lparr>cl_pending := [Op_connect]\<rparr>;
       l = client_stop ((client_started c)\<lparr>li_handler := Some (Connected (Some timed_out))\<rparr>)
   in \<exists>t. (life_step Call_stop By_user)\<^sup>*\<^sup>* l t \<and> li_pc t = Finished \<and> \<not> li_io t \<and> \<not> li_thd t \<and>
        li_client t = c\<lparr>cl_pending := []\<rparr>"
proof -
  let ?c = "(new_client [] 1 (\<lambda>_. True) [] blank_header)\<lparr>cl_pending := [Op_connect]\<rparr>"
  let ?s = "client_started ?c" and ?e = "Connected (Some timed_out)"
  let ?h = "?s\<lparr>li_handler := Some ?e\<rparr>"
  let ?l = "client_stop ?h"
  have "life_step Call_stop By_user ?s ?h" by (rule takes_up) (simp_all add: client_started_def)
  moreover have "life_step Call_stop By_user ?h ?l"
    using begins [of ?h By_user Call_stop] by (simp add: client_started_def)
  ultimately have run: "(life_step Call_stop By_user)\<^sup>*\<^sup>* ?s ?l" by auto
  have stopped: "li_stopped ?l" by (simp add: client_stop_def client_started_def)
  have last: "last_client ?l = Some (?c\<lparr>cl_pending := []\<rparr>)"
    by (simp add: last_client_def client_stop_def client_started_def on_connect_def new_client_def Let_def)
  have "stopping Call_stop By_user (last_client ?l) ?l"
    using stopped life.reachable_good [OF run life_started] by (simp add: stopping_def)
  from stopped_ends(1) [OF this] obtain t where t: "(life_step Call_stop By_user)\<^sup>*\<^sup>* ?l t"
    "\<nexists>u. life_step Call_stop By_user t u" by blast
  then have "li_pc t = Finished \<and> li_client t = ?c\<lparr>cl_pending := []\<rparr>"
    using client_stop_ends [OF run] stopped unfolding last by simp
  moreover from this have "\<not> li_io t \<and> \<not> li_thd t"
    using client_stop_ends [OF rtranclp_trans [OF run t(1)]] by blast
  ultimately show ?thesis unfolding Let_def using t(1) by blast
qed

text \<open>Nobody but \<open>stop\<close> ends the thread: \<open>run\<close> does not return.\<close>

theorem client_run_never_returns:
  assumes "(life_step Call_run who)\<^sup>*\<^sup>* (client_started c) l"
  shows "li_pc l \<noteq> Finished \<and> li_io l"
  using life.reachable_good [OF assms life_started] by (auto simp: life_good_def split: life_pc.splits)

text \<open>A callback on the client's thread that stops or destroys its client never gets past \<open>join\<close>: once
  the context is stopped, every run ends with the end of the process.\<close>

theorem stop_in_handler_ends_process:
  assumes "(life_step cmd By_handler)\<^sup>*\<^sup>* (client_started c) l" "li_stopped l"
  shows "li_pc l = Joining \<and> (\<exists>t. (life_step cmd By_handler)\<^sup>*\<^sup>* l t \<and> li_dead t) \<and>
    (\<forall>t. (life_step cmd By_handler)\<^sup>*\<^sup>* l t \<longrightarrow> (\<nexists>u. life_step cmd By_handler t u) \<longrightarrow> li_dead t)"
proof -
  have "life_good cmd By_handler l" using life.reachable_good [OF assms(1) life_started] .
  then have l: "stopping cmd By_handler (last_client l) l" using assms(2) by (simp add: stopping_def)
  have pc: "li_pc t = Joining" if "stopping cmd By_handler (last_client l) t" for t
    using that by (auto simp: stopping_def life_good_def split: life_pc.splits)
  have dead: "li_dead t" if "(life_step cmd By_handler)\<^sup>*\<^sup>* l t" "\<nexists>u. life_step cmd By_handler t u" for t
    using joins_itself [of t By_handler cmd] pc [OF stopped_ends(2) [OF l that(1)]] that(2) by blast
  then show ?thesis using stopped_ends(1) [OF l] pc [OF l] by blast
qed

text \<open>The destructor closes the connection while the client's thread still runs. When the body of a
  reply is being read then, its handler may run before \<open>ios_.stop()\<close>, and as \<open>close\<close> has emptied the
  maps it fails an assertion: destroying a connected client can end the process.\<close>

theorem destructor_may_abort:
  assumes "cl_has_connected c" "Op_read_body i ty n \<in> set (cl_pending c)"
  shows "\<exists>l. (life_step Call_destroy By_user)\<^sup>*\<^sup>* (client_started c) l \<and> li_dead l"
proof -
  let ?ec = "transport []"
  let ?l = "client_destroy (client_started c)" and ?e = "Body_done i ty n (Inl ?ec)"
  let ?h = "?l\<lparr>li_handler := Some ?e\<rparr>"
  have closed: "close_client c = clear_cache (c\<lparr>cl_has_connected := False, cl_open := False\<rparr>)"
    using assms(1) by (simp add: close_client_def)
  have dies: "run_handler ?e (close_client c) = None"
    by (simp add: closed clear_cache_def on_client_body_def call_back_def Let_def)
  have "life_step Call_destroy By_user (client_started c) ?l"
    using begins [of "client_started c" By_user Call_destroy] by (simp add: client_started_def)
  moreover have "life_step Call_destroy By_user ?l ?h"
    using assms(2) by (intro takes_up) (simp_all add: client_destroy_def client_started_def closed clear_cache_def)
  moreover have "life_step Call_destroy By_user ?h (?h\<lparr>li_dead := True\<rparr>)"
    by (rule handler_dies [of _ ?e]) (use dies in \<open>simp_all add: client_destroy_def client_started_def in_call_def\<close>)
  ultimately show ?thesis by (intro exI [of _ "?h\<lparr>li_dead := True\<rparr>"]) auto
qed

end
