(* ===== verification/Io_Service_Pool.thy ===== *)
theory Io_Service_Pool imports Rpc_Prelude begin

text \<open>
  \<open>include/rest_rpc/io_service_pool.h\<close>: the pool of \<open>io_context\<close>s, each run by its own thread, and
  their round-robin distribution. An \<open>io_context\<close> is known by its number; \<open>pool_stopped\<close> says
  which of them were stopped, \<open>pool_threads\<close> which are being run.
\<close>

record io_service_pool =
  io_services :: "nat list"
  work :: "nat list"
  next_io_service :: nat
  pool_threads :: "nat list"
  pool_stopped :: "nat \<Rightarrow> bool"

definition new_pool :: "nat \<Rightarrow> io_service_pool res" where
  "new_pool pool_size =
     (if pool_size = 0 then Inl (runtime_error (lit ''io_service_pool size is 0''))
      else Inr \<lparr>io_services = [0..<pool_size], work = [0..<pool_size], next_io_service = 0,
                pool_threads = [], pool_stopped = (\<lambda>_. False)\<rparr>)"

text \<open>\<open>run\<close> up to the joins: they return when every \<open>io_context\<close> was stopped.\<close>

definition run_pool :: "io_service_pool \<Rightarrow> io_service_pool" where
  "run_pool p = p\<lparr>pool_threads := pool_threads p @ io_services p\<rparr>"

definition stop_pool :: "io_service_pool \<Rightarrow> io_service_pool" where
  "stop_pool p = p\<lparr>pool_stopped := (\<lambda>i. i \<in> set (io_services p) \<or> pool_stopped p i)\<rparr>"

definition get_io_service :: "io_service_pool \<Rightarrow> nat \<times> io_service_pool" where
  "get_io_service p =
     (let io_service = io_services p ! next_io_service p;
          next = next_io_service p + 1
      in (io_service, p\<lparr>next_io_service := (if next = length (io_services p) then 0 else next)\<rparr>))"

text \<open>What a sequence of calls of \<open>get_io_service\<close> yields.\<close>

fun get_io_services :: "nat \<Rightarrow> io_service_pool \<Rightarrow> nat list \<times> io_service_pool" where
  "get_io_services 0 p = ([], p)"
| "get_io_services (Suc k) p =
     (let (i, p') = get_io_service p; (is, p'') = get_io_services k p' in (i # is, p''))"

section \<open>Round robin\<close>

definition pool_inv :: "nat \<Rightarrow> io_service_pool \<Rightarrow> bool" where
  "pool_inv n p \<longleftrightarrow> 0 < n \<and> io_services p = [0..<n] \<and> next_io_service p < n"

lemma pool_inv_new: "new_pool n = Inr p \<Longrightarrow> pool_inv n p \<and> next_io_service p = 0"
  by (auto simp: new_pool_def pool_inv_def split: if_splits)

lemma pool_inv_run [inv_intros]: "pool_inv n p \<Longrightarrow> pool_inv n (run_pool p)"
  by (simp add: pool_inv_def run_pool_def)

lemma pool_inv_stop [inv_intros]: "pool_inv n p \<Longrightarrow> pool_inv n (stop_pool p)"
  by (simp add: pool_inv_def stop_pool_def)

lemma get_io_service_next:
  assumes "pool_inv n p"
  shows "fst (get_io_service p) = next_io_service p"
    "next_io_service (snd (get_io_service p)) = Suc (next_io_service p) mod n"
    "pool_inv n (snd (get_io_service p))"
  using assms by (auto simp: pool_inv_def get_io_service_def Let_def mod_Suc)

lemma get_io_services_mod:
  "pool_inv n p \<Longrightarrow> fst (get_io_services k p) = map (\<lambda>i. (next_io_service p + i) mod n) [0..<k]"
proof (induction k arbitrary: p)
  case (Suc k)
  have "(Suc (next_io_service p) mod n + i) mod n = (next_io_service p + Suc i) mod n" for i
    by (simp add: mod_add_left_eq)
  moreover have "[0..<Suc k] = 0 # map Suc [0..<k]" by (simp add: map_Suc_upt upt_conv_Cons del: upt_Suc)
  ultimately show ?case
    using Suc.IH [OF get_io_service_next(3) [OF Suc.prems]] get_io_service_next(1,2) [OF Suc.prems] Suc.prems
    by (simp add: case_prod_beta Let_def pool_inv_def del: upt_Suc)
qed simp

text \<open>The pool of a positive size hands out its contexts in turn, forever: the k-th call gets
  context k modulo the size, so no context is favoured and no index leaves the vector. A size of
  zero is refused at construction.\<close>

theorem round_robin:
  "new_pool 0 = Inl (runtime_error (lit ''io_service_pool size is 0'')) \<and>
   (\<forall>n p k. new_pool n = Inr p \<longrightarrow>
      fst (get_io_services k p) = map (\<lambda>i. i mod n) [0..<k])"
  using pool_inv_new get_io_services_mod by (fastforce simp: new_pool_def)

theorem round_robin_witness:
  "\<exists>p. new_pool 3 = Inr p \<and> fst (get_io_services 5 p) = [0, 1, 2, 0, 1]"
proof -
  obtain p where p: "new_pool 3 = Inr p" by (simp add: new_pool_def)
  have "fst (get_io_services 5 p) = map (\<lambda>i. i mod 3) [0..<5]"
    using round_robin [THEN conjunct2, rule_format, OF p] .
  then show ?thesis using p by (simp add: upt_rec)
qed

end
