(* ===== verification/Rpc_Server.thy ===== *)
theory Rpc_Server imports Connection Io_Service_Pool Zookeeper "HOL-Library.List_Lexorder" begin

text \<open>
  \<open>include/rest_rpc/rpc_server.h\<close>: the server owns the connections, the subscriptions and the two
  cleaning threads. A connection object is known by its handle, its position in \<open>sv_conns\<close>; a
  \<open>shared_ptr\<close> or \<open>weak_ptr\<close> to it is the handle. Each function below is what one thread does while
  it holds the lock of the data it works on.

  The state carries \<open>sv_user\<close>, whatever else the registered functions touch. The router is not part
  of it but an argument: functions are registered before the server runs.
\<close>

section \<open>State\<close>

text \<open>
  \<open>sv_fresh\<close> is the uninitialised memory of each connection, \<open>sv_contexts\<close> the \<open>io_context\<close> each runs
  on, \<open>sv_timeouts\<close> the calls of \<open>conn_timeout_callback_\<close>. \<open>sv_sub_map\<close> is the unordered multimap
  (equal keys in the order of insertion), \<open>sv_token_list\<close> the ordered set. \<open>sv_aborted\<close> records an
  \<open>abort\<close> inside a registered function.
\<close>

record 'u server =
  sv_conns :: "conn list"
  sv_contexts :: "nat list"
  sv_fresh :: "nat \<Rightarrow> bytes \<times> u64 \<times> request_type \<times> rpc_header"
  sv_conn :: nat
  sv_accepting :: bool
  sv_acceptor_open :: bool
  sv_connections :: "(int \<times> nat) list"
  sv_conn_id :: int
  sv_sub_map :: "(bytes \<times> nat) list"
  sv_token_list :: "bytes list"
  sv_pool :: io_service_pool
  sv_timeout_seconds :: nat
  sv_net_err :: bool
  sv_timeout_cb :: bool
  sv_timeouts :: "int list"
  sv_stop_check :: bool
  sv_stop_check_pub_sub :: bool
  sv_has_stoped :: bool
  sv_aborted :: bool
  sv_user :: 'u

definition put_conn :: "nat \<Rightarrow> conn \<Rightarrow> 'u server \<Rightarrow> 'u server" where
  "put_conn h c s = s\<lparr>sv_conns := (sv_conns s)[h := c]\<rparr>"

text \<open>
  A connection object lives while it is in \<open>connections_\<close> or \<open>conn_\<close> or some operation of its own
  is pending, whose handler holds a \<open>shared_ptr\<close>.
\<close>

definition lock_conn :: "nat \<Rightarrow> 'u server \<Rightarrow> conn option" where
  "lock_conn h s =
     (let c = sv_conns s ! h in
      if h \<in> snd ` set (sv_connections s) \<or> h = sv_conn s \<or> c_reading c \<noteq> No_read \<or> c_writing c \<or> c_timer_armed c
      then Some c else None)"

section \<open>Accepting\<close>

definition do_accept :: "'u server \<Rightarrow> 'u server" where
  "do_accept s =
     (let (context, pool) = get_io_service (sv_pool s);
          (pad, some_id, some_type, some_header) = sv_fresh s (length (sv_conns s))
      in s\<lparr>sv_conns := sv_conns s @ [new_connection pad some_id some_type some_header (sv_timeout_seconds s)],
           sv_contexts := sv_contexts s @ [context], sv_conn := length (sv_conns s),
           sv_pool := pool, sv_accepting := True\<rparr>)"

definition on_accept :: "bool \<Rightarrow> 'u server \<Rightarrow> 'u server" where
  "on_accept failed s0 =
     (let s = s0\<lparr>sv_accepting := False\<rparr> in
      if \<not> sv_acceptor_open s then s
      else if failed then do_accept s
      else
        (let h = sv_conn s;
             c = sv_conns s ! h;
             c = (if sv_net_err s then on_network_error c else c);
             c = set_conn_id (sv_conn_id s) (start c)
         in do_accept ((put_conn h c s)\<lparr>sv_connections := sv_connections s @ [(sv_conn_id s, h)],
                                        sv_conn_id := sv_conn_id s + 1\<rparr>)))"

text \<open>
  The constructor after the registration in ZooKeeper (\<open>Zookeeper.register_service\<close>): the acceptor
  and the signal set take the first two contexts.
\<close>

definition new_server ::
    "nat \<Rightarrow> nat \<Rightarrow> (nat \<Rightarrow> bytes \<times> u64 \<times> request_type \<times> rpc_header) \<Rightarrow> 'u \<Rightarrow> 'u server res" where
  "new_server pool_size timeout_seconds fresh user =
     (case new_pool pool_size of
        Inl e \<Rightarrow> Inl e
      | Inr pool \<Rightarrow>
          Inr (do_accept
            \<lparr>sv_conns = [], sv_contexts = [], sv_fresh = fresh, sv_conn = 0, sv_accepting = False,
             sv_acceptor_open = True, sv_connections = [], sv_conn_id = 0, sv_sub_map = [],
             sv_token_list = [], sv_pool = snd (get_io_services 2 pool), sv_timeout_seconds = timeout_seconds,
             sv_net_err = False, sv_timeout_cb = False, sv_timeouts = [], sv_stop_check = False,
             sv_stop_check_pub_sub = False, sv_has_stoped = False, sv_aborted = False, sv_user = user\<rparr>))"

text \<open>\<open>register_handler\<close>: first ZooKeeper, then the router. \<open>port_\<close> is passed as an \<open>int\<close>.\<close>

definition register_server_handler ::
    "'z zk_service \<Rightarrow> bytes \<Rightarrow> bytes \<Rightarrow> u16 \<Rightarrow> ExecMode \<Rightarrow> bytes \<Rightarrow> ('w, 'c) handler \<Rightarrow>
     'z \<times> ('w, 'c) router \<Rightarrow> ('z \<times> ('w, 'c) router) option" where
  "register_server_handler svc service_name ip port model name f zr =
     (case create_method svc (lit ''/'' @ service_name) name ip (ucast port) (ZOO_EPHEMERAL svc) (fst zr) of
        None \<Rightarrow> None
      | Some z \<Rightarrow> Some (z, register_handler model name f (snd zr)))"

definition set_conn_timeout_callback :: "'u server \<Rightarrow> 'u server" where
  "set_conn_timeout_callback s = s\<lparr>sv_timeout_cb := True\<rparr>"

definition set_network_err_callback :: "'u server \<Rightarrow> 'u server" where
  "set_network_err_callback s = s\<lparr>sv_net_err := True\<rparr>"

section \<open>Subscriptions\<close>

definition insert_token :: "bytes \<Rightarrow> bytes list \<Rightarrow> bytes list" where
  "insert_token t ts = (if t \<in> set ts then ts else insort t ts)"

text \<open>The callback \<open>do_accept\<close> gives every connection.\<close>

definition on_subscribe :: "bytes \<Rightarrow> bytes \<Rightarrow> nat \<Rightarrow> 'u server \<Rightarrow> 'u server" where
  "on_subscribe key token h s =
     (let s' = s\<lparr>sv_sub_map := sv_sub_map s @ [(key @ token, h)]\<rparr> in
      if token \<noteq> [] then s'\<lparr>sv_token_list := insert_token token (sv_token_list s')\<rparr> else s')"

definition get_token_list :: "'u server \<Rightarrow> bytes list" where
  "get_token_list s = sv_token_list s"

text \<open>
  The two overloads of \<open>get_shared_data\<close>: a string is sent as it is, a struct or tuple packed. (For
  an arithmetic \<open>T\<close> the first overload is chosen too and does not compile.)
\<close>

fun get_shared_data :: "cval \<Rightarrow> bytes res" where
  "get_shared_data (V_string s) = Inr s"
| "get_shared_data data = codec_pack data"

text \<open>
  The loop of \<open>publish\<close> over the subscribers of one composite key. \<open>None\<close> is the failed \<open>assert\<close> of
  \<open>response\<close>; an exception leaves with what was queued before it.
\<close>

fun publish_loop :: "bytes \<Rightarrow> bytes \<Rightarrow> nat list \<Rightarrow> 'u server \<Rightarrow> ('u server \<times> unit res) option" where
  "publish_loop ck shared_data [] s = Some (s, Inr ())"
| "publish_loop ck shared_data (h # hs) s =
     (case lock_conn h s of
        None \<Rightarrow> publish_loop ck shared_data hs s
      | Some c \<Rightarrow>
          (if c_has_closed c then publish_loop ck shared_data hs s
           else case publish_conn ck shared_data c of
             None \<Rightarrow> None
           | Some (Inl e) \<Rightarrow> Some (s, Inl e)
           | Some (Inr c') \<Rightarrow> publish_loop ck shared_data hs (put_conn h c' s)))"

definition subscribers :: "bytes \<Rightarrow> 'u server \<Rightarrow> nat list" where
  "subscribers ck s = map snd (filter (\<lambda>(k, h). k = ck) (sv_sub_map s))"

definition publish_key_token :: "bytes \<Rightarrow> bytes \<Rightarrow> cval \<Rightarrow> 'u server \<Rightarrow> ('u server \<times> unit res) option" where
  "publish_key_token key token data s =
     (if sv_sub_map s = [] then Some (s, Inr ())
      else case get_shared_data data of
        Inl e \<Rightarrow> Some (s, Inl e)
      | Inr shared_data \<Rightarrow> publish_loop (key @ token) shared_data (subscribers (key @ token) s) s)"

definition publish :: "bytes \<Rightarrow> cval \<Rightarrow> 'u server \<Rightarrow> ('u server \<times> unit res) option" where
  "publish key data s = publish_key_token key [] data s"

definition publish_by_token :: "bytes \<Rightarrow> bytes \<Rightarrow> cval \<Rightarrow> 'u server \<Rightarrow> ('u server \<times> unit res) option" where
  "publish_by_token key token data s = publish_key_token key token data s"

section \<open>The cleaning threads\<close>

text \<open>One pass of \<open>clean\<close>.\<close>

definition clean_pass :: "'u server \<Rightarrow> 'u server" where
  "clean_pass s =
     (let closed = filter (\<lambda>(i, h). c_has_closed (sv_conns s ! h)) (sv_connections s) in
      s\<lparr>sv_connections := filter (\<lambda>(i, h). \<not> c_has_closed (sv_conns s ! h)) (sv_connections s),
        sv_timeouts := (if sv_timeout_cb s
          then sv_timeouts s @ map (\<lambda>(i, h). c_conn_id (sv_conns s ! h)) closed else sv_timeouts s)\<rparr>)"

text \<open>\<open>std::string::find\<close>, as a test.\<close>

fun contains :: "bytes \<Rightarrow> bytes \<Rightarrow> bool" where
  "contains [] t \<longleftrightarrow> t = []"
| "contains (c # s) t \<longleftrightarrow> take (length t) (c # s) = t \<or> contains s t"

definition dead :: "'u server \<Rightarrow> nat \<Rightarrow> bool" where
  "dead s h = (case lock_conn h s of None \<Rightarrow> True | Some c \<Rightarrow> c_has_closed c)"

text \<open>One pass of \<open>clean_sub_pub\<close>.\<close>

fun clean_sub_loop :: "(nat \<Rightarrow> bool) \<Rightarrow> (bytes \<times> nat) list \<Rightarrow> bytes list \<Rightarrow> (bytes \<times> nat) list \<times> bytes list" where
  "clean_sub_loop is_dead [] tokens = ([], tokens)"
| "clean_sub_loop is_dead ((k, h) # subs) tokens =
     (if is_dead h
      then clean_sub_loop is_dead subs (filter (\<lambda>t. \<not> contains k t) tokens)
      else (let (subs', tokens') = clean_sub_loop is_dead subs tokens in ((k, h) # subs', tokens')))"

definition clean_sub_pub_pass :: "'u server \<Rightarrow> 'u server" where
  "clean_sub_pub_pass s =
     (let (subs, tokens) = clean_sub_loop (dead s) (sv_sub_map s) (sv_token_list s)
      in s\<lparr>sv_sub_map := subs, sv_token_list := tokens\<rparr>)"

section \<open>Events of the connections\<close>

definition server_head :: "nat \<Rightarrow> bytes + bytes \<Rightarrow> 'u server \<Rightarrow> 'u server" where
  "server_head h res s = put_conn h (on_read_head res (sv_conns s ! h)) s"

definition server_write :: "nat \<Rightarrow> bytes option \<Rightarrow> 'u server \<Rightarrow> 'u server" where
  "server_write h ec s = put_conn h (on_write ec (sv_conns s ! h)) s"

definition server_timer :: "nat \<Rightarrow> bool \<Rightarrow> 'u server \<Rightarrow> 'u server" where
  "server_timer h cancelled s = put_conn h (on_timer cancelled (sv_conns s ! h)) s"

text \<open>
  A body was read. The registered function works on the server itself, this connection included:
  the answer goes to the connection as the function left it.
\<close>

definition server_body ::
    "('u server, nat) router \<Rightarrow> nat \<Rightarrow> bytes + bytes \<Rightarrow> 'u server \<Rightarrow> 'u server option" where
  "server_body r h res s0 =
     (case on_body_bytes res (sv_conns s0 ! h) of
        (c, event) \<Rightarrow>
          (let s = put_conn h c s0 in
           case event of
             No_event \<Rightarrow> Some s
           | Subscribe_event key token \<Rightarrow> Some (on_subscribe key token h s)
           | Route_event func_id request \<Rightarrow>
               (case route r func_id request (Some (h, c_req_id c)) s of
                  (s', Inl e) \<Rightarrow> None
                | (s', Inr None) \<Rightarrow> if sv_aborted s' then None else Some s'
                | (s', Inr (Some (rid, result))) \<Rightarrow>
                    if sv_aborted s' then None
                    else map_option (\<lambda>c'. put_conn h c' s') (response rid result req_res (sv_conns s' ! h)))))"

text \<open>
  A registered function that publishes, like \<open>publish_by_token\<close> and \<open>publish\<close> of the example server.
\<close>

definition publishing :: "('u server \<Rightarrow> ('u server \<times> unit res) option) \<Rightarrow> 'u server \<Rightarrow> 'u server \<times> cval option res" where
  "publishing p s =
     (case p s of
        None \<Rightarrow> (s\<lparr>sv_aborted := True\<rparr>, Inr None)
      | Some (s', Inl e) \<Rightarrow> (s', Inl e)
      | Some (s', Inr u) \<Rightarrow> (s', Inr None))"

section \<open>Stopping\<close>

text \<open>The two cleaning threads end, then the pool is stopped, whose threads \<open>run\<close> waits for.\<close>

definition stop_server :: "'u server \<Rightarrow> 'u server" where
  "stop_server s =
     (if sv_has_stoped s then s
      else s\<lparr>sv_stop_check := True, sv_stop_check_pub_sub := True, sv_pool := stop_pool (sv_pool s),
             sv_has_stoped := True\<rparr>)"

section \<open>What the operations of a connection keep\<close>

text \<open>A connection stays closed, keeps its number, keeps its invariant and reads only if it did before.\<close>

definition evolves :: "conn \<Rightarrow> conn \<Rightarrow> bool" where
  "evolves c c' \<longleftrightarrow> (conn_inv c \<longrightarrow> conn_inv c') \<and> (c_has_closed c \<longrightarrow> c_has_closed c') \<and>
     c_conn_id c' = c_conn_id c \<and> (c_reading c' \<noteq> No_read \<longrightarrow> c_reading c \<noteq> No_read)"

lemma evolves_enqueue:
  "length (m_content msg) < MAX_BUF_LEN \<Longrightarrow> evolves c (enqueue msg c)"
  by (auto simp: evolves_def inv_enqueue) (auto simp: enqueue_def write_front_def Let_def split: if_splits)

lemma evolves_response: "response rid data ty c = Some c' \<Longrightarrow> evolves c c'"
  by (auto simp: response_def evolves_enqueue split: if_splits)

lemma evolves_write: "evolves c (on_write ec c)"
  by (auto simp: evolves_def inv_write)
    (auto simp: on_write_def write_front_def close_conn_def report_def Let_def split: option.splits if_splits)

lemma evolves_timer: "evolves c (on_timer cancelled c)"
  by (auto simp: evolves_def inv_timer) (auto simp: on_timer_def close_conn_def Let_def split: if_splits)

lemma evolves_head: "c_reading c = Head_read \<Longrightarrow> evolves c (on_read_head res c)"
  by (auto simp: evolves_def inv_head)
    (auto simp: on_read_head_def close_conn_def report_def read_head_def reset_timer_def cancel_timer_def Let_def
      split: sum.splits if_splits)

lemma evolves_body:
  assumes "on_body_bytes res c = (c', event)"
  shows "evolves c c'"
proof -
  have "c_has_closed c' = c_has_closed c \<and> c_conn_id c' = c_conn_id c \<and> (c_reading c' \<noteq> No_read \<longrightarrow> c_reading c \<noteq> No_read)"
    using assms by (rule on_body_bytes_cases)
      (auto simp: report_def read_head_def reset_timer_def cancel_timer_def)
  then show ?thesis using inv_body_bytes [OF _ assms] by (auto simp: evolves_def)
qed

section \<open>The invariant\<close>

text \<open>Contexts go round: the k-th connection runs on context k + 2 modulo the pool's size.\<close>

definition sv_contexts_inv :: "nat \<Rightarrow> 'u server \<Rightarrow> bool" where
  "sv_contexts_inv n s \<longleftrightarrow>
     pool_inv n (sv_pool s) \<and> next_io_service (sv_pool s) = (length (sv_conns s) + 2) mod n \<and>
     sv_contexts s = map (\<lambda>k. (k + 2) mod n) [0..<length (sv_conns s)]"

text \<open>\<open>connections_\<close> numbers its connections once each, below the counter.\<close>

definition sv_ids_inv :: "'u server \<Rightarrow> bool" where
  "sv_ids_inv s \<longleftrightarrow>
     distinct (map fst (sv_connections s)) \<and> distinct (map snd (sv_connections s)) \<and>
     (\<forall>(i, h) \<in> set (sv_connections s).
        i < sv_conn_id s \<and> h < length (sv_conns s) \<and> c_conn_id (sv_conns s ! h) = i)"

text \<open>A connection that reads or is subscribed is in \<open>connections_\<close> or closed.\<close>

definition sv_known :: "'u server \<Rightarrow> nat \<Rightarrow> bool" where
  "sv_known s h \<longleftrightarrow> h < length (sv_conns s) \<and>
     (c_has_closed (sv_conns s ! h) \<or> h \<in> snd ` set (sv_connections s))"

definition sv_subs_inv :: "'u server \<Rightarrow> bool" where
  "sv_subs_inv s \<longleftrightarrow>
     (\<forall>c \<in> set (sv_conns s). conn_inv c) \<and>
     (\<forall>h < length (sv_conns s). c_reading (sv_conns s ! h) \<noteq> No_read \<longrightarrow> sv_known s h) \<and>
     (\<forall>h \<in> snd ` set (sv_sub_map s). sv_known s h)"

definition sv_inv :: "nat \<Rightarrow> 'u server \<Rightarrow> bool" where
  "sv_inv n s \<longleftrightarrow> sv_contexts_inv n s \<and> sv_ids_inv s \<and> sv_subs_inv s \<and>
     length (sv_conns s) = Suc (sv_conn s) \<and>
     (sv_accepting s \<longrightarrow> sv_conn s \<notin> snd ` set (sv_connections s))"

lemma conn_inv_new: "conn_inv (new_connection pad i ty h t)"
  by (simp add: conn_inv_def new_connection_def)

lemma put_conn_fields [simp]:
  "sv_contexts (put_conn h c s) = sv_contexts s" "sv_conn (put_conn h c s) = sv_conn s"
  "sv_pool (put_conn h c s) = sv_pool s" "sv_connections (put_conn h c s) = sv_connections s"
  "sv_conn_id (put_conn h c s) = sv_conn_id s" "sv_sub_map (put_conn h c s) = sv_sub_map s"
  "sv_accepting (put_conn h c s) = sv_accepting s" "sv_fresh (put_conn h c s) = sv_fresh s"
  "sv_token_list (put_conn h c s) = sv_token_list s" "sv_timeouts (put_conn h c s) = sv_timeouts s"
  "sv_timeout_cb (put_conn h c s) = sv_timeout_cb s"
  "length (sv_conns (put_conn h c s)) = length (sv_conns s)"
  "j < length (sv_conns s) \<Longrightarrow> sv_conns (put_conn h c s) ! j = (if j = h then c else sv_conns s ! j)"
  by (simp_all add: put_conn_def nth_list_update)

lemma put_conn_beyond: "\<not> h < length (sv_conns s) \<Longrightarrow> put_conn h c s = s"
  by (cases s) (simp add: put_conn_def list_update_beyond)

lemma ids_put:
  "sv_ids_inv s \<Longrightarrow> c_conn_id c = c_conn_id (sv_conns s ! h) \<Longrightarrow> sv_ids_inv (put_conn h c s)"
  unfolding sv_ids_inv_def by auto

lemma known_put:
  "sv_known s j \<Longrightarrow> (c_has_closed (sv_conns s ! h) \<longrightarrow> c_has_closed c) \<Longrightarrow> sv_known (put_conn h c s) j"
  by (auto simp: sv_known_def)

lemma subs_put:
  assumes "sv_subs_inv s" "evolves (sv_conns s ! h) c" "h < length (sv_conns s)"
  shows "sv_subs_inv (put_conn h c s)"
proof -
  have known: "sv_known s j \<Longrightarrow> sv_known (put_conn h c s) j" for j
    using assms(2) by (intro known_put) (simp_all add: evolves_def)
  have "conn_inv c" using assms nth_mem [OF assms(3)] by (auto simp: sv_subs_inv_def evolves_def)
  then have "\<forall>c \<in> set ((sv_conns s)[h := c]). conn_inv c"
    using assms(1) set_update_subset_insert [of "sv_conns s" h c] by (auto simp: sv_subs_inv_def)
  moreover have "c_reading c \<noteq> No_read \<Longrightarrow> c_reading (sv_conns s ! h) \<noteq> No_read"
    using assms(2) by (simp add: evolves_def)
  ultimately show ?thesis using assms(1,3) known unfolding sv_subs_inv_def
    by (auto simp: put_conn_def nth_list_update)
qed

lemma sv_inv_put:
  assumes "sv_inv n s" "evolves (sv_conns s ! h) c"
  shows "sv_inv n (put_conn h c s)"
proof (cases "h < length (sv_conns s)")
  case True
  then show ?thesis using assms subs_put [of s h c] ids_put [of s c h]
    by (simp add: sv_inv_def sv_contexts_inv_def evolves_def)
qed (use assms in \<open>simp add: put_conn_beyond\<close>)

lemma contexts_do_accept:
  assumes "sv_contexts_inv n s"
  shows "sv_contexts_inv n (do_accept s)"
proof -
  have "(Suc k mod n) = (k + 1) mod n" for k by simp
  then show ?thesis
    using assms get_io_service_next [of n "sv_pool s"]
    by (auto simp: sv_contexts_inv_def do_accept_def case_prod_beta mod_Suc_eq)
qed

lemma do_accept_fields [simp]:
  "sv_connections (do_accept s) = sv_connections s" "sv_conn_id (do_accept s) = sv_conn_id s"
  "sv_sub_map (do_accept s) = sv_sub_map s" "sv_conn (do_accept s) = length (sv_conns s)"
  "length (sv_conns (do_accept s)) = Suc (length (sv_conns s))"
  "j < length (sv_conns s) \<Longrightarrow> sv_conns (do_accept s) ! j = sv_conns s ! j"
  by (auto simp: do_accept_def case_prod_beta nth_append)

lemma do_accept_conns:
  obtains pad i ty h where "sv_conns (do_accept s) = sv_conns s @ [new_connection pad i ty h (sv_timeout_seconds s)]"
  by (auto simp: do_accept_def case_prod_beta)

lemma ids_do_accept: "sv_ids_inv s \<Longrightarrow> sv_ids_inv (do_accept s)"
  by (auto simp: sv_ids_inv_def)

lemma subs_do_accept:
  assumes "sv_subs_inv s"
  shows "sv_subs_inv (do_accept s)"
proof -
  have known: "sv_known s j \<Longrightarrow> sv_known (do_accept s) j" for j by (auto simp: sv_known_def)
  obtain pad i ty h where c: "sv_conns (do_accept s) = sv_conns s @ [new_connection pad i ty h (sv_timeout_seconds s)]"
    by (rule do_accept_conns)
  have "c_reading (new_connection pad i ty h t) = No_read" for t by (simp add: new_connection_def)
  then show ?thesis
    using assms known conn_inv_new unfolding sv_subs_inv_def c
    by (auto simp: nth_append less_Suc_eq)
qed

lemma sv_inv_do_accept:
  assumes "sv_contexts_inv n s" "sv_ids_inv s" "sv_subs_inv s"
  shows "sv_inv n (do_accept s)"
  using assms contexts_do_accept ids_do_accept subs_do_accept
  by (auto simp: sv_inv_def) (auto simp: sv_ids_inv_def)

lemma sv_inv_new:
  assumes "new_server n t fresh u = Inr s"
  shows "sv_inv n s"
proof -
  obtain p where p: "new_pool n = Inr p" using assms by (auto simp: new_server_def split: sum.splits)
  have inv: "pool_inv n p" "next_io_service p = 0" using pool_inv_new [OF p] by auto
  note g1 = get_io_service_next [OF inv(1)]
  note g2 = get_io_service_next [OF g1(3)]
  have "pool_inv n (snd (get_io_services 2 p))" "next_io_service (snd (get_io_services 2 p)) = Suc (Suc 0) mod n"
    using g1 g2 inv(2) by (auto simp: eval_nat_numeral case_prod_beta Let_def mod_Suc_eq)
  then show ?thesis
    using assms by (auto simp: new_server_def p sv_contexts_inv_def sv_ids_inv_def sv_subs_inv_def
      intro!: sv_inv_do_accept)
qed

lemma sv_inv_accept:
  assumes "sv_inv n s" "sv_accepting s"
  shows "sv_inv n (on_accept failed s)"
proof -
  let ?s = "s\<lparr>sv_accepting := False\<rparr>"
  have base: "sv_contexts_inv n ?s" "sv_ids_inv ?s" "sv_subs_inv ?s" "length (sv_conns s) = Suc (sv_conn s)"
    using assms(1) by (auto simp: sv_inv_def sv_contexts_inv_def sv_ids_inv_def sv_subs_inv_def sv_known_def)
  show ?thesis
  proof (cases "failed \<or> \<not> sv_acceptor_open s")
    case True
    have "on_accept failed s = (if \<not> sv_acceptor_open s then ?s else do_accept ?s)"
      using True by (auto simp: on_accept_def Let_def)
    moreover have "sv_inv n ?s" using base by (simp add: sv_inv_def)
    ultimately show ?thesis using sv_inv_do_accept [OF base(1-3)] by simp
  next
    case False
    let ?h = "sv_conn s"
    let ?c0 = "if sv_net_err s then on_network_error (sv_conns s ! ?h) else sv_conns s ! ?h"
    let ?c = "set_conn_id (sv_conn_id s) (start ?c0)"
    let ?t = "(put_conn ?h ?c ?s)\<lparr>sv_connections := sv_connections s @ [(sv_conn_id s, ?h)],
        sv_conn_id := sv_conn_id s + 1\<rparr>"
    have h: "?h < length (sv_conns s)" using base by simp
    have inv: "\<forall>c \<in> set (sv_conns s). conn_inv c" using base by (simp add: sv_subs_inv_def)
    then have "conn_inv ?c" using nth_mem [OF h]
      by (auto simp: conn_inv_def set_conn_id_def start_def read_head_def reset_timer_def on_network_error_def)
    then have conns: "\<forall>c \<in> set ((sv_conns s)[?h := ?c]). conn_inv c"
      using inv set_update_subset_insert [of "sv_conns s" ?h ?c] by blast
    have len: "length (sv_conns ?t) = length (sv_conns s)" by simp
    have at: "sv_conns ?t ! j = (if j = ?h then ?c else sv_conns s ! j)" if "j < length (sv_conns s)" for j
      using that by (simp add: put_conn_def nth_list_update)
    have known_h: "sv_known ?t ?h" using h unfolding sv_known_def len by simp
    have known: "sv_known ?t j" if "sv_known ?s j" for j
    proof (cases "j = ?h")
      case False
      then show ?thesis using that at [of j] unfolding sv_known_def len by auto
    qed (use known_h in simp)
    have "sv_known ?t j" if "j < length (sv_conns s)" "c_reading (sv_conns ?t ! j) \<noteq> No_read" for j
    proof (cases "j = ?h")
      case False
      then have "c_reading (sv_conns ?s ! j) \<noteq> No_read" using that at [of j] by simp
      then show ?thesis using base(3) that(1) known unfolding sv_subs_inv_def by simp
    qed (use known_h in simp)
    moreover have "\<forall>c \<in> set (sv_conns ?t). conn_inv c" using conns by (simp add: put_conn_def)
    moreover have "sv_sub_map ?t = sv_sub_map s" by simp
    ultimately have "sv_subs_inv ?t"
      using base(3) known unfolding sv_subs_inv_def len by simp
    moreover have "sv_contexts_inv n ?t" using base(1) by (simp add: sv_contexts_inv_def)
    moreover have "sv_ids_inv ?t"
    proof -
      have id: "c_conn_id ?c = sv_conn_id s" by (simp add: set_conn_id_def)
      have fresh: "?h \<notin> snd ` set (sv_connections s)" using assms by (simp add: sv_inv_def)
      have ids: "\<forall>(i, j) \<in> set (sv_connections s). i < sv_conn_id s \<and> j < length (sv_conns s) \<and> c_conn_id (sv_conns s ! j) = i"
        "distinct (map fst (sv_connections s))" "distinct (map snd (sv_connections s))"
        using base(2) by (simp_all add: sv_ids_inv_def)
      have "i < sv_conn_id s + 1 \<and> j < length (sv_conns s) \<and> c_conn_id (sv_conns ?t ! j) = i"
        if "(i, j) \<in> set (sv_connections ?t)" for i j
      proof (cases "(i, j) \<in> set (sv_connections s)")
        case True
        then have "j \<noteq> ?h" using fresh by force
        then show ?thesis using True ids(1) at [of j] by auto
      next
        case False
        then show ?thesis using that h id at [of ?h] by simp
      qed
      moreover have "sv_conn_id s \<notin> fst ` set (sv_connections s)" using ids(1) by force
      ultimately show ?thesis using ids(2,3) fresh unfolding sv_ids_inv_def len by (auto simp: image_iff)
    qed
    moreover have "on_accept failed s = do_accept ?t" using False by (simp add: on_accept_def Let_def)
    ultimately show ?thesis by (simp add: sv_inv_do_accept)
  qed
qed

section \<open>Steps\<close>

text \<open>Functions that respect the server's data: what every registered function must do.\<close>

definition respectful :: "nat \<Rightarrow> ('u server, nat) router \<Rightarrow> bool" where
  "respectful n r \<longleftrightarrow>
     (\<forall>key iv s h data. map_invokers r key = Some iv \<longrightarrow> sv_inv n s \<longrightarrow> sv_inv n (fst (iv s h data)))"

lemma route_state:
  "route r f d (Some (h, i)) s = (s', res) \<Longrightarrow>
   s' = s \<or> (\<exists>iv. map_invokers r f = Some iv \<and> s' = fst (iv s h d))"
  by (auto simp: route_def split: option.splits prod.splits sum.splits)

inductive server_step :: "('u server, nat) router \<Rightarrow> 'u server \<Rightarrow> 'u server \<Rightarrow> bool" for r where
  sv_accept: "sv_accepting s \<Longrightarrow> server_step r s (on_accept failed s)"
| sv_head: "h < length (sv_conns s) \<Longrightarrow> c_reading (sv_conns s ! h) = Head_read \<Longrightarrow>
    server_step r s (server_head h res s)"
| sv_body: "h < length (sv_conns s) \<Longrightarrow> c_reading (sv_conns s ! h) = Body_read f k \<Longrightarrow>
    server_body r h res s = Some s' \<Longrightarrow> server_step r s s'"
| sv_write: "h < length (sv_conns s) \<Longrightarrow> c_writing (sv_conns s ! h) \<Longrightarrow> server_step r s (server_write h ec s)"
| sv_timer: "h < length (sv_conns s) \<Longrightarrow> server_step r s (server_timer h cancelled s)"
| sv_respond: "h < length (sv_conns s) \<Longrightarrow> response rid data ty (sv_conns s ! h) = Some c \<Longrightarrow>
    server_step r s (put_conn h c s)"
| sv_publish: "publish_key_token key token data s = Some (s', res) \<Longrightarrow> server_step r s s'"
| sv_clean: "server_step r s (clean_pass s)"
| sv_clean_sub: "server_step r s (clean_sub_pub_pass s)"
| sv_stop: "server_step r s (stop_server s)"
| sv_callbacks: "server_step r s (set_conn_timeout_callback s)"
| sv_net: "server_step r s (set_network_err_callback s)"
| sv_env: "server_step r s (s\<lparr>sv_user := u\<rparr>)"

lemma sv_inv_unrelated:
  assumes "sv_inv n s" "sv_contexts t = sv_contexts s" "sv_conn t = sv_conn s" "sv_conns t = sv_conns s"
    "pool_inv n (sv_pool t)" "next_io_service (sv_pool t) = next_io_service (sv_pool s)"
    "sv_connections t = sv_connections s" "sv_conn_id t = sv_conn_id s" "sv_sub_map t = sv_sub_map s"
    "sv_accepting t = sv_accepting s"
  shows "sv_inv n t"
  using assms(1,5)
  unfolding sv_inv_def sv_contexts_inv_def sv_ids_inv_def sv_subs_inv_def sv_known_def assms(2-4,6-)
  by blast

lemma sv_inv_pool: "sv_inv n s \<Longrightarrow> pool_inv n (sv_pool s)"
  by (simp add: sv_inv_def sv_contexts_inv_def)

lemma sv_inv_publish_loop:
  "publish_loop ck d hs s = Some (s', res) \<Longrightarrow> sv_inv n s \<Longrightarrow> sv_inv n s'"
proof (induction ck d hs s rule: publish_loop.induct)
  case (2 ck d h hs s)
  show ?case
  proof (cases "lock_conn h s")
    case None
    then show ?thesis using 2 by simp
  next
    case (Some c)
    then have c: "c = sv_conns s ! h" by (auto simp: lock_conn_def Let_def split: if_splits)
    have "sv_inv n (put_conn h c' s)" if "publish_conn ck d c = Some (Inr c')" for c'
      using that c 2(5) evolves_response
      by (auto simp: publish_conn_def intro!: sv_inv_put split: sum.splits)
    then show ?thesis using 2 Some
      by (auto split: if_splits option.splits sum.splits)
  qed
qed simp

lemma sv_inv_publish: "publish_key_token k t d s = Some (s', res) \<Longrightarrow> sv_inv n s \<Longrightarrow> sv_inv n s'"
  by (auto simp: publish_key_token_def split: if_splits sum.splits dest: sv_inv_publish_loop)

lemma sv_inv_clean: "sv_inv n s \<Longrightarrow> sv_inv n (clean_pass s)"
proof -
  assume inv: "sv_inv n s"
  have map_filter_distinct: "distinct (map f xs) \<Longrightarrow> distinct (map f (filter P xs))" for f :: "int \<times> nat \<Rightarrow> 'b" and P xs
    by (induction xs) auto
  have known: "sv_known s j \<Longrightarrow> sv_known (clean_pass s) j" for j
    by (auto simp: sv_known_def clean_pass_def Let_def image_iff)
  have "sv_ids_inv (clean_pass s)"
    using inv unfolding sv_inv_def sv_ids_inv_def
    by (auto simp: clean_pass_def Let_def map_filter_distinct)
  moreover have "sv_subs_inv (clean_pass s)"
    using inv known unfolding sv_inv_def sv_subs_inv_def by (auto simp: clean_pass_def Let_def)
  ultimately show ?thesis using inv
    by (auto simp: sv_inv_def sv_contexts_inv_def clean_pass_def Let_def)
qed

lemma clean_sub_loop_result:
  "clean_sub_loop is_dead subs tokens =
     (filter (\<lambda>(k, h). \<not> is_dead h) subs,
      filter (\<lambda>t. \<forall>(k, h) \<in> set subs. is_dead h \<longrightarrow> \<not> contains k t) tokens)"
  by (induction is_dead subs tokens rule: clean_sub_loop.induct) (auto intro!: filter_cong)

lemma sv_inv_clean_sub: "sv_inv n s \<Longrightarrow> sv_inv n (clean_sub_pub_pass s)"
  by (auto simp: sv_inv_def sv_contexts_inv_def sv_ids_inv_def sv_subs_inv_def sv_known_def
      clean_sub_pub_pass_def clean_sub_loop_result)

lemma sv_inv_subscribe: "sv_inv n s \<Longrightarrow> sv_known s h \<Longrightarrow> sv_inv n (on_subscribe key token h s)"
  by (auto simp: sv_inv_def sv_contexts_inv_def sv_ids_inv_def sv_subs_inv_def sv_known_def
      on_subscribe_def Let_def)

lemma sv_inv_body:
  assumes "sv_inv n s" "respectful n r" "h < length (sv_conns s)" "server_body r h res s = Some s'"
  shows "sv_inv n s'"
proof -
  obtain c event where b: "on_body_bytes res (sv_conns s ! h) = (c, event)" by fastforce
  let ?s = "put_conn h c s"
  have inv: "sv_inv n ?s" using evolves_body [OF b] by (intro sv_inv_put [OF assms(1)])
  show ?thesis
  proof (cases event)
    case No_event
    then show ?thesis using assms(4) inv by (simp add: server_body_def b)
  next
    case (Subscribe_event key token)
    have "c_reading (sv_conns s ! h) \<noteq> No_read"
      using b Subscribe_event by (auto simp: on_body_bytes_def split: pending_read.splits)
    then have "sv_known s h" using assms(1,3) by (simp add: sv_inv_def sv_subs_inv_def)
    then have "sv_known ?s h" using evolves_body [OF b] by (intro known_put) (simp_all add: evolves_def)
    then show ?thesis using assms(4) Subscribe_event sv_inv_subscribe [OF inv] by (auto simp: server_body_def b Let_def)
  next
    case (Route_event f q)
    obtain t out where t: "route r f q (Some (h, c_req_id c)) ?s = (t, out)" by fastforce
    have "sv_inv n t"
      using route_state [OF t] inv assms(2) by (auto simp: respectful_def)
    then show ?thesis using assms(4) t Route_event
      by (auto simp: server_body_def b Let_def split: sum.splits option.splits prod.splits if_splits
          intro!: sv_inv_put dest: evolves_response)
  qed
qed

lemma sv_inv_step:
  assumes "server_step r s t" "respectful n r" "sv_inv n s"
  shows "sv_inv n t"
  using assms
proof (induction rule: server_step.induct)
  case (sv_stop s)
  then show ?case
    by (rule_tac sv_inv_unrelated [of n s])
      (auto simp: stop_server_def stop_pool_def pool_inv_def sv_inv_def sv_contexts_inv_def)
next
  case (sv_callbacks s)
  show ?case unfolding set_conn_timeout_callback_def
    by (rule sv_inv_unrelated [OF sv_callbacks(2)]) (simp_all add: sv_inv_pool [OF sv_callbacks(2)])
next
  case (sv_net s)
  show ?case unfolding set_network_err_callback_def
    by (rule sv_inv_unrelated [OF sv_net(2)]) (simp_all add: sv_inv_pool [OF sv_net(2)])
next
  case (sv_env s u)
  show ?case by (rule sv_inv_unrelated [OF sv_env(2)]) (simp_all add: sv_inv_pool [OF sv_env(2)])
qed (auto simp: server_head_def server_write_def server_timer_def
    intro!: sv_inv_put sv_inv_accept sv_inv_clean sv_inv_clean_sub evolves_head evolves_write evolves_timer
    intro: sv_inv_publish sv_inv_body dest: evolves_response)

interpretation sv_sys: invariant_system "server_step r" "\<lambda>s. respectful n r \<and> sv_inv n s"
    for r :: "('u server, nat) router" and n
  by unfold_locales (auto intro: sv_inv_step)

section \<open>Publishing\<close>

text \<open>The bytes of one published message.\<close>

definition published :: "bytes \<Rightarrow> bytes \<Rightarrow> bytes res" where
  "published ck d = pack_args_str RC_OK [V_string ck, V_string d]"

definition sub_message :: "bytes \<Rightarrow> message_type" where
  "sub_message b = \<lparr>m_req_id = 0, m_req_type = sub_pub, m_content = b\<rparr>"

lemma publish_conn_ok:
  "published ck d = Inr b \<Longrightarrow> length b < MAX_BUF_LEN \<Longrightarrow>
   publish_conn ck d c = Some (Inr (enqueue (sub_message b) c))"
  by (simp add: publish_conn_def published_def response_def sub_message_def)

lemma publish_conn_big:
  "published ck d = Inr b \<Longrightarrow> MAX_BUF_LEN \<le> length b \<Longrightarrow> publish_conn ck d c = None"
  by (simp add: publish_conn_def published_def response_def)

lemma lock_conn_some: "lock_conn h s = Some c \<Longrightarrow> c = sv_conns s ! h"
  by (auto simp: lock_conn_def Let_def split: if_splits)

lemma enqueue_fields [simp]:
  "c_has_closed (enqueue m c) = c_has_closed c" "c_reading (enqueue m c) = c_reading c"
  "c_timer_armed (enqueue m c) = c_timer_armed c" "c_writing c \<Longrightarrow> c_writing (enqueue m c)"
  by (simp_all add: enqueue_def write_front_def Let_def)

text \<open>A message queued on a live connection changes nobody's liveness.\<close>

lemma dead_put_enqueue:
  assumes "\<not> dead s h" "h < length (sv_conns s)" "j < length (sv_conns s)"
  shows "dead (put_conn h (enqueue m (sv_conns s ! h)) s) j = dead s j"
  using assms by (auto simp: dead_def lock_conn_def Let_def split: option.splits if_splits)

lemma publish_loop_delivers:
  assumes "published ck d = Inr b" "length b < MAX_BUF_LEN"
  shows "\<forall>h \<in> set hs. h < length (sv_conns s) \<Longrightarrow>
    \<exists>s'. publish_loop ck d hs s = Some (s', Inr ()) \<and> length (sv_conns s') = length (sv_conns s) \<and>
      (\<forall>j < length (sv_conns s). sv_conns s' ! j =
        (enqueue (sub_message b) ^^ (if dead s j then 0 else count_list hs j)) (sv_conns s ! j)) \<and>
      s' = s\<lparr>sv_conns := sv_conns s'\<rparr>"
proof (induction hs arbitrary: s)
  case (Cons h hs)
  show ?case
  proof (cases "dead s h")
    case True
    then have "publish_loop ck d (h # hs) s = publish_loop ck d hs s"
      by (auto simp: dead_def split: option.splits)
    moreover have "(if dead s j then 0 else count_list (h # hs) j) = (if dead s j then 0 else count_list hs j)" for j
      using True by auto
    ultimately show ?thesis using Cons by simp
  next
    case False
    let ?m = "sub_message b" and ?c = "sv_conns s ! h"
    let ?s = "put_conn h (enqueue ?m ?c) s"
    have h: "h < length (sv_conns s)" using Cons.prems by simp
    have "lock_conn h s = Some ?c" "\<not> c_has_closed ?c"
      using False lock_conn_some [of h s] by (auto simp: dead_def split: option.splits)
    then have step: "publish_loop ck d (h # hs) s = publish_loop ck d hs ?s"
      using publish_conn_ok [OF assms] by simp
    obtain s' where s': "publish_loop ck d hs ?s = Some (s', Inr ())"
      "length (sv_conns s') = length (sv_conns s)"
      "\<forall>j < length (sv_conns s). sv_conns s' ! j =
        (enqueue ?m ^^ (if dead ?s j then 0 else count_list hs j)) (sv_conns ?s ! j)"
      "s' = ?s\<lparr>sv_conns := sv_conns s'\<rparr>"
      using Cons.IH [of ?s] Cons.prems by auto
    have "sv_conns s' ! j = (enqueue ?m ^^ (if dead s j then 0 else count_list (h # hs) j)) (sv_conns s ! j)"
      if j: "j < length (sv_conns s)" for j
      using s'(3) j False dead_put_enqueue [OF False h j] h by (simp add: funpow_swap1)
    moreover have "s' = s\<lparr>sv_conns := sv_conns s'\<rparr>" by (subst s'(4)) (simp add: put_conn_def)
    ultimately show ?thesis using s'(1,2) step by auto
  qed
qed simp

lemma publish_loop_aborts:
  assumes "published ck d = Inr b" "MAX_BUF_LEN \<le> length b"
  shows "\<exists>h \<in> set hs. \<not> dead s h \<Longrightarrow> publish_loop ck d hs s = None"
proof (induction hs)
  case (Cons h hs)
  then show ?case
    using publish_conn_big [OF assms] by (auto simp: dead_def split: option.splits)
qed simp

text \<open>In a reachable state a connection is dead for the publisher exactly when it was closed.\<close>

lemma dead_iff_closed:
  assumes "sv_inv n s" "h \<in> snd ` set (sv_sub_map s)"
  shows "dead s h \<longleftrightarrow> c_has_closed (sv_conns s ! h)"
proof -
  have "sv_known s h" using assms unfolding sv_inv_def sv_subs_inv_def by blast
  then show ?thesis by (auto simp: dead_def lock_conn_def sv_known_def Let_def split: option.splits)
qed

lemma subscribed_known: "sv_inv n s \<Longrightarrow> h \<in> snd ` set (sv_sub_map s) \<Longrightarrow> sv_known s h"
  unfolding sv_inv_def sv_subs_inv_def by blast

lemma in_subscribers: "h \<in> set (subscribers ck s) \<longleftrightarrow> (ck, h) \<in> set (sv_sub_map s)"
  by (force simp: subscribers_def)

lemma subscribers_valid:
  "sv_inv n s \<Longrightarrow> h \<in> set (subscribers ck s) \<Longrightarrow> h < length (sv_conns s) \<and> h \<in> snd ` set (sv_sub_map s)"
  using subscribed_known [of n s h] image_eqI [of h snd "(ck, h)" "set (sv_sub_map s)"]
  by (simp add: in_subscribers sv_known_def)

lemma enqueue_queue: "c_write_queue ((enqueue m ^^ k) c) = c_write_queue c @ replicate k m"
  by (induction k) (auto simp: out.push_queue replicate_append_same)

lemma contains_sublist: "contains k t \<longleftrightarrow> (\<exists>p q. k = p @ t @ q)"
proof (induction k)
  case (Cons c k)
  have "take (length t) (c # k) = t \<longleftrightarrow> (\<exists>q. c # k = t @ q)"
    by (metis append_eq_conv_conj)
  then show ?case using Cons by (auto simp: Cons_eq_append_conv)
qed simp

lemma deliveries_to_live:
  assumes "sv_inv n s" "get_shared_data data = Inr d" "published (key @ token) d = Inr b" "length b < MAX_BUF_LEN"
  shows "\<exists>s'. publish_key_token key token data s = Some (s', Inr ()) \<and>
    length (sv_conns s') = length (sv_conns s) \<and> s' = s\<lparr>sv_conns := sv_conns s'\<rparr> \<and>
    (\<forall>h < length (sv_conns s). c_write_queue (sv_conns s' ! h) = c_write_queue (sv_conns s ! h) @
      replicate (if c_has_closed (sv_conns s ! h) then 0 else count_list (sv_sub_map s) (key @ token, h)) (sub_message b))"
proof (cases "sv_sub_map s = []")
  case True
  then show ?thesis by (simp add: publish_key_token_def)
next
  case False
  have valid: "\<forall>h \<in> set (subscribers (key @ token) s). h < length (sv_conns s)"
    using subscribers_valid [OF assms(1)] by blast
  obtain s' where s': "publish_loop (key @ token) d (subscribers (key @ token) s) s = Some (s', Inr ())"
    "length (sv_conns s') = length (sv_conns s)" "s' = s\<lparr>sv_conns := sv_conns s'\<rparr>"
    "\<forall>j < length (sv_conns s). sv_conns s' ! j = (enqueue (sub_message b) ^^
       (if dead s j then 0 else count_list (subscribers (key @ token) s) j)) (sv_conns s ! j)"
    using publish_loop_delivers [OF assms(3,4) valid] by blast
  have "count_list (map snd (filter (\<lambda>(k, h). k = ck) xs)) j = count_list xs (ck, j)" for ck j and xs :: "(bytes \<times> nat) list"
    by (induction xs) auto
  then have count: "count_list (subscribers ck s) j = count_list (sv_sub_map s) (ck, j)" for ck j
    by (simp add: subscribers_def)
  have "(if dead s j then 0 else count_list (sv_sub_map s) (ck, j)) =
      (if c_has_closed (sv_conns s ! j) then 0 else count_list (sv_sub_map s) (ck, j))" for ck j
    using dead_iff_closed [OF assms(1), of j] image_eqI [of j snd "(ck, j)" "set (sv_sub_map s)"]
    by (cases "(ck, j) \<in> set (sv_sub_map s)") (auto simp: count_notin)
  then have "c_write_queue (sv_conns s' ! h) = c_write_queue (sv_conns s ! h) @
      replicate (if c_has_closed (sv_conns s ! h) then 0 else count_list (sv_sub_map s) (key @ token, h)) (sub_message b)"
    if "h < length (sv_conns s)" for h
    using s'(4) that by (simp only: count enqueue_queue)
  then show ?thesis using False assms(2) s' by (auto simp: publish_key_token_def)
qed

lemma oversize_aborts:
  assumes "sv_inv n s" "(key @ token, h) \<in> set (sv_sub_map s)" "\<not> c_has_closed (sv_conns s ! h)"
    and "get_shared_data data = Inr d" "published (key @ token) d = Inr b" "MAX_BUF_LEN \<le> length b"
  shows "publish_key_token key token data s = None"
proof -
  have "\<not> dead s h" using dead_iff_closed [OF assms(1)] assms(2,3) by force
  then have "\<exists>h \<in> set (subscribers (key @ token) s). \<not> dead s h" using assms(2) by (auto simp: in_subscribers)
  then have "publish_loop (key @ token) d (subscribers (key @ token) s) s = None"
    by (rule publish_loop_aborts [OF assms(5,6)])
  then show ?thesis using assms(2,4) by (auto simp: publish_key_token_def)
qed

text \<open>Publishing touches nothing but outgoing queues.\<close>

lemma publish_loop_keeps:
  "publish_loop ck d hs s = Some (s', res) \<Longrightarrow>
   s' = s\<lparr>sv_conns := sv_conns s'\<rparr> \<and> length (sv_conns s') = length (sv_conns s) \<and>
   (\<forall>h < length (sv_conns s). c_has_closed (sv_conns s' ! h) = c_has_closed (sv_conns s ! h))"
proof (induction ck d hs s rule: publish_loop.induct)
  case (2 ck d h hs s)
  show ?case
  proof (cases "\<exists>c c'. lock_conn h s = Some c \<and> \<not> c_has_closed c \<and> publish_conn ck d c = Some (Inr c')")
    case True
    then obtain c c' where c: "lock_conn h s = Some c" "\<not> c_has_closed c" "publish_conn ck d c = Some (Inr c')" by blast
    then obtain m where m: "c' = enqueue m c" by (auto simp: publish_conn_def response_def split: sum.splits if_splits)
    let ?s = "put_conn h c' s"
    have "s' = ?s\<lparr>sv_conns := sv_conns s'\<rparr>" "length (sv_conns s') = length (sv_conns ?s)"
      "\<forall>h < length (sv_conns ?s). c_has_closed (sv_conns s' ! h) = c_has_closed (sv_conns ?s ! h)"
      using 2 c by simp_all
    moreover have "c_has_closed (sv_conns ?s ! j) = c_has_closed (sv_conns s ! j)" if "j < length (sv_conns s)" for j
      using that lock_conn_some [OF c(1)] m by (cases "h = j") (simp_all add: put_conn_def)
    ultimately show ?thesis by (simp add: put_conn_def)
  next
    case False
    then show ?thesis using 2 by (auto split: option.splits if_splits sum.splits)
  qed
qed simp

lemma publish_keeps:
  "publish_key_token k t d s = Some (s', res) \<Longrightarrow>
   s' = s\<lparr>sv_conns := sv_conns s'\<rparr> \<and> length (sv_conns s') = length (sv_conns s) \<and>
   (\<forall>h < length (sv_conns s). c_has_closed (sv_conns s' ! h) = c_has_closed (sv_conns s ! h))"
  by (auto simp: publish_key_token_def split: if_splits sum.splits dest: publish_loop_keeps)

section \<open>Properties\<close>

text \<open>C14. Whatever clients, timers, cleaning, publishing and the registered functions do: numbers of
  connections are never reused, a subscription always leads to an existing connection that is
  closed or still in \<open>connections_\<close> (so its weak pointer locks as long as it is open), every
  connection keeps its own invariant, and connections are spread over the pool in turn.\<close>

theorem server_safe:
  assumes "new_server n t fresh u = Inr s0" "respectful n r" "(server_step r)\<^sup>*\<^sup>* s0 s"
  shows "distinct (map fst (sv_connections s)) \<and> (\<forall>(i, h) \<in> set (sv_connections s). i < sv_conn_id s) \<and>
    (\<forall>(k, h) \<in> set (sv_sub_map s). h < length (sv_conns s) \<and> (dead s h \<longleftrightarrow> c_has_closed (sv_conns s ! h))) \<and>
    (\<forall>c \<in> set (sv_conns s). conn_inv c) \<and>
    sv_contexts s = map (\<lambda>k. (k + 2) mod n) [0..<length (sv_conns s)]"
proof -
  have inv: "sv_inv n s" using sv_sys.reachable_good [OF assms(3)] sv_inv_new [OF assms(1)] assms(2) by blast
  have "h < length (sv_conns s) \<and> (dead s h \<longleftrightarrow> c_has_closed (sv_conns s ! h))" if "(k, h) \<in> set (sv_sub_map s)" for k h
    using dead_iff_closed [OF inv, of h] subscribed_known [OF inv, of h] image_eqI [OF _ that, of h snd]
    by (simp add: sv_known_def)
  then show ?thesis using inv unfolding sv_inv_def sv_ids_inv_def sv_contexts_inv_def sv_subs_inv_def by auto
qed

text \<open>A server with one accepted connection, for the witnesses.\<close>

definition fresh_memory :: "nat \<Rightarrow> bytes \<times> u64 \<times> request_type \<times> rpc_header" where
  "fresh_memory k = ([0, 0, 0, 0, 0, 0], 0, 0,
     \<lparr>h_magic = 0, h_req_type = 0, h_body_len = 0, h_req_id = 0, h_func_id = 0\<rparr>)"

definition one_client :: "unit server" where
  "one_client = on_accept False (case new_server 4 15 fresh_memory () of Inr s \<Rightarrow> s)"

lemma one_client_server:
  obtains s where "new_server 4 15 fresh_memory () = Inr s" "one_client = on_accept False s" "sv_accepting s"
  by (cases "new_server 4 15 fresh_memory ()")
    (auto simp: one_client_def new_server_def new_pool_def do_accept_def case_prod_beta split: sum.splits)

lemma one_client_inv: "sv_inv 4 one_client"
  using one_client_server sv_inv_new sv_inv_accept by metis

lemma one_client_conns:
  "length (sv_conns one_client) = 2" "\<not> c_has_closed (sv_conns one_client ! 0)"
  "sv_connections one_client = [(0, 0)]" "sv_sub_map one_client = []" "sv_token_list one_client = []"
  "c_write_queue (sv_conns one_client ! 0) = []"
  by (simp_all add: one_client_def new_server_def new_pool_def on_accept_def do_accept_def fresh_memory_def
      eval_nat_numeral get_io_service_def put_conn_def start_def read_head_def reset_timer_def set_conn_id_def
      new_connection_def Let_def)

lemma one_client_known: "sv_known one_client 0"
  by (simp add: sv_known_def one_client_conns)

theorem server_safe_witness:
  "distinct (map fst (sv_connections one_client)) \<and> sv_contexts one_client = [2, 3]"
proof -
  obtain s where s: "new_server 4 15 fresh_memory () = Inr s" "one_client = on_accept False s" "sv_accepting s"
    by (rule one_client_server)
  have "(server_step (empty_router :: (unit server, nat) router))\<^sup>*\<^sup>* s one_client"
    unfolding s(2) by (intro r_into_rtranclp server_step.sv_accept s(3))
  moreover have "respectful 4 (empty_router :: (unit server, nat) router)" by (simp add: respectful_def)
  ultimately show ?thesis
    using server_safe [OF s(1), of empty_router one_client] by (simp add: one_client_conns upt_rec)
qed

text \<open>C15. A published value reaches every open connection once per subscription to the composite key,
  in one message of the key and the value, and no other connection; the rest of the server is
  unchanged.\<close>

theorem publish_reaches_subscribers:
  assumes "sv_inv n s" "get_shared_data data = Inr d" "published (key @ token) d = Inr b" "length b < MAX_BUF_LEN"
  shows "\<exists>s'. publish_by_token key token data s = Some (s', Inr ()) \<and> s' = s\<lparr>sv_conns := sv_conns s'\<rparr> \<and>
    (\<forall>h < length (sv_conns s). c_write_queue (sv_conns s' ! h) = c_write_queue (sv_conns s ! h) @
      replicate (if c_has_closed (sv_conns s ! h) then 0 else count_list (sv_sub_map s) (key @ token, h)) (sub_message b))"
  using deliveries_to_live [OF assms] by (auto simp: publish_by_token_def)

theorem publish_reaches_subscribers_witness:
  "\<exists>s'. publish_by_token (lit ''key'') (lit ''t'') (V_string (lit ''hi'')) (on_subscribe (lit ''ke'') (lit ''yt'') 0 one_client)
      = Some (s', Inr ()) \<and>
    c_write_queue (sv_conns s' ! 0) = [sub_message ([0x93, 0x00] @ pack_str 4 @ lit ''keyt'' @ pack_str 2 @ lit ''hi'')]"
proof -
  let ?s = "on_subscribe (lit ''ke'') (lit ''yt'') 0 one_client"
  let ?b = "[0x93, 0x00] @ pack_str 4 @ lit ''keyt'' @ pack_str 2 @ lit ''hi''"
  have "sv_inv 4 ?s" using sv_inv_subscribe [OF one_client_inv one_client_known] .
  moreover have "get_shared_data (V_string (lit ''hi'')) = Inr (lit ''hi'')" by simp
  moreover have "published (lit ''key'' @ lit ''t'') (lit ''hi'') = Inr ?b"
    by (simp add: published_def pack_args_str_def append_res_def pack_array_def pack_int_def pack_imp_int32_def
        pack_string_def checked_get_container_size_def pack_body_def lit_def)
  moreover have "length ?b < MAX_BUF_LEN" by (simp add: MAX_BUF_LEN_def pack_str_def)
  ultimately obtain s' where "publish_by_token (lit ''key'') (lit ''t'') (V_string (lit ''hi'')) ?s = Some (s', Inr ())"
    "\<forall>h < length (sv_conns ?s). c_write_queue (sv_conns s' ! h) = c_write_queue (sv_conns ?s ! h) @
      replicate (if c_has_closed (sv_conns ?s ! h) then 0 else count_list (sv_sub_map ?s) (lit ''key'' @ lit ''t'', h)) (sub_message ?b)"
    using publish_reaches_subscribers [of 4 ?s] by blast
  moreover have "sv_conns ?s = sv_conns one_client" "sv_sub_map ?s = [(lit ''key'' @ lit ''t'', 0)]"
    by (simp_all add: on_subscribe_def Let_def one_client_conns lit_def)
  ultimately show ?thesis by (auto simp: one_client_conns)
qed

text \<open>A value too large for one message ends the server process as soon as one open connection is
  subscribed: nothing checks its size before the \<open>assert\<close> in \<open>response\<close>.\<close>

theorem publish_oversize_aborts:
  assumes "sv_inv n s" "(key @ token, h) \<in> set (sv_sub_map s)" "\<not> c_has_closed (sv_conns s ! h)"
    and "get_shared_data data = Inr d" "published (key @ token) d = Inr b" "MAX_BUF_LEN \<le> length b"
  shows "publish_by_token key token data s = None"
  using oversize_aborts [OF assms] by (simp add: publish_by_token_def)

theorem publish_oversize_aborts_witness:
  "publish_by_token (lit ''k'') [] (V_string (replicate 10485760 0)) (on_subscribe (lit ''k'') [] 0 one_client) = None"
proof -
  let ?d = "replicate 10485760 0 :: bytes" and ?s = "on_subscribe (lit ''k'') [] 0 one_client"
  have "fits (V_tuple [V_int 0, V_string (lit ''k''), V_string ?d])" by simp
  from mp.pack_total [OF this] obtain b where b: "published (lit ''k'' @ []) ?d = Inr b"
    by (auto simp: published_def pack_args_str_def)
  then have "MAX_BUF_LEN \<le> length b"
    by (auto simp: published_def pack_args_str_def append_res_def pack_string_def checked_get_container_size_def
        pack_body_def MAX_BUF_LEN_def split: sum.splits if_splits)
  moreover have "sv_inv 4 ?s" using sv_inv_subscribe [OF one_client_inv one_client_known] .
  moreover have "(lit ''k'' @ [], 0) \<in> set (sv_sub_map ?s)" "\<not> c_has_closed (sv_conns ?s ! 0)"
    by (simp_all add: on_subscribe_def Let_def one_client_conns)
  ultimately show ?thesis using b by (intro publish_oversize_aborts) simp_all
qed

text \<open>C31. One pass of \<open>clean_sub_pub\<close> keeps exactly the subscriptions of living connections, in order,
  and erases exactly the tokens that occur anywhere inside the composite key of a dead one.\<close>

theorem clean_sub_pub_result:
  "sv_sub_map (clean_sub_pub_pass s) = filter (\<lambda>(k, h). \<not> dead s h) (sv_sub_map s) \<and>
   get_token_list (clean_sub_pub_pass s) =
     filter (\<lambda>t. \<not> (\<exists>k h. (k, h) \<in> set (sv_sub_map s) \<and> dead s h \<and> (\<exists>p q. k = p @ t @ q))) (sv_token_list s)"
  by (auto simp: clean_sub_pub_pass_def clean_sub_loop_result get_token_list_def contains_sublist
      intro!: filter_cong) blast

text \<open>So the token of a living subscriber is erased from the server's list when it happens to be
  part of a dead subscriber's key, though the subscription itself stays.\<close>

theorem clean_drops_live_token:
  assumes "(k, h) \<in> set (sv_sub_map s)" "dead s h" "k = p @ token @ q"
    and "(key @ token, h') \<in> set (sv_sub_map s)" "\<not> dead s h'"
  shows "token \<notin> set (get_token_list (clean_sub_pub_pass s)) \<and>
    (key @ token, h') \<in> set (sv_sub_map (clean_sub_pub_pass s))"
  using assms by (auto simp: clean_sub_pub_pass_def clean_sub_loop_result get_token_list_def contains_sublist
      intro!: bexI [of _ "(p @ token @ q, h)"])

theorem clean_drops_live_token_witness:
  "lit ''e'' \<notin> set (get_token_list (clean_sub_pub_pass (on_subscribe (lit ''news'') (lit ''e'') 0
      (on_subscribe (lit ''k'') (lit ''ey'') 1 (server_timer 1 False one_client)))))"
proof -
  let ?t = "server_timer 1 False one_client"
  let ?s = "on_subscribe (lit ''news'') (lit ''e'') 0 (on_subscribe (lit ''k'') (lit ''ey'') 1 ?t)"
  have conns: "sv_conns ?s = (sv_conns one_client)[1 := on_timer False (sv_conns one_client ! 1)]"
    "sv_connections ?s = [(0, 0)]" "sv_sub_map ?s = [(lit ''k'' @ lit ''ey'', 1), (lit ''news'' @ lit ''e'', 0)]"
    by (simp_all add: on_subscribe_def server_timer_def put_conn_def Let_def one_client_conns)
  have dead: "dead ?s 1"
    using conns [simplified] by (auto simp: dead_def lock_conn_def Let_def one_client_conns on_timer_def close_conn_def)
  have live: "\<not> dead ?s 0"
    using conns [simplified] by (auto simp: dead_def lock_conn_def Let_def one_client_conns)
  show ?thesis
    by (rule clean_drops_live_token [OF _ dead _ _ live, of "lit ''k'' @ lit ''ey''" "lit ''k''" "lit ''e''" "lit ''y''"
          "lit ''news''", THEN conjunct1], unfold conns(3)) (simp_all add: lit_def)
qed

text \<open>One pass of \<open>clean\<close> forgets exactly the closed connections and reports each of them once, by
  its number.\<close>

theorem clean_result:
  assumes "sv_inv n s" "sv_timeout_cb s"
  shows "sv_connections (clean_pass s) = filter (\<lambda>(i, h). \<not> c_has_closed (sv_conns s ! h)) (sv_connections s) \<and>
    sv_timeouts (clean_pass s) = sv_timeouts s @
      map fst (filter (\<lambda>(i, h). c_has_closed (sv_conns s ! h)) (sv_connections s))"
proof -
  have "\<forall>(i, h) \<in> set (sv_connections s). c_conn_id (sv_conns s ! h) = i"
    using assms(1) by (auto simp: sv_inv_def sv_ids_inv_def)
  then show ?thesis using assms(2) by (auto simp: clean_pass_def Let_def)
qed

theorem clean_result_witness:
  "sv_timeouts (clean_pass (server_timer 0 False (set_conn_timeout_callback one_client))) = [0]"
proof -
  let ?s = "server_timer 0 False (set_conn_timeout_callback one_client)"
  have "sv_inv 4 (set_conn_timeout_callback one_client)"
    unfolding set_conn_timeout_callback_def
    by (rule sv_inv_unrelated [OF one_client_inv]) (simp_all add: sv_inv_pool [OF one_client_inv])
  then have inv: "sv_inv 4 ?s" unfolding server_timer_def by (rule sv_inv_put [OF _ evolves_timer])
  have "sv_timeouts one_client = []"
    by (simp add: one_client_def new_server_def new_pool_def on_accept_def do_accept_def case_prod_beta Let_def put_conn_def)
  then have s: "sv_timeout_cb ?s" "sv_connections ?s = [(0, 0)]" "sv_timeouts ?s = []"
    "c_has_closed (sv_conns ?s ! 0)"
    by (simp_all add: server_timer_def set_conn_timeout_callback_def one_client_conns on_timer_def close_conn_def)
  show ?thesis using clean_result [OF inv s(1)] s by simp
qed

end
