(* ===== verification/Any_Lite.thy ===== *)
theory Any_Lite imports Msgpack_Adaptor begin

text \<open>
  \<open>include/rest_rpc/nonstd_any.hpp\<close>: the type-erased value a connection keeps for its user
  (\<open>set_user_data\<close>, \<open>get_user_data\<close> of \<open>connection.h\<close>), as it is compiled for C++11.

  An \<open>any\<close> holds a pointer to a \<open>holder\<close> on the heap, which knows its type and its value. Objects
  are numbered, \<open>aw_objs\<close> has the \<open>content\<close> of the ones that exist; \<open>aw_heap\<close> has the holders.
  \<open>None\<close> as a result is undefined behaviour: a holder that is deleted twice or used after its
  deletion. The temporaries of the copy-and-swap operators live inside the operation.
\<close>

record any_world =
  aw_heap :: "nat \<Rightarrow> (cty \<times> cval) option"
  aw_next :: nat
  aw_objs :: "nat \<Rightarrow> nat option option"

definition content :: "any_world \<Rightarrow> nat \<Rightarrow> nat option" where
  "content w x = (case aw_objs w x of None \<Rightarrow> None | Some c \<Rightarrow> c)"

definition set_content :: "nat \<Rightarrow> nat option \<Rightarrow> any_world \<Rightarrow> any_world" where
  "set_content x c w = w\<lparr>aw_objs := (aw_objs w)(x \<mapsto> c)\<rparr>"

section \<open>Holders\<close>

definition new_holder :: "cty \<Rightarrow> cval \<Rightarrow> any_world \<Rightarrow> nat \<times> any_world" where
  "new_holder t v w = (aw_next w, w\<lparr>aw_heap := (aw_heap w)(aw_next w \<mapsto> (t, v)), aw_next := Suc (aw_next w)\<rparr>)"

definition clone :: "nat option \<Rightarrow> any_world \<Rightarrow> (nat option \<times> any_world) option" where
  "clone c w =
     (case c of
        None \<Rightarrow> Some (None, w)
      | Some a \<Rightarrow>
          (case aw_heap w a of
             None \<Rightarrow> None
           | Some (t, v) \<Rightarrow> (case new_holder t v w of (b, w') \<Rightarrow> Some (Some b, w'))))"

definition delete_content :: "nat option \<Rightarrow> any_world \<Rightarrow> any_world option" where
  "delete_content c w =
     (case c of
        None \<Rightarrow> Some w
      | Some a \<Rightarrow> if aw_heap w a = None then None else Some (w\<lparr>aw_heap := (aw_heap w)(a := None)\<rparr>))"

section \<open>Construction and destruction\<close>

definition any_default :: "nat \<Rightarrow> any_world \<Rightarrow> any_world option" where
  "any_default x w = Some (set_content x None w)"

definition any_copy :: "nat \<Rightarrow> nat \<Rightarrow> any_world \<Rightarrow> any_world option" where
  "any_copy x y w = (case clone (content w y) w of None \<Rightarrow> None | Some (c, w') \<Rightarrow> Some (set_content x c w'))"

definition any_move :: "nat \<Rightarrow> nat \<Rightarrow> any_world \<Rightarrow> any_world option" where
  "any_move x y w = Some (set_content y None (set_content x (content w y) w))"

definition any_value :: "nat \<Rightarrow> cty \<Rightarrow> cval \<Rightarrow> any_world \<Rightarrow> any_world option" where
  "any_value x t v w = (case new_holder t v w of (a, w') \<Rightarrow> Some (set_content x (Some a) w'))"

definition any_reset :: "nat \<Rightarrow> any_world \<Rightarrow> any_world option" where
  "any_reset x w = map_option (set_content x None) (delete_content (content w x) w)"

definition any_destroy :: "nat \<Rightarrow> any_world \<Rightarrow> any_world option" where
  "any_destroy x w = map_option (\<lambda>w'. w'\<lparr>aw_objs := (aw_objs w')(x := None)\<rparr>) (any_reset x w)"

section \<open>Assignment\<close>

text \<open>\<open>any(...).swap(*this)\<close>: the temporary's content \<open>c\<close> goes in, the old one is deleted with it.\<close>

definition swap_temporary :: "nat option \<Rightarrow> nat \<Rightarrow> any_world \<Rightarrow> any_world option" where
  "swap_temporary c x w = delete_content (content w x) (set_content x c w)"

definition any_swap :: "nat \<Rightarrow> nat \<Rightarrow> any_world \<Rightarrow> any_world option" where
  "any_swap x y w = Some (set_content y (content w x) (set_content x (content w y) w))"

definition any_assign :: "nat \<Rightarrow> nat \<Rightarrow> any_world \<Rightarrow> any_world option" where
  "any_assign x y w =
     (case clone (content w y) w of None \<Rightarrow> None | Some (c, w') \<Rightarrow> swap_temporary c x w')"

definition any_assign_move :: "nat \<Rightarrow> nat \<Rightarrow> any_world \<Rightarrow> any_world option" where
  "any_assign_move x y w = swap_temporary (content w y) x (set_content y None w)"

definition any_assign_value :: "nat \<Rightarrow> cty \<Rightarrow> cval \<Rightarrow> any_world \<Rightarrow> any_world option" where
  "any_assign_value x t v w = (case new_holder t v w of (a, w') \<Rightarrow> swap_temporary (Some a) x w')"

definition any_emplace :: "nat \<Rightarrow> cty \<Rightarrow> cval \<Rightarrow> any_world \<Rightarrow> any_world option" where
  "any_emplace x t v w = (case new_holder t v w of (a, w') \<Rightarrow> swap_temporary (Some a) x w')"

definition make_any :: "nat \<Rightarrow> cty \<Rightarrow> cval \<Rightarrow> any_world \<Rightarrow> any_world option" where
  "make_any x t v w = any_value x t v w"

section \<open>Inspection\<close>

definition has_value :: "any_world \<Rightarrow> nat \<Rightarrow> bool" where
  "has_value w x \<longleftrightarrow> content w x \<noteq> None"

text \<open>\<open>type()\<close>; \<open>None\<close> is \<open>typeid(void)\<close>.\<close>

definition any_type :: "any_world \<Rightarrow> nat \<Rightarrow> cty option" where
  "any_type w x = (case content w x of None \<Rightarrow> None | Some a \<Rightarrow> map_option fst (aw_heap w a))"

definition to_ptr :: "any_world \<Rightarrow> nat \<Rightarrow> nat option" where
  "to_ptr w x = content w x"

definition any_cast_ptr :: "cty \<Rightarrow> any_world \<Rightarrow> nat \<Rightarrow> nat option" where
  "any_cast_ptr t w x = (if any_type w x = Some t then to_ptr w x else None)"

definition bad_any_cast :: exn where
  "bad_any_cast = other_exception (lit ''any-lite: bad any_cast'')"

definition any_cast :: "cty \<Rightarrow> any_world \<Rightarrow> nat \<Rightarrow> cval res" where
  "any_cast t w x =
     (case any_cast_ptr t w x of
        None \<Rightarrow> Inl bad_any_cast
      | Some a \<Rightarrow> (case aw_heap w a of None \<Rightarrow> Inl bad_any_cast | Some (t', v) \<Rightarrow> Inr v))"

text \<open>
  \<open>connection::set_user_data\<close> and \<open>get_user_data\<close>, with \<open>x\<close> the connection's \<open>user_data_\<close>. In
  \<open>user_data_ = data\<close> the template \<open>operator=(T&&)\<close> takes no part, as its \<open>ValueType\<close> cannot be
  deduced: the value is converted to a temporary \<open>any\<close> (the object \<open>tmp\<close>), which is moved in.
\<close>

definition set_user_data :: "nat \<Rightarrow> nat \<Rightarrow> cty \<Rightarrow> cval \<Rightarrow> any_world \<Rightarrow> any_world option" where
  "set_user_data tmp x t v w =
     Option.bind (any_value tmp t v w) (\<lambda>w1.
     Option.bind (any_assign_move x tmp w1) (\<lambda>w2. any_destroy tmp w2))"

definition get_user_data :: "nat \<Rightarrow> cty \<Rightarrow> any_world \<Rightarrow> cval res" where
  "get_user_data x t w = any_cast t w x"

section \<open>Programs\<close>

datatype any_op =
    Default nat
  | Copy nat nat
  | Move nat nat
  | Value nat cty cval
  | Destroy nat
  | Assign nat nat
  | Assign_move nat nat
  | Assign_value nat cty cval
  | Reset nat
  | Swap nat nat

fun any_step :: "any_op \<Rightarrow> any_world \<Rightarrow> any_world option" where
  "any_step (Default x) w = any_default x w"
| "any_step (Copy x y) w = any_copy x y w"
| "any_step (Move x y) w = any_move x y w"
| "any_step (Value x t v) w = any_value x t v w"
| "any_step (Destroy x) w = any_destroy x w"
| "any_step (Assign x y) w = any_assign x y w"
| "any_step (Assign_move x y) w = any_assign_move x y w"
| "any_step (Assign_value x t v) w = any_assign_value x t v w"
| "any_step (Reset x) w = any_reset x w"
| "any_step (Swap x y) w = any_swap x y w"

text \<open>What C++'s object lifetimes ensure: objects are constructed once and used while they exist.\<close>

definition exists_any :: "any_world \<Rightarrow> nat \<Rightarrow> bool" where
  "exists_any w x \<longleftrightarrow> aw_objs w x \<noteq> None"

fun legal_op :: "any_op \<Rightarrow> any_world \<Rightarrow> bool" where
  "legal_op (Default x) w \<longleftrightarrow> \<not> exists_any w x"
| "legal_op (Copy x y) w \<longleftrightarrow> \<not> exists_any w x \<and> exists_any w y"
| "legal_op (Move x y) w \<longleftrightarrow> \<not> exists_any w x \<and> exists_any w y"
| "legal_op (Value x t v) w \<longleftrightarrow> \<not> exists_any w x"
| "legal_op (Destroy x) w \<longleftrightarrow> exists_any w x"
| "legal_op (Assign x y) w \<longleftrightarrow> exists_any w x \<and> exists_any w y"
| "legal_op (Assign_move x y) w \<longleftrightarrow> exists_any w x \<and> exists_any w y"
| "legal_op (Assign_value x t v) w \<longleftrightarrow> exists_any w x"
| "legal_op (Reset x) w \<longleftrightarrow> exists_any w x"
| "legal_op (Swap x y) w \<longleftrightarrow> exists_any w x \<and> exists_any w y"

fun any_run :: "any_op list \<Rightarrow> any_world \<Rightarrow> any_world option" where
  "any_run [] w = Some w"
| "any_run (op # ops) w = Option.bind (any_step op w) (any_run ops)"

fun legal_run :: "any_op list \<Rightarrow> any_world \<Rightarrow> bool" where
  "legal_run [] w \<longleftrightarrow> True"
| "legal_run (op # ops) w \<longleftrightarrow>
     legal_op op w \<and> (case any_step op w of None \<Rightarrow> True | Some w' \<Rightarrow> legal_run ops w')"

definition no_anys :: any_world where
  "no_anys = \<lparr>aw_heap = (\<lambda>_. None), aw_next = 0, aw_objs = (\<lambda>_. None)\<rparr>"

section \<open>Ownership\<close>

text \<open>Every holder belongs to exactly one object.\<close>

definition any_inv :: "any_world \<Rightarrow> bool" where
  "any_inv w \<longleftrightarrow>
     (\<forall>x a. content w x = Some a \<longrightarrow> aw_heap w a \<noteq> None) \<and>
     (\<forall>x y a. content w x = Some a \<longrightarrow> content w y = Some a \<longrightarrow> x = y) \<and>
     (\<forall>a. aw_heap w a \<noteq> None \<longrightarrow> (\<exists>x. content w x = Some a)) \<and>
     (\<forall>a \<ge> aw_next w. aw_heap w a = None)"

lemma content_set [simp]: "content (set_content x c w) y = (if y = x then c else content w y)"
  by (simp add: content_def set_content_def)

lemma set_content_fields [simp]:
  "aw_heap (set_content x c w) = aw_heap w" "aw_next (set_content x c w) = aw_next w"
  by (simp_all add: set_content_def)

lemma content_heap [simp]:
  "content (w\<lparr>aw_heap := h\<rparr>) x = content w x" "content (w\<lparr>aw_heap := h, aw_next := n\<rparr>) x = content w x"
  by (simp_all add: content_def)

lemma dead_content: "\<not> exists_any w x \<Longrightarrow> content w x = None"
  by (simp add: exists_any_def content_def)

text \<open>
  While an operation runs, one holder may belong to its temporary: \<open>any_inv_temp\<close> has the
  temporary's content as well.
\<close>

definition any_inv_temp :: "nat option \<Rightarrow> any_world \<Rightarrow> bool" where
  "any_inv_temp c w \<longleftrightarrow>
     (\<forall>x a. content w x = Some a \<longrightarrow> aw_heap w a \<noteq> None) \<and>
     (\<forall>x y a. content w x = Some a \<longrightarrow> content w y = Some a \<longrightarrow> x = y) \<and>
     (\<forall>a. c = Some a \<longrightarrow> aw_heap w a \<noteq> None \<and> (\<forall>x. content w x \<noteq> Some a)) \<and>
     (\<forall>a. aw_heap w a \<noteq> None \<longrightarrow> c = Some a \<or> (\<exists>x. content w x = Some a)) \<and>
     (\<forall>a \<ge> aw_next w. aw_heap w a = None)"

lemma temp_none: "any_inv_temp None w \<longleftrightarrow> any_inv w"
  by (simp add: any_inv_temp_def any_inv_def)

lemma temp_new:
  assumes "any_inv w" "new_holder t v w = (a, w')"
  shows "any_inv_temp (Some a) w'"
proof -
  have a: "a = aw_next w" and w': "w' = w\<lparr>aw_heap := (aw_heap w)(a \<mapsto> (t, v)), aw_next := Suc a\<rparr>"
    using assms(2) by (auto simp: new_holder_def)
  have free: "content w x \<noteq> Some a" for x
    using assms(1) a unfolding any_inv_def by blast
  show ?thesis
    using assms(1) free a unfolding any_inv_temp_def any_inv_def w' by simp
qed

lemma temp_clone:
  assumes "any_inv w"
  shows "\<exists>c w'. clone (content w y) w = Some (c, w') \<and> any_inv_temp c w' \<and> aw_objs w' = aw_objs w"
proof (cases "content w y")
  case None
  then show ?thesis using assms by (simp add: clone_def temp_none)
next
  case (Some a)
  have "aw_heap w a \<noteq> None" using assms Some unfolding any_inv_def by blast
  then obtain t v where h: "aw_heap w a = Some (t, v)" by auto
  show ?thesis
    using temp_new [OF assms, of t v] Some h by (auto simp: clone_def new_holder_def)
qed

lemma temp_swap:
  assumes "any_inv_temp c w"
  shows "any_inv_temp (content w x) (set_content x c w)"
proof -
  have owner: "\<exists>y. (if y = x then c else content w y) = Some a"
    if "aw_heap w a \<noteq> None" "content w x \<noteq> Some a" for a
    using assms that unfolding any_inv_temp_def by metis
  have unique: "y = z" if "(if y = x then c else content w y) = Some a" "(if z = x then c else content w z) = Some a" for y z a
    using assms that unfolding any_inv_temp_def by (metis (full_types))
  have alive: "aw_heap w a \<noteq> None" if "(if y = x then c else content w y) = Some a" for y a
    using assms that unfolding any_inv_temp_def by (metis (full_types))
  have out: "aw_heap w a \<noteq> None \<and> (\<forall>y. (if y = x then c else content w y) \<noteq> Some a)" if "content w x = Some a" for a
    using assms that unfolding any_inv_temp_def by (metis (full_types))
  have fresh: "\<forall>a \<ge> aw_next w. aw_heap w a = None" using assms unfolding any_inv_temp_def by blast
  show ?thesis unfolding any_inv_temp_def content_set set_content_fields
    using owner unique alive out fresh by blast
qed

lemma temp_set: "any_inv_temp c w \<Longrightarrow> content w x = None \<Longrightarrow> any_inv (set_content x c w)"
  using temp_swap [of c w x] by (simp add: temp_none)

lemma temp_take: "any_inv w \<Longrightarrow> any_inv_temp (content w x) (set_content x None w)"
  using temp_swap [of None w x] by (simp add: temp_none)

lemma temp_delete:
  assumes "any_inv_temp c w"
  shows "\<exists>w'. delete_content c w = Some w' \<and> any_inv w' \<and> aw_objs w' = aw_objs w"
proof (cases c)
  case None
  then show ?thesis using assms by (simp add: delete_content_def temp_none)
next
  case (Some a)
  have "any_inv (w\<lparr>aw_heap := (aw_heap w)(a := None)\<rparr>)"
    using assms unfolding any_inv_temp_def any_inv_def Some by (simp; metis option.inject)
  moreover have "aw_heap w a \<noteq> None" using assms Some unfolding any_inv_temp_def by blast
  ultimately show ?thesis using Some by (simp add: delete_content_def)
qed

lemma inv_cong:
  assumes "any_inv w" "\<And>z. content w' z = content w z" "aw_heap w' = aw_heap w" "aw_next w' = aw_next w"
  shows "any_inv w'"
  using assms by (simp add: any_inv_def)

lemma step_keeps_inv:
  assumes "any_inv w" "legal_op op w"
  shows "\<exists>w'. any_step op w = Some w' \<and> any_inv w'"
proof -
  have swap: "\<exists>w'. swap_temporary c x v = Some w' \<and> any_inv w'" if "any_inv_temp c v" for c x v
    using temp_delete [OF temp_swap [OF that, of x]] by (auto simp: swap_temporary_def)
  have reset: "\<exists>w'. any_reset x w = Some w' \<and> any_inv w' \<and> content w' x = None" for x
  proof -
    obtain w' where w': "delete_content (content w x) (set_content x None w) = Some w'" "any_inv w'"
      "aw_objs w' = aw_objs (set_content x None w)"
      using temp_delete [OF temp_take [OF assms(1)]] by blast
    then have "any_reset x w = Some w'"
      by (auto simp: any_reset_def delete_content_def set_content_def split: option.splits if_splits)
    moreover have "content w' x = None" using w'(3) by (simp add: content_def set_content_def)
    ultimately show ?thesis using w'(2) by blast
  qed
  show ?thesis
  proof (cases op)
    case (Default x)
    then show ?thesis using assms temp_set [of None w x]
      by (simp add: any_default_def temp_none dead_content)
  next
    case (Copy x y)
    obtain c w' where c: "clone (content w y) w = Some (c, w')" "any_inv_temp c w'" "aw_objs w' = aw_objs w"
      using temp_clone [OF assms(1)] by blast
    then have "content w' x = None" using assms(2) Copy by (simp add: content_def exists_any_def)
    then show ?thesis using c temp_set Copy by (auto simp: any_copy_def)
  next
    case (Move x y)
    then have "x \<noteq> y" "content w x = None" using assms(2) dead_content by auto
    then have "set_content y None (set_content x (content w y) w) = set_content x (content w y) (set_content y None w)"
      by (simp add: set_content_def fun_upd_twist)
    moreover have "any_inv (set_content x (content w y) (set_content y None w))"
      using \<open>x \<noteq> y\<close> \<open>content w x = None\<close> by (intro temp_set temp_take assms(1)) simp
    ultimately show ?thesis using Move by (simp add: any_move_def)
  next
    case (Value x t v)
    obtain a w' where a: "new_holder t v w = (a, w')" by fastforce
    then have "content w' x = None" using assms(2) Value dead_content [of w x] by (auto simp: new_holder_def)
    then show ?thesis using Value a temp_set [OF temp_new [OF assms(1) a]] by (simp add: any_value_def)
  next
    case (Destroy x)
    obtain w' where w': "any_reset x w = Some w'" "any_inv w'" "content w' x = None" using reset by blast
    have "content (w'\<lparr>aw_objs := (aw_objs w')(x := None)\<rparr>) y = content w' y" for y
      using w'(3) by (simp add: content_def)
    then have "any_inv (w'\<lparr>aw_objs := (aw_objs w')(x := None)\<rparr>)"
      using w'(2) by (simp add: any_inv_def)
    then show ?thesis using Destroy w'(1) by (simp add: any_destroy_def)
  next
    case (Assign x y)
    then show ?thesis using temp_clone [OF assms(1), of y] swap by (auto simp: any_assign_def)
  next
    case (Assign_move x y)
    then show ?thesis using swap [OF temp_take [OF assms(1)]] by (simp add: any_assign_move_def)
  next
    case (Assign_value x t v)
    obtain a w' where a: "new_holder t v w = (a, w')" by fastforce
    then show ?thesis using Assign_value swap [OF temp_new [OF assms(1) a]] by (simp add: any_assign_value_def)
  next
    case (Reset x)
    then show ?thesis using reset by auto
  next
    case (Swap x y)
    have taken: "any_inv (set_content x (content w y) (set_content y (content w x) (set_content x None w)))" if "x \<noteq> y"
      using temp_set [OF temp_swap [OF temp_take [OF assms(1), of x], of y], of x] that by simp
    have "any_inv (set_content y (content w x) (set_content x (content w y) w))"
      using taken assms(1) by (cases "x = y") (auto intro: inv_cong)
    then show ?thesis using Swap by (simp add: any_swap_def)
  qed
qed

lemma run_keeps_inv: "any_inv w \<Longrightarrow> legal_run ops w \<Longrightarrow> \<exists>w'. any_run ops w = Some w' \<and> any_inv w'"
proof (induction ops arbitrary: w)
  case (Cons op ops)
  then obtain w1 where "any_step op w = Some w1" "any_inv w1" using step_keeps_inv [of w op] by auto
  then show ?case using Cons by simp
qed simp

lemma inv_no_anys: "any_inv no_anys"
  by (simp add: any_inv_def no_anys_def content_def)

lemma inv_ownership:
  assumes "any_inv w"
  shows "dom (aw_heap w) = {a. \<exists>x. content w x = Some a}" "inj_on (content w) {x. has_value w x}"
  using assms unfolding any_inv_def has_value_def inj_on_def by (blast, metis (mono_tags) mem_Collect_eq not_Some_eq)


text \<open>Storing a value in an object and reading it back.\<close>

lemma set_user_data_result:
  assumes "any_inv w" "exists_any w x" "\<not> exists_any w tmp"
  obtains w' where "set_user_data tmp x t v w = Some w'"
    "content w' x = Some (aw_next w)" "aw_heap w' (aw_next w) = Some (t, v)"
    "\<And>y. y \<noteq> x \<Longrightarrow> content w' y = content w y"
    "\<And>a. a \<noteq> aw_next w \<Longrightarrow> content w x \<noteq> Some a \<Longrightarrow> aw_heap w' a = aw_heap w a"
    "\<And>a. content w x = Some a \<Longrightarrow> aw_heap w' a = None"
proof -
  let ?a = "aw_next w"
  let ?w1 = "set_content tmp (Some ?a) (w\<lparr>aw_heap := (aw_heap w)(?a \<mapsto> (t, v)), aw_next := Suc ?a\<rparr>)"
  let ?w2 = "set_content x (Some ?a) (set_content tmp None ?w1)"
  have "tmp \<noteq> x" using assms(2,3) by auto
  have tmp: "content w tmp = None" using assms(3) by (rule dead_content)
  have old: "aw_heap w b \<noteq> None \<and> b \<noteq> ?a" if "content w x = Some b" for b
    using assms(1) that unfolding any_inv_def by (metis le_refl)
  obtain w3 where w3: "delete_content (content w x) ?w2 = Some w3"
    using old by (cases "content w x") (auto simp: delete_content_def)
  have heap: "aw_heap w3 ?a = Some (t, v)"
    "\<And>b. b \<noteq> ?a \<Longrightarrow> content w x \<noteq> Some b \<Longrightarrow> aw_heap w3 b = aw_heap w b"
    "\<And>b. content w x = Some b \<Longrightarrow> aw_heap w3 b = None"
    using w3 old by (auto simp: delete_content_def split: option.splits if_splits)
  have objs: "aw_objs w3 = aw_objs ?w2"
    using w3 by (auto simp: delete_content_def split: option.splits if_splits)
  let ?w4 = "(set_content tmp None w3)\<lparr>aw_objs := (aw_objs (set_content tmp None w3))(tmp := None)\<rparr>"
  have content4: "content ?w4 y = (if y = x then Some ?a else content w y)" for y
    using objs tmp \<open>tmp \<noteq> x\<close> by (auto simp: content_def set_content_def)
  have "content w3 tmp = None" using objs \<open>tmp \<noteq> x\<close> by (simp add: content_def set_content_def)
  then have "any_destroy tmp w3 = Some ?w4"
    by (simp add: any_destroy_def any_reset_def delete_content_def)
  moreover have "any_assign_move x tmp ?w1 = Some w3"
    using w3 \<open>tmp \<noteq> x\<close> by (simp add: any_assign_move_def swap_temporary_def)
  ultimately have "set_user_data tmp x t v w = Some ?w4"
    by (simp add: set_user_data_def any_value_def new_holder_def)
  then show ?thesis using that [of ?w4] content4 heap by simp
qed

lemma any_cast_eq:
  "any_cast t w x =
     (case content w x of None \<Rightarrow> Inl bad_any_cast
      | Some a \<Rightarrow> (case aw_heap w a of None \<Rightarrow> Inl bad_any_cast
                | Some (t', v) \<Rightarrow> if t' = t then Inr v else Inl bad_any_cast))"
  by (auto simp: any_cast_def any_cast_ptr_def any_type_def to_ptr_def split: option.splits)

section \<open>Properties\<close>

text \<open>C34. No program over \<open>any\<close> objects, self-assignments and self-swaps included, deletes a holder
  twice or uses a deleted one, and none leaks one: after every program the holders on the heap are
  exactly the contents of the objects, and no two objects share one.\<close>

theorem any_owns_its_holder:
  assumes "legal_run ops no_anys"
  shows "\<exists>w. any_run ops no_anys = Some w \<and>
    dom (aw_heap w) = {a. \<exists>x. content w x = Some a} \<and> inj_on (content w) {x. has_value w x}"
  using run_keeps_inv [OF inv_no_anys assms] inv_ownership by blast

lemma any_owns_its_holder_witness:
  "\<exists>w. any_run [Value 0 T_int (V_int 7), Copy 1 0, Assign 1 1, Swap 0 1, Move 2 0, Destroy 0] no_anys = Some w \<and>
    dom (aw_heap w) = {a. \<exists>x. content w x = Some a} \<and> inj_on (content w) {x. has_value w x}"
  by (rule any_owns_its_holder) code_simp

text \<open>What a connection stores with \<open>set_user_data\<close> is what \<open>get_user_data\<close> returns for exactly
  the stored type, and any other type raises \<open>bad_any_cast\<close>; the value kept before is released and
  every other object still reads the same.\<close>

theorem user_data_roundtrip:
  assumes "legal_run ops no_anys" "any_run ops no_anys = Some w"
    and "exists_any w x" "\<not> exists_any w tmp"
  shows "\<exists>w'. set_user_data tmp x t v w = Some w' \<and>
    get_user_data x t' w' = (if t' = t then Inr v else Inl bad_any_cast) \<and>
    {a. aw_heap w' a \<noteq> None} \<inter> {a. content w x = Some a} = {} \<and>
    (\<forall>s. \<forall>y. y = x \<or> get_user_data y s w' = get_user_data y s w)"
proof -
  have inv: "any_inv w" using run_keeps_inv [OF inv_no_anys assms(1)] assms(2) by simp
  obtain w' where w': "set_user_data tmp x t v w = Some w'"
    "content w' x = Some (aw_next w)" "aw_heap w' (aw_next w) = Some (t, v)"
    "\<And>y. y \<noteq> x \<Longrightarrow> content w' y = content w y"
    "\<And>a. a \<noteq> aw_next w \<Longrightarrow> content w x \<noteq> Some a \<Longrightarrow> aw_heap w' a = aw_heap w a"
    "\<And>a. content w x = Some a \<Longrightarrow> aw_heap w' a = None"
    using set_user_data_result [OF inv assms(3,4)] by blast
  have other: "get_user_data y s w' = get_user_data y s w" if "y \<noteq> x" for y s
  proof (cases "content w y")
    case (Some a)
    have "a \<noteq> aw_next w" "content w x \<noteq> Some a" using inv that Some unfolding any_inv_def by blast+
    then show ?thesis using Some that w'(4,5) by (simp add: get_user_data_def any_cast_eq)
  qed (use that w'(4) in \<open>simp add: get_user_data_def any_cast_eq\<close>)
  have "get_user_data x t' w' = (if t' = t then Inr v else Inl bad_any_cast)"
    using w'(2,3) by (auto simp: get_user_data_def any_cast_eq)
  moreover have "{a. aw_heap w' a \<noteq> None} \<inter> {a. content w x = Some a} = {}"
    using w'(6) by auto
  ultimately show ?thesis using w'(1) other by blast
qed

lemma user_data_roundtrip_witness:
  "\<exists>w'. set_user_data 5 0 T_string (V_string [97, 97])
      (set_content 0 (Some 0) (no_anys\<lparr>aw_heap := [0 \<mapsto> (T_int, V_int 7)], aw_next := 1\<rparr>)) = Some w' \<and>
    get_user_data 0 T_string w' = Inr (V_string [97, 97])"
proof -
  let ?w = "set_content 0 (Some 0) (no_anys\<lparr>aw_heap := [0 \<mapsto> (T_int, V_int 7)], aw_next := 1\<rparr>)"
  have legal: "legal_run [Value 0 T_int (V_int 7)] no_anys"
    by (simp add: any_value_def new_holder_def exists_any_def no_anys_def)
  have run: "any_run [Value 0 T_int (V_int 7)] no_anys = Some ?w"
    by (simp add: any_value_def new_holder_def no_anys_def)
  have ex: "exists_any ?w 0" "\<not> exists_any ?w 5" by (simp_all add: exists_any_def set_content_def no_anys_def)
  show ?thesis
    using user_data_roundtrip [OF legal run ex, of T_string "V_string [97, 97]" T_string] by auto
qed

end
