(* ===== verification/Example_Server.thy ===== *)
theory Example_Server imports Rpc_Server Any_Lite begin

text \<open>
  \<open>example/server/server.cpp\<close> and \<open>qps.h\<close>: the functions a real server registers, on top of
  \<open>Rpc_Server\<close>. Each is a \<open>handler\<close> of the router over the server's state, whose user part
  \<open>example\<close> has what the functions touch: the standard output line by line, the files, the counter of
  queries, the user data of the connections and the threads that answer later.

  Integer addition is the two's complement addition of the machine (a signed overflow is undefined in
  C++). A file is its bytes under a path; \<open>ex_creatable\<close> says which paths can be opened for writing.
\<close>

section \<open>The counter of queries\<close>

record qps =
  q_stop :: bool
  q_counter :: u32

definition new_qps :: qps where
  "new_qps = \<lparr>q_stop = False, q_counter = 0\<rparr>"

definition increase :: "qps \<Rightarrow> qps" where
  "increase q = q\<lparr>q_counter := q_counter q + 1\<rparr>"

text \<open>One turn of the reporting thread: the line it prints, \<open>None\<close> when it ends.\<close>

definition qps_report :: "qps \<Rightarrow> bytes option" where
  "qps_report q = (if q_stop q then None else Some (lit ''qps: '' @ to_string (unat (q_counter q))))"

definition qps_destroy :: "qps \<Rightarrow> qps" where
  "qps_destroy q = q\<lparr>q_stop := True\<rparr>"

section \<open>State\<close>

text \<open>
  The \<open>any\<close> of connection \<open>h\<close> is object \<open>2 * h\<close>, its temporary \<open>2 * h + 1\<close>. \<open>ex_threads\<close> has what the
  threads of \<open>async_echo\<close> captured.
\<close>

record example =
  ex_out :: "bytes list"
  ex_files :: "bytes \<Rightarrow> bytes option"
  ex_creatable :: "bytes \<Rightarrow> bool"
  ex_qps :: qps
  ex_any :: any_world
  ex_threads :: "(nat \<times> u64 \<times> bytes) list"

definition on_user :: "('u \<Rightarrow> 'u) \<Rightarrow> 'u server \<Rightarrow> 'u server" where
  "on_user f s = s\<lparr>sv_user := f (sv_user s)\<rparr>"

definition print_line :: "bytes \<Rightarrow> example server \<Rightarrow> example server" where
  "print_line t = on_user (\<lambda>u. u\<lparr>ex_out := ex_out u @ [t]\<rparr>)"

definition sv_abort :: "'u server \<Rightarrow> 'u server" where
  "sv_abort s = s\<lparr>sv_aborted := True\<rparr>"

type_synonym 'a call = "example server \<times> 'a res"

section \<open>The functions\<close>

definition dummy_add :: "nat \<Rightarrow> u32 \<Rightarrow> u32 \<Rightarrow> example server \<Rightarrow> u32 call" where
  "dummy_add conn a b s =
     (case lock_conn conn s of
        None \<Rightarrow> (s, Inr (a + b))
      | Some c \<Rightarrow>
          (case set_user_data (2 * conn + 1) (2 * conn) T_string (V_string (lit ''aa'')) (ex_any (sv_user s)) of
             None \<Rightarrow> (sv_abort s, Inr 0)
           | Some w \<Rightarrow>
               (let s' = on_user (\<lambda>u. u\<lparr>ex_any := w\<rparr>) s in
                case get_user_data (2 * conn) T_string w of
                  Inl e \<Rightarrow> (s', Inl e)
                | Inr v \<Rightarrow> (print_line (string_of v) s', Inr (a + b)))))"

text \<open>\<open>std::toupper\<close> in the "C" locale.\<close>

definition toupper :: "u8 \<Rightarrow> u8" where
  "toupper c = (if 97 \<le> c \<and> c \<le> 122 then c - 32 else c)"

definition translate :: "nat \<Rightarrow> bytes \<Rightarrow> example server \<Rightarrow> bytes call" where
  "translate conn orignal s = (s, Inr (map toupper orignal))"

definition hello :: "nat \<Rightarrow> bytes \<Rightarrow> example server \<Rightarrow> unit call" where
  "hello conn str s = (print_line (lit ''hello '' @ str) s, Inr ())"

record person =
  p_id :: u32
  p_name :: bytes
  p_age :: u32

definition T_person :: cty where
  "T_person = T_struct [T_int, T_string, T_int]"

definition V_person :: "person \<Rightarrow> cval" where
  "V_person p = V_struct [V_int (p_id p), V_string (p_name p), V_int (p_age p)]"

definition get_person_name :: "nat \<Rightarrow> person \<Rightarrow> example server \<Rightarrow> bytes call" where
  "get_person_name conn p s = (s, Inr (p_name p))"

definition get_person :: "nat \<Rightarrow> example server \<Rightarrow> person call" where
  "get_person conn s = (s, Inr \<lparr>p_id = 1, p_name = lit ''tom'', p_age = 20\<rparr>)"

text \<open>A file that cannot be opened takes no bytes, which nobody checks.\<close>

definition upload :: "nat \<Rightarrow> bytes \<Rightarrow> bytes \<Rightarrow> example server \<Rightarrow> unit call" where
  "upload conn filename data s =
     (on_user (\<lambda>u. if ex_creatable u (c_str filename)
                then u\<lparr>ex_files := (ex_files u)(c_str filename \<mapsto> data)\<rparr> else u)
        (print_line (to_string (length data)) s), Inr ())"

definition download :: "nat \<Rightarrow> bytes \<Rightarrow> example server \<Rightarrow> bytes call" where
  "download conn filename s =
     (case ex_files (sv_user s) (c_str filename) of
        None \<Rightarrow> (s, Inr [])
      | Some data \<Rightarrow> (print_line (to_string (length data)) s, Inr data))"

definition get_name :: "nat \<Rightarrow> person \<Rightarrow> example server \<Rightarrow> bytes call" where
  "get_name conn p s = (on_user (\<lambda>u. u\<lparr>ex_qps := increase (ex_qps u)\<rparr>) s, Inr (p_name p))"

text \<open>A null pointer where \<open>conn.lock()\<close> fails; otherwise a detached thread starts.\<close>

definition async_echo :: "nat \<Rightarrow> bytes \<Rightarrow> example server \<Rightarrow> unit call" where
  "async_echo conn src s =
     (case lock_conn conn s of
        None \<Rightarrow> (sv_abort s, Inr ())
      | Some c \<Rightarrow> (on_user (\<lambda>u. u\<lparr>ex_threads := ex_threads u @ [(conn, c_req_id c, src)]\<rparr>) s, Inr ()))"

text \<open>The k-th of these threads after its sleep. An exception out of it, as an \<open>abort\<close>, ends the process.\<close>

definition async_echo_thread :: "nat \<Rightarrow> example server \<Rightarrow> example server option" where
  "async_echo_thread k s =
     (case ex_threads (sv_user s) ! k of
        (conn, req_id, src) \<Rightarrow>
          (let s' = on_user (\<lambda>u. u\<lparr>ex_threads := take k (ex_threads u) @ drop (Suc k) (ex_threads u)\<rparr>) s in
           case lock_conn conn s of
             None \<Rightarrow> Some s'
           | Some c \<Rightarrow>
               (case pack_and_response req_id (V_string src) c of
                  Some (Inr c') \<Rightarrow> Some (put_conn conn c' s')
                | _ \<Rightarrow> None)))"

definition echo :: "nat \<Rightarrow> bytes \<Rightarrow> example server \<Rightarrow> bytes call" where
  "echo conn src s = (on_user (\<lambda>u. u\<lparr>ex_qps := increase (ex_qps u)\<rparr>) s, Inr src)"

definition get_int :: "nat \<Rightarrow> u32 \<Rightarrow> example server \<Rightarrow> u32 call" where
  "get_int conn val s = (s, Inr val)"

record dummy1 =
  d1_id :: u64
  d1_str :: "u32 list"

definition T_dummy1 :: cty where
  "T_dummy1 = T_struct [T_size_t, T_wstring]"

definition V_dummy1 :: "dummy1 \<Rightarrow> cval" where
  "V_dummy1 d = V_struct [V_size_t (d1_id d), V_wstring (d1_str d)]"

definition get_dummy :: "nat \<Rightarrow> dummy1 \<Rightarrow> example server \<Rightarrow> dummy1 call" where
  "get_dummy conn d s = (s, Inr d)"

section \<open>Registration\<close>

text \<open>How C++ parameters and results pass through \<open>cval\<close>.\<close>

fun int_of :: "cval \<Rightarrow> u32" where
  "int_of (V_int i) = i"
| "int_of v = 0"

fun person_of :: "cval \<Rightarrow> person" where
  "person_of (V_struct [a, b, c]) = \<lparr>p_id = int_of a, p_name = string_of b, p_age = int_of c\<rparr>"
| "person_of v = \<lparr>p_id = 0, p_name = [], p_age = 0\<rparr>"

fun size_t_of :: "cval \<Rightarrow> u64" where
  "size_t_of (V_size_t n) = n"
| "size_t_of v = 0"

fun wstring_of :: "cval \<Rightarrow> u32 list" where
  "wstring_of (V_wstring w) = w"
| "wstring_of v = []"

fun dummy1_of :: "cval \<Rightarrow> dummy1" where
  "dummy1_of (V_struct [a, b]) = \<lparr>d1_id = size_t_of a, d1_str = wstring_of b\<rparr>"
| "dummy1_of v = \<lparr>d1_id = 0, d1_str = []\<rparr>"

definition returning :: "('a \<Rightarrow> cval) \<Rightarrow> 'a call \<Rightarrow> example server \<times> cval option res" where
  "returning f r = (fst r, map_sum id (\<lambda>x. Some (f x)) (snd r))"

definition returning_void :: "unit call \<Rightarrow> example server \<times> cval option res" where
  "returning_void r = (fst r, map_sum id (\<lambda>x. None) (snd r))"

type_synonym ex_handler = "(example server, nat) handler"

definition add_handler :: "(example server, nat, unit) member_handler" where
  "add_handler = \<lparr>mh_args = [T_int, T_int],
     mh_call = (\<lambda>d s c vs. returning V_int (dummy_add c (int_of (vs ! 0)) (int_of (vs ! 1)) s))\<rparr>"

definition translate_handler :: ex_handler where
  "translate_handler = \<lparr>hd_args = [T_string], hd_call = (\<lambda>s c vs. returning V_string (translate c (string_of (vs ! 0)) s))\<rparr>"

definition hello_handler :: ex_handler where
  "hello_handler = \<lparr>hd_args = [T_string], hd_call = (\<lambda>s c vs. returning_void (hello c (string_of (vs ! 0)) s))\<rparr>"

definition get_person_name_handler :: ex_handler where
  "get_person_name_handler = \<lparr>hd_args = [T_person],
     hd_call = (\<lambda>s c vs. returning V_string (get_person_name c (person_of (vs ! 0)) s))\<rparr>"

definition get_person_handler :: ex_handler where
  "get_person_handler = \<lparr>hd_args = [], hd_call = (\<lambda>s c vs. returning V_person (get_person c s))\<rparr>"

definition upload_handler :: ex_handler where
  "upload_handler = \<lparr>hd_args = [T_string, T_string],
     hd_call = (\<lambda>s c vs. returning_void (upload c (string_of (vs ! 0)) (string_of (vs ! 1)) s))\<rparr>"

definition download_handler :: ex_handler where
  "download_handler = \<lparr>hd_args = [T_string], hd_call = (\<lambda>s c vs. returning V_string (download c (string_of (vs ! 0)) s))\<rparr>"

definition get_name_handler :: ex_handler where
  "get_name_handler = \<lparr>hd_args = [T_person],
     hd_call = (\<lambda>s c vs. returning V_string (get_name c (person_of (vs ! 0)) s))\<rparr>"

definition async_echo_handler :: ex_handler where
  "async_echo_handler = \<lparr>hd_args = [T_string], hd_call = (\<lambda>s c vs. returning_void (async_echo c (string_of (vs ! 0)) s))\<rparr>"

definition echo_handler :: ex_handler where
  "echo_handler = \<lparr>hd_args = [T_string], hd_call = (\<lambda>s c vs. returning V_string (echo c (string_of (vs ! 0)) s))\<rparr>"

definition get_int_handler :: ex_handler where
  "get_int_handler = \<lparr>hd_args = [T_int], hd_call = (\<lambda>s c vs. returning V_int (get_int c (int_of (vs ! 0)) s))\<rparr>"

definition get_dummy_handler :: ex_handler where
  "get_dummy_handler = \<lparr>hd_args = [T_dummy1],
     hd_call = (\<lambda>s c vs. returning V_dummy1 (get_dummy c (dummy1_of (vs ! 0)) s))\<rparr>"

text \<open>The two lambdas publish on the server itself; \<open>publish\<close> ignores its token.\<close>

definition publish_by_token_handler :: ex_handler where
  "publish_by_token_handler = \<lparr>hd_args = [T_string, T_string, T_string],
     hd_call = (\<lambda>s c vs. publishing (publish_by_token (string_of (vs ! 0)) (string_of (vs ! 1)) (vs ! 2)) s)\<rparr>"

definition publish_handler :: ex_handler where
  "publish_handler = \<lparr>hd_args = [T_string, T_string, T_string],
     hd_call = (\<lambda>s c vs. publishing (publish (string_of (vs ! 0)) (vs ! 2)) s)\<rparr>"

text \<open>The registrations of \<open>main\<close> in their order.\<close>

definition example_functions :: "(ExecMode \<times> bytes \<times> ex_handler) list" where
  "example_functions =
     [(sync, lit ''get_dummy'', get_dummy_handler), (sync, lit ''translate'', translate_handler),
      (sync, lit ''hello'', hello_handler), (sync, lit ''get_person_name'', get_person_name_handler),
      (sync, lit ''get_person'', get_person_handler), (sync, lit ''upload'', upload_handler),
      (sync, lit ''download'', download_handler), (sync, lit ''get_name'', get_name_handler),
      (Async, lit ''async_echo'', async_echo_handler), (sync, lit ''echo'', echo_handler),
      (sync, lit ''get_int'', get_int_handler),
      (sync, lit ''publish_by_token'', publish_by_token_handler), (sync, lit ''publish'', publish_handler)]"

definition example_router :: "(example server, nat) router" where
  "example_router =
     fold (\<lambda>(model, name, f). register_handler model name f) example_functions
       (register_handler_member sync (lit ''add'') add_handler () empty_router)"

text \<open>The tables of the other two servers of the file, of \<open>benchmark_test\<close> and \<open>test_ssl\<close>.\<close>

definition benchmark_router :: "(example server, nat) router" where
  "benchmark_router = register_handler sync (lit ''echo'') echo_handler empty_router"

definition ssl_router :: "(example server, nat) router" where
  "ssl_router =
     register_handler sync (lit ''echo'') echo_handler (register_handler sync (lit ''hello'') hello_handler empty_router)"

text \<open>The line that \<open>main\<close>'s network-error callback prints.\<close>

definition net_err_line :: "bytes option \<Rightarrow> conn \<Rightarrow> bytes \<Rightarrow> bytes" where
  "net_err_line endpoint c reason =
     lit ''remote client address: '' @ remote_adress endpoint c @ lit ''networking error, reason:'' @ reason"

section \<open>The publishing thread\<close>

text \<open>One turn of the loop in \<open>main\<close>; an exception in it ends the process.\<close>

definition must :: "('u server \<times> unit res) option \<Rightarrow> 'u server option" where
  "must r = (case r of Some (s, Inr u) \<Rightarrow> Some s | _ \<Rightarrow> None)"

fun publish_to_tokens :: "person \<Rightarrow> bytes list \<Rightarrow> example server \<Rightarrow> example server option" where
  "publish_to_tokens p [] s = Some s"
| "publish_to_tokens p (token # tokens) s =
     Option.bind (must (publish_by_token (lit ''key'') token (V_person p) s)) (\<lambda>s1.
     Option.bind (must (publish_by_token (lit ''key1'') token (V_string (lit ''hello subscriber'')) s1)) (\<lambda>s2.
     publish_to_tokens p tokens s2))"

definition publisher_round :: "example server \<Rightarrow> example server option" where
  "publisher_round s =
     Option.bind (must (publish (lit ''key'') (V_string (lit ''hello subscriber'')) s)) (\<lambda>s1.
     publish_to_tokens \<lparr>p_id = 1, p_name = lit ''tom'', p_age = 20\<rparr> (get_token_list s1) s1)"

end
