(* ===== verification/Example_Client.thy ===== *)
theory Example_Client imports Rpc_Client Example_Server begin

text \<open>
  The tests of \<open>example/client/client.cpp\<close> as scripts: what they call, what they print and which
  exception leaves them, for given outcomes of \<open>connect\<close> and of the waits for their futures, and the
  callbacks they pass to the client. \<open>Example_Runs\<close> runs them against the example server.
\<close>

section \<open>Scripts\<close>

text \<open>The console line by line, the calls made and the files of the client's machine.\<close>

record console =
  co_out :: "bytes list"
  co_calls :: "(bytes \<times> cval list) list"
  co_files :: "bytes \<Rightarrow> bytes option"

text \<open>
  The first argument tells how the wait for the k-th call ends. \<open>None\<close> is a script that waits for
  ever, \<open>Inl\<close> an exception nobody in it catches.
\<close>

type_synonym 'a script = "(nat \<Rightarrow> future_status) \<Rightarrow> console \<Rightarrow> (console \<times> 'a res) option"

definition done_with :: "'a res \<Rightarrow> 'a script" where
  "done_with r st c = Some (c, r)"

definition and_then :: "'a script \<Rightarrow> ('a \<Rightarrow> 'b script) \<Rightarrow> 'b script" where
  "and_then m f st c =
     (case m st c of
        None \<Rightarrow> None
      | Some (c', Inl e) \<Rightarrow> Some (c', Inl e)
      | Some (c', Inr x) \<Rightarrow> f x st c')"

definition both :: "unit script \<Rightarrow> 'b script \<Rightarrow> 'b script" where
  "both m n = and_then m (\<lambda>_. n)"

definition print :: "bytes \<Rightarrow> unit script" where
  "print t st c = Some (c\<lparr>co_out := co_out c @ [t]\<rparr>, Inr ())"

text \<open>\<open>try { ... } catch (const std::exception &e) { std::cout << e.what() << std::endl; }\<close>\<close>

definition catching :: "unit script \<Rightarrow> unit script" where
  "catching m st c =
     (case m st c of
        Some (c', Inl e) \<Rightarrow> if e = undefined_behaviour then Some (c', Inl e) else print (what e) st c'
      | r \<Rightarrow> r)"

text \<open>\<open>async_call<FUTURE>\<close> and then \<open>wait_for\<close>, or \<open>get\<close>, which has no time limit.\<close>

definition start_and_wait :: "bytes \<Rightarrow> cval list \<Rightarrow> future_status script" where
  "start_and_wait name args st c =
     Some (c\<lparr>co_calls := co_calls c @ [(name, args)]\<rparr>, Inr (st (length (co_calls c))))"

definition start_and_get :: "bytes \<Rightarrow> cval list \<Rightarrow> future_status script" where
  "start_and_get name args st c =
     (if st (length (co_calls c)) = Fut_timeout then None else start_and_wait name args st c)"

text \<open>\<open>call<T>\<close> and \<open>call<void>\<close>.\<close>

definition call_value :: "cty \<Rightarrow> bytes \<Rightarrow> cval list \<Rightarrow> cval script" where
  "call_value t name args = and_then (start_and_wait name args) (\<lambda>s. done_with (call_result t s))"

definition call_void :: "bytes \<Rightarrow> cval list \<Rightarrow> unit script" where
  "call_void name args = and_then (start_and_wait name args) (\<lambda>s. done_with (call_result_void s))"

text \<open>\<open>std::cout << i\<close> of an \<open>int\<close>.\<close>

definition show_int :: "u32 \<Rightarrow> bytes" where
  "show_int i = (if sint i < 0 then lit ''-'' @ to_string (nat (- sint i)) else to_string (nat (sint i)))"

text \<open>What every test does first, with \<open>r\<close> the result of \<open>connect\<close>.\<close>

definition if_connected :: "bool \<Rightarrow> unit script \<Rightarrow> unit script" where
  "if_connected r m = (if \<not> r then print (lit ''connect timeout'') else m)"

section \<open>The synchronous tests\<close>

definition test_add :: "bool \<Rightarrow> unit script" where
  "test_add r = catching (if_connected r
     (both (and_then (call_value T_int (lit ''add'') [V_int 1, V_int 2]) (\<lambda>v. print (show_int (int_of v))))
           (and_then (call_value T_int (lit ''add'') [V_int 1, V_int 2]) (\<lambda>v. print (show_int (int_of v))))))"

definition test_translate :: "bool \<Rightarrow> unit script" where
  "test_translate r = catching (if_connected r
     (and_then (call_value T_string (lit ''translate'') [V_string (lit ''hello'')]) (\<lambda>v. print (string_of v))))"

definition test_hello :: "bool \<Rightarrow> unit script" where
  "test_hello r = catching (if_connected r (call_void (lit ''hello'') [V_string (lit ''purecpp'')]))"

definition tom :: person where
  "tom = \<lparr>p_id = 1, p_name = lit ''tom'', p_age = 20\<rparr>"

definition test_get_person_name :: "bool \<Rightarrow> unit script" where
  "test_get_person_name r = catching (if_connected r
     (and_then (call_value T_string (lit ''get_person_name'') [V_person tom]) (\<lambda>v. print (string_of v))))"

definition test_get_person :: "bool \<Rightarrow> unit script" where
  "test_get_person r = catching (if_connected r
     (and_then (call_value T_person (lit ''get_person'') []) (\<lambda>v. print (p_name (person_of v)))))"

text \<open>Each test has its own client: \<open>r\<close> has what their \<open>connect\<close>s return.\<close>

definition test_sync_client :: "(nat \<Rightarrow> bool) \<Rightarrow> unit script" where
  "test_sync_client r = both (test_add (r 0)) (both (test_translate (r 1)) (both (test_hello (r 2))
     (both (test_get_person_name (r 3)) (test_get_person (r 4)))))"

text \<open>\<open>L"test"\<close> has one \<open>wchar_t\<close> per character.\<close>

definition wide :: "bytes \<Rightarrow> u32 list" where
  "wide = map ucast"

definition test_echo :: "bool \<Rightarrow> unit script" where
  "test_echo r = if_connected r
     (both (and_then (call_value T_dummy1 (lit ''get_dummy'') [V_dummy1 \<lparr>d1_id = 42, d1_str = wide (lit ''test'')\<rparr>])
             (\<lambda>v. print (lit ''result.id: '' @ to_string (unat (d1_id (dummy1_of v))))))
     (both (and_then (call_value T_string (lit ''echo'') [V_string (lit ''test'')])
             (\<lambda>v. print (lit ''result1: '' @ string_of v)))
           (and_then (call_value T_string (lit ''async_echo'') [V_string (lit ''test'')])
             (\<lambda>v. print (lit ''result2: '' @ string_of v)))))"

section \<open>The asynchronous tests\<close>

text \<open>Reading the key that ends the test, and the error callback, leave no trace here.\<close>

definition test_async_client :: "bool \<Rightarrow> unit script" where
  "test_async_client r = if_connected r
     (both (and_then (start_and_wait (lit ''get_person'') []) (\<lambda>s.
        if s = Fut_timeout then print (lit ''timeout'')
        else and_then (done_with (call_result T_person s)) (\<lambda>v. print (p_name (person_of v)))))
     (both (and_then (start_and_get (lit ''hello'') [V_string (lit ''purecpp'')]) (\<lambda>s. done_with (call_result_void s)))
     (both (call_void (lit ''hello'') [V_string (lit ''purecpp'')])
       (and_then (call_value T_person (lit ''get_person'') []) (\<lambda>v. done_with (Inr ()))))))"

text \<open>A file that is not there has the size -1, which no string can be resized to.\<close>

definition read_file :: "bytes \<Rightarrow> bytes script" where
  "read_file path st c =
     Some (c, case co_files c path of
        None \<Rightarrow> Inl (logic_error (lit ''basic_string::_M_replace_aux''))
      | Some data \<Rightarrow> Inr data)"

definition write_file :: "bytes \<Rightarrow> bytes \<Rightarrow> unit script" where
  "write_file path data st c = Some (c\<lparr>co_files := (co_files c)(path \<mapsto> data)\<rparr>, Inr ())"

definition upload_once :: "bytes \<Rightarrow> bytes \<Rightarrow> unit script" where
  "upload_once name data = and_then (start_and_wait (lit ''upload'') [V_string name, V_string data]) (\<lambda>s.
     if s = Fut_timeout then print (lit ''timeout'')
     else and_then (done_with (call_result_void s)) (\<lambda>_. print (lit ''ok'')))"

definition test_upload :: "bool \<Rightarrow> unit script" where
  "test_upload r = if_connected r (and_then (read_file (lit ''E:/acl.7z'')) (\<lambda>data.
     both (print (to_string (length data)))
       (both (upload_once (lit ''test'') data) (upload_once (lit ''test1'') data))))"

definition test_download :: "bool \<Rightarrow> unit script" where
  "test_download r = if_connected r (and_then (start_and_wait (lit ''download'') [V_string (lit ''test'')]) (\<lambda>s.
     if s = Fut_timeout then print (lit ''timeout'')
     else and_then (done_with (call_result T_string s)) (\<lambda>v.
       both (print (to_string (length (string_of v)))) (write_file (lit ''test'') (string_of v)))))"

section \<open>The loops\<close>

definition repeat_script :: "nat \<Rightarrow> unit script \<Rightarrow> unit script" where
  "repeat_script n m = (both m ^^ n) (done_with (Inr ()))"

text \<open>A ready future is not looked at; no future of the client is \<open>deferred\<close>.\<close>

definition performance1_turn :: "unit script" where
  "performance1_turn = and_then (start_and_wait (lit ''get_name'') [V_person tom]) (\<lambda>s.
     if s = Fut_timeout then print (lit ''timeout'') else done_with (Inr ()))"

definition test_performance1 :: "bool \<Rightarrow> unit script" where
  "test_performance1 r = if_connected r
     (both (repeat_script 100000000 performance1_turn) (print (lit ''finish'')))"

definition performance2_turn :: "unit script" where
  "performance2_turn = and_then (call_value T_string (lit ''get_name'') [V_person tom]) (\<lambda>v. done_with (Inr ()))"

definition test_performance2 :: "bool \<Rightarrow> unit script" where
  "test_performance2 r = if_connected r
     (catching (both (repeat_script 100000000 performance2_turn) (print (lit ''finish''))))"

text \<open>Every thread of \<open>multi_client_performance\<close> has a client of its own.\<close>

definition multi_client_performance :: "bool list \<Rightarrow> unit script list" where
  "multi_client_performance rs = map test_performance1 rs"

text \<open>What \<open>close\<close> and \<open>connect\<close> do between the calls shows in the outcome of the second.\<close>

definition test_call_with_timeout :: "unit script" where
  "test_call_with_timeout = catching
     (and_then (call_value T_person (lit ''get_person'') []) (\<lambda>v. both (print (p_name (person_of v)))
       (and_then (call_value T_person (lit ''get_person'') []) (\<lambda>w. print (p_name (person_of w))))))"

text \<open>
  \<open>test_ssl\<close>: its \<open>connect\<close>, and a turn of its loop without the call with a callback. Its handler adds
  a word to the text of the exception.
\<close>

definition test_ssl_connect :: "client \<Rightarrow> bool act" where
  "test_ssl_connect c = connect_to (lit ''127.0.0.1'') 9000 True c"

definition catching_sync :: "unit script \<Rightarrow> unit script" where
  "catching_sync m st c =
     (case m st c of
        Some (c', Inl e) \<Rightarrow>
          if e = undefined_behaviour then Some (c', Inl e) else print (what e @ lit '' sync'') st c'
      | r \<Rightarrow> r)"

definition test_ssl_turn :: "unit script" where
  "test_ssl_turn =
     both (catching_sync (and_then (call_value T_string (lit ''echo'') [V_string (lit ''purecpp'')])
             (\<lambda>v. print (string_of v @ lit '' sync''))))
       (and_then (start_and_wait (lit ''echo'') [V_string (lit ''purecpp'')]) (\<lambda>s.
          if s = Fut_timeout then print (lit ''timeout future'')
          else and_then (done_with (call_result T_string s)) (\<lambda>v. print (string_of v @ lit '' future''))))"

text \<open>The loops of two of the three threads of \<open>test_threads\<close>.\<close>

definition echo_turn :: "unit script" where
  "echo_turn = and_then (start_and_wait (lit ''echo'') [V_string (lit ''test'')]) (\<lambda>s.
     if s = Fut_timeout then print (lit ''timeout'')
     else and_then (done_with (call_result T_string s)) (\<lambda>v. done_with (Inr ())))"

definition test_threads_thd1 :: "unit script" where
  "test_threads_thd1 = both (repeat_script 1000000 echo_turn) (print (lit ''thread2 finished''))"

definition test_threads_main :: "unit script" where
  "test_threads_main = both (repeat_script 1000000 echo_turn) (print (lit ''thread finished''))"

text \<open>One turn of the thread of \<open>test_sub1\<close>, with what \<open>has_connected\<close> returns.\<close>

definition test_sub1_turn :: "bool \<Rightarrow> unit script" where
  "test_sub1_turn is_connected = catching (if is_connected
     then and_then (call_value T_int (lit ''add'') [V_int 2, V_int 3]) (\<lambda>v. print (lit ''add result: '' @ show_int (int_of v)))
     else done_with (Inr ()))"

text \<open>
  The loop of \<open>test_connect\<close> on what \<open>has_connected\<close> returns once a second: the lines it prints, and
  whether it has ended.
\<close>

fun test_connect_loop :: "nat \<Rightarrow> bool list \<Rightarrow> bytes list \<times> bool" where
  "test_connect_loop count [] = ([], False)"
| "test_connect_loop count (is_connected # samples) =
     (if is_connected then ([lit ''connected ok''], True)
      else (case test_connect_loop (count + 1) samples of
              (out, ended) \<Rightarrow> ((lit ''connected failed: '' @ to_string count) # out, ended)))"

section \<open>Callbacks\<close>

text \<open>
  The two lambdas of \<open>test_callback\<close>; \<open>ec_value\<close> is the number of an error. The second does not look
  at the error.
\<close>

definition on_async_echo :: "(asio_error \<Rightarrow> bytes) \<Rightarrow> asio_error option \<Rightarrow> bytes \<Rightarrow> unit script" where
  "on_async_echo ec_value ec data =
     (case ec of
        Some e \<Rightarrow> print (ec_value e @ lit '' timeout'')
      | None \<Rightarrow> and_then (done_with (as_result T_string data)) (\<lambda>v. print (lit ''echo '' @ string_of v)))"

definition on_echo :: "asio_error option \<Rightarrow> bytes \<Rightarrow> unit script" where
  "on_echo ec data = and_then (done_with (as_result T_string data)) (\<lambda>v. print (lit ''echo '' @ string_of v))"

text \<open>
  The lambda of \<open>test_threads\<close> for the call with the number \<open>i\<close>; \<open>r != i\<close> compares in \<open>size_t\<close>.
\<close>

definition on_get_int :: "(asio_error \<Rightarrow> bytes) \<Rightarrow> u64 \<Rightarrow> asio_error option \<Rightarrow> bytes \<Rightarrow> unit script" where
  "on_get_int message i ec data =
     (case ec of
        Some e \<Rightarrow> print (message e)
      | None \<Rightarrow> and_then (done_with (as_result T_int data)) (\<lambda>v.
          if (scast (int_of v) :: u64) \<noteq> i then print (lit ''error not match'') else done_with (Inr ())))"

text \<open>The lambdas of \<open>test_multiple_thread\<close> and \<open>test_ssl\<close>.\<close>

definition on_get_name :: "(asio_error \<Rightarrow> bytes) \<Rightarrow> asio_error option \<Rightarrow> bytes \<Rightarrow> unit script" where
  "on_get_name message ec data = (case ec of Some e \<Rightarrow> print (message e) | None \<Rightarrow> done_with (Inr ()))"

definition on_ssl_echo :: "(asio_error \<Rightarrow> bytes) \<Rightarrow> asio_error option \<Rightarrow> bytes \<Rightarrow> unit script" where
  "on_ssl_echo message ec data =
     (case ec of
        Some e \<Rightarrow> print (message e @ lit '' '' @ data)
      | None \<Rightarrow> and_then (done_with (as_result T_string data)) (\<lambda>v. print (string_of v @ lit '' async'')))"

text \<open>The subscriptions of \<open>test_sub1\<close>: one callback prints the data, one unpacks a person.\<close>

definition on_text :: "bytes \<Rightarrow> unit script" where
  "on_text data = print data"

definition on_person :: "bytes \<Rightarrow> unit script" where
  "on_person data = and_then (done_with (codec_unpack T_person data)) (\<lambda>v. print (p_name (person_of v)))"

definition sub1_token :: bytes where
  "sub1_token = lit ''048a796c8a3c6a6b7bd1223bf2c8cee05232e927b521984ba417cb2fca6df9d1''"

text \<open>The numbers 0 to 2 stand for its three lambdas.\<close>

definition test_sub1_subscribe :: "client \<Rightarrow> unit act" where
  "test_sub1_subscribe c =
     (case subscribe (lit ''key'') 0 c of
        Some (c1, Inr u) \<Rightarrow>
          (case subscribe_token (lit ''key'') sub1_token 1 c1 of
             Some (c2, Inr u) \<Rightarrow> subscribe_token (lit ''key1'') sub1_token 2 c2
           | r \<Rightarrow> r)
      | r \<Rightarrow> r)"

text \<open>
  Calls with callbacks: their timeouts, names, the numbers of the callbacks and the arguments. A call
  may call its callback before it returns, and what that throws leaves the loop: \<open>f\<close> says what the
  callback with a number throws.
\<close>

type_synonym callbacks = "nat \<Rightarrow> asio_error option \<Rightarrow> bytes \<Rightarrow> exn option"

fun raised :: "callbacks \<Rightarrow> (nat \<times> asio_error option \<times> bytes) list \<Rightarrow> exn option" where
  "raised f [] = None"
| "raised f ((cb, ec, data) # called) = (case f cb ec data of Some e \<Rightarrow> Some e | None \<Rightarrow> raised f called)"

fun callback_calls :: "callbacks \<Rightarrow> (nat \<times> bytes \<times> nat \<times> cval list) list \<Rightarrow> client \<Rightarrow> unit act" where
  "callback_calls f [] c = Some (c, Inr ())"
| "callback_calls f ((timeout, name, cb, args) # calls) c =
     (case async_call_callback timeout name cb args c of
        None \<Rightarrow> None
      | Some (c', Inl e) \<Rightarrow> Some (c', Inl e)
      | Some (c', Inr u) \<Rightarrow>
          (case raised f (drop (length (cl_called c)) (cl_called c')) of
             Some e \<Rightarrow> Some (c', Inl e)
           | None \<Rightarrow> callback_calls f calls c'))"

text \<open>What a lambda throws does not depend on the console.\<close>

definition exception_of :: "unit script \<Rightarrow> exn option" where
  "exception_of m =
     (case m (\<lambda>_. Fut_timeout) \<lparr>co_out = [], co_calls = [], co_files = (\<lambda>_. None)\<rparr> of
        Some (c, Inl e) \<Rightarrow> Some e
      | _ \<Rightarrow> None)"

text \<open>The even callbacks are the first lambda, the odd ones the second.\<close>

definition test_callback_lambdas :: "(asio_error \<Rightarrow> bytes) \<Rightarrow> callbacks" where
  "test_callback_lambdas ec_value cb ec data =
     exception_of (if even cb then on_async_echo ec_value ec data else on_echo ec data)"

definition test_callback_calls :: "(nat \<times> bytes \<times> nat \<times> cval list) list" where
  "test_callback_calls = concat (map (\<lambda>i.
     [(100, lit ''async_echo'', 2 * i, [V_string (lit ''test'' @ to_string (i + 1))]),
      (0, lit ''echo'', 2 * i + 1, [V_string (lit ''test'' @ to_string (i + 2))])]) [0..<100])"

definition test_callback :: "(asio_error \<Rightarrow> bytes) \<Rightarrow> client \<Rightarrow> unit act" where
  "test_callback ec_value c = callback_calls (test_callback_lambdas ec_value) test_callback_calls c"

definition test_threads_thd2 :: "(asio_error \<Rightarrow> bytes) \<Rightarrow> client \<Rightarrow> unit act" where
  "test_threads_thd2 message c = callback_calls (\<lambda>i ec data. exception_of (on_get_int message (of_nat i) ec data))
     (map (\<lambda>i. (DEFAULT_TIMEOUT, lit ''get_int'', i, [V_size_t (of_nat i)])) [1000000..<2000000]) c"

text \<open>Its callbacks do nothing.\<close>

definition benchmark_test :: "client \<Rightarrow> unit act" where
  "benchmark_test c = callback_calls (\<lambda>_ _ _. None)
     (map (\<lambda>i. (DEFAULT_TIMEOUT, lit ''echo'', i, [V_string (lit ''hello wolrd'')])) [0..<1000000]) c"

text \<open>
  \<open>wait_for_notification\<close> and its callback, which prints the answer (the first component) and asks
  again.
\<close>

definition wait_for_notification :: "nat \<Rightarrow> client \<Rightarrow> unit act" where
  "wait_for_notification cb c = async_call_callback 0 (lit ''sub'') cb [] c"

definition on_notification :: "nat \<Rightarrow> asio_error option \<Rightarrow> bytes \<Rightarrow> client \<Rightarrow> bytes list \<times> unit act" where
  "on_notification cb ec data c =
     (case as_result T_string data of
        Inl e \<Rightarrow> ([], Some (c, Inl e))
      | Inr v \<Rightarrow> ([string_of v], wait_for_notification cb c))"

section \<open>Running scripts\<close>

named_theorems script_simps

lemma script_run [script_simps]:
  "done_with r st c = Some (c, r)"
  "and_then (done_with (Inr x)) f st c = f x st c"
  "and_then (done_with (Inl e)) f st c = Some (c, Inl e)"
  "and_then (start_and_wait n args) fs st c =
     fs (st (length (co_calls c))) st (c\<lparr>co_calls := co_calls c @ [(n, args)]\<rparr>)"
  "and_then (print t) fu st c = fu () st (c\<lparr>co_out := co_out c @ [t]\<rparr>)"
  "and_then (and_then m g) h st c = and_then m (\<lambda>x. and_then (g x) h) st c"
  "print t st c = Some (c\<lparr>co_out := co_out c @ [t]\<rparr>, Inr ())"
  "if_connected True q = q" "if_connected False q = print (lit ''connect timeout'')"
  by (simp_all add: done_with_def and_then_def start_and_wait_def print_def if_connected_def split: option.splits sum.splits)

lemma call_value_run [script_simps]:
  "call_result t (st (length (co_calls c))) = Inr v \<Longrightarrow>
   and_then (call_value t n args) f st c = f v st (c\<lparr>co_calls := co_calls c @ [(n, args)]\<rparr>)"
  by (simp add: call_value_def script_run)

lemma call_void_run [script_simps]:
  "call_result_void (st (length (co_calls c))) = Inr () \<Longrightarrow>
   and_then (call_void n args) f st c = f () st (c\<lparr>co_calls := co_calls c @ [(n, args)]\<rparr>)"
  by (simp add: call_void_def script_run)

text \<open>A script that returns cannot be told from one in a \<open>try\<close>.\<close>

lemma catching_returns: "m st c = Some (c', Inr u) \<Longrightarrow> catching m st c = Some (c', Inr u)"
  by (simp add: catching_def)

lemma both_returns: "m st c = Some (c', Inr u) \<Longrightarrow> both m n st c = n st c'"
  by (simp add: both_def and_then_def)

lemma repeat_script_Suc: "repeat_script (Suc n) m = both m (repeat_script n m)"
  by (simp add: repeat_script_def)

text \<open>A script whose turns make one call each and print nothing.\<close>

lemma repeat_quiet:
  assumes "\<And>c. length (co_calls c) < k + n \<Longrightarrow> k \<le> length (co_calls c) \<Longrightarrow>
      m st c = Some (c\<lparr>co_calls := co_calls c @ [x]\<rparr>, Inr ())"
    and "length (co_calls c) = k"
  shows "repeat_script n m st c = Some (c\<lparr>co_calls := co_calls c @ replicate n x\<rparr>, Inr ())"
  using assms
proof (induction n arbitrary: c k)
  case 0
  then show ?case by (simp add: repeat_script_def done_with_def)
next
  case (Suc n)
  let ?c = "c\<lparr>co_calls := co_calls c @ [x]\<rparr>"
  have "m st c = Some (?c, Inr ())" using Suc.prems by simp
  moreover have "repeat_script n m st ?c = Some (?c\<lparr>co_calls := co_calls ?c @ replicate n x\<rparr>, Inr ())"
    by (rule Suc.IH [of "Suc k"]) (use Suc.prems in auto)
  ultimately show ?case by (simp add: repeat_script_Suc both_returns)
qed

section \<open>Calls with callbacks\<close>

text \<open>What is not a reply: the text of a call that could not be made, and no bytes at all.\<close>

lemma not_connected_text: "as_result t (lit ''not connected'') = Inl args_not_match"
proof -
  have bytes: "lit ''not connected'' = pack_obj (POSITIVE_INTEGER 110) @ lit ''ot connected''"
    by (simp add: lit_def pack_imp_uint64_def of_char_def)
  have "msgpack_unpack (lit ''not connected'') = Inr (POSITIVE_INTEGER 110)"
    unfolding bytes by (rule unpack_pack_obj(2)) simp
  then have "codec_unpack (T_tuple ts) (lit ''not connected'') = Inl args_not_match" for ts
    by (simp add: codec_unpack_def as_value_def returned_def)
  moreover have "lit ''not connected'' \<noteq> []" by (simp add: lit_def)
  ultimately show ?thesis by (simp add: as_result_def has_error_def)
qed

lemma raised_by_callbacks:
  "test_callback_lambdas ec_value (2 * i) (Some e) data = None"
  "as_result T_string data = Inl x \<Longrightarrow> test_callback_lambdas ec_value (Suc (2 * i)) ec data = Some x"
  by (simp_all add: test_callback_lambdas_def exception_of_def on_async_echo_def on_echo_def script_run)

lemma call_not_connected:
  assumes "\<not> cl_has_connected c"
  shows "callback_calls f ((timeout, name, cb, args) # calls) c =
    (let c' = c\<lparr>cl_called := cl_called c @ [(cb, Some not_connected, lit ''not connected'')]\<rparr> in
     case f cb (Some not_connected) (lit ''not connected'') of
       Some e \<Rightarrow> Some (c', Inl e)
     | None \<Rightarrow> callback_calls f calls c')"
  using assms by (simp add: async_call_callback_def Let_def split: option.splits)

text \<open>Built without \<open>CINATRA_ENABLE_SSL\<close>, \<open>test_ssl\<close> ends the process in its \<open>connect\<close>.\<close>

theorem test_ssl_aborts: "\<not> cl_has_connected c \<Longrightarrow> test_ssl_connect c = None"
  by (simp add: test_ssl_connect_def connect_to_def connect_def upgrade_to_ssl_def is_ssl_def)

text \<open>On a client that is not connected \<open>test_callback\<close> does not survive its second call: the first
  callback prints the error, the second reads the text \<open>not connected\<close> as a reply, and the exception
  leaves the test, which nobody catches.\<close>

theorem test_callback_not_connected:
  assumes "\<not> cl_has_connected c"
  shows "test_callback ec_value c =
    Some (c\<lparr>cl_called := cl_called c @
      [(0, Some not_connected, lit ''not connected''), (1, Some not_connected, lit ''not connected'')]\<rparr>,
      Inl (invalid_argument (lit ''unpack failed:Args not match'')))"
proof -
  have "[0..<100] = 0 # [1..<100 :: nat]" by (simp add: upt_rec)
  then obtain rest where calls: "test_callback_calls =
      (100, lit ''async_echo'', 0, [V_string (lit ''test'' @ to_string 1)]) #
      (0, lit ''echo'', 1, [V_string (lit ''test'' @ to_string 2)]) # rest"
    by (simp add: test_callback_calls_def numeral_2_eq_2)
  have first: "test_callback_lambdas ec_value 0 (Some not_connected) (lit ''not connected'') = None"
    using raised_by_callbacks(1) [of ec_value 0] by simp
  have second: "test_callback_lambdas ec_value 1 (Some not_connected) (lit ''not connected'') = Some args_not_match"
    using raised_by_callbacks(2) [OF not_connected_text, of ec_value 0] by simp
  show ?thesis
    unfolding test_callback_def calls
    using assms by (simp add: call_not_connected first second Let_def args_not_match_def del: callback_calls.simps One_nat_def)
qed

theorem test_callback_not_connected_witness:
  "let c = new_client (lit ''127.0.0.1'') 9000 (\<lambda>_. True) [0, 0, 0, 0, 0, 0] blank_header in
   test_callback (\<lambda>_. []) c =
    Some (c\<lparr>cl_called := [(0, Some not_connected, lit ''not connected''), (1, Some not_connected, lit ''not connected'')]\<rparr>,
      Inl (invalid_argument (lit ''unpack failed:Args not match'')))"
  unfolding Let_def by (subst test_callback_not_connected) (simp_all add: new_client_def)

text \<open>What a connected client queues for a list of calls.\<close>

definition request_of :: "client_message_type \<Rightarrow> u32 \<times> bytes" where
  "request_of m = (cm_func_id m, cm_content m)"

lemma callback_calls_connected:
  assumes "list_all2 (\<lambda>(timeout, name, cb, args) r. fst r = hash_name name \<and> pack_args args = Inr (snd r) \<and>
      length (snd r) < MAX_BUF_LEN) calls rs" "cl_has_connected c"
  shows "\<exists>c'. callback_calls f calls c = Some (c', Inr ()) \<and>
    map request_of (cl_outbox c') = map request_of (cl_outbox c) @ rs \<and> cl_called c' = cl_called c"
  using assms
proof (induction arbitrary: c rule: list_all2_induct)
  case (Cons x calls r rs)
  obtain timeout name cb args where x: "x = (timeout, name, cb, args)" by (cases x) auto
  obtain c1 where c1: "async_call_callback timeout name cb args c = Some (c1, Inr ())"
    "map request_of (cl_outbox c1) = map request_of (cl_outbox c) @ [r]" "cl_called c1 = cl_called c" "cl_has_connected c1"
    using Cons.hyps(1) Cons.prems
    by (cases r) (auto simp: x async_call_callback_def client_write_def enqueue_message_def write_outbox_def Let_def
        request_of_def)
  show ?case using Cons.IH [OF c1(4)] c1(1-3) by (simp add: x)
qed simp

lemma pack_short_string:
  assumes "length s < 100"
  obtains b where "pack_args [V_string s] = Inr b" "length b < MAX_BUF_LEN"
    "codec_unpack (T_tuple [T_string]) b = Inr (V_tuple [V_string s])"
proof -
  have args: "list_all2 has_type [V_string s] [T_string]" "fits (V_tuple [V_string s])" using assms by simp_all
  obtain b where b: "pack_args [V_string s] = Inr b" "codec_unpack (T_tuple [T_string]) b = Inr (V_tuple [V_string s])"
    using mp.unpack_args [OF args] by (auto simp: pack_args_def)
  have "length b \<le> length s + 6"
    using b(1) assms length_pack_str [of "of_nat (length s)"]
    by (auto simp: pack_args_def append_res_def pack_string_def checked_get_container_size_def pack_array_def pack_body_def)
  then show thesis using that b assms by (simp add: MAX_BUF_LEN_def)
qed

lemma test_callback_args:
  assumes "x \<in> set test_callback_calls"
  shows "\<exists>timeout name cb s. x = (timeout, name, cb, [V_string s]) \<and> length s < 100"
proof -
  have short: "length (lit ''test'' @ to_string n) < 100" if "n < 102" for n
  proof -
    have "length (to_string n) \<le> 3" by (rule length_to_string) (use that in simp_all)
    then show ?thesis by (simp add: lit_def)
  qed
  show ?thesis using assms short unfolding test_callback_calls_def by auto
qed

text \<open>The request that a call becomes.\<close>

definition request_for :: "nat \<times> bytes \<times> nat \<times> cval list \<Rightarrow> u32 \<times> bytes" where
  "request_for x = (case x of (timeout, name, cb, args) \<Rightarrow>
     (hash_name name, case pack_args args of Inl e \<Rightarrow> [] | Inr b \<Rightarrow> b))"

text \<open>On a connected client \<open>test_callback\<close> returns with its two hundred requests queued in the order
  of its loop, an \<open>async_echo\<close> and an \<open>echo\<close> in turn, each with the argument of its call, and no
  callback has been called yet.\<close>

theorem test_callback_queues:
  assumes "cl_has_connected c"
  shows "\<exists>c' rs. test_callback ec_value c = Some (c', Inr ()) \<and>
    map request_of (cl_outbox c') = map request_of (cl_outbox c) @ rs \<and>
    map fst rs = concat (replicate 100 [hash_name (lit ''async_echo''), hash_name (lit ''echo'')]) \<and>
    map (\<lambda>r. codec_unpack (T_tuple [T_string]) (snd r)) rs =
      map (\<lambda>(timeout, name, cb, args). Inr (V_tuple args)) test_callback_calls \<and>
    cl_called c' = cl_called c"
proof -
  let ?rs = "map request_for test_callback_calls"
  have each: "(case x of (timeout, name, cb, args) \<Rightarrow> fst (request_for x) = hash_name name \<and>
      pack_args args = Inr (snd (request_for x)) \<and> length (snd (request_for x)) < MAX_BUF_LEN \<and>
      codec_unpack (T_tuple [T_string]) (snd (request_for x)) = Inr (V_tuple args))" if elem: "x \<in> set test_callback_calls" for x
  proof -
    obtain timeout name cb s where x: "x = (timeout, name, cb, [V_string s])" "length s < 100"
      using test_callback_args [OF elem] by blast
    show ?thesis by (rule pack_short_string [OF x(2)]) (simp add: x(1) request_for_def)
  qed
  have "list_all2 (\<lambda>(timeout, name, cb, args) r. fst r = hash_name name \<and> pack_args args = Inr (snd r) \<and>
      length (snd r) < MAX_BUF_LEN) test_callback_calls ?rs"
    unfolding list_all2_map2 list_all2_same by (intro ballI) (drule each, auto split: prod.splits)
  from callback_calls_connected [OF this assms] obtain c' where c': "test_callback ec_value c = Some (c', Inr ())"
    "map request_of (cl_outbox c') = map request_of (cl_outbox c) @ ?rs" "cl_called c' = cl_called c"
    unfolding test_callback_def by blast
  have names: "map fst ?rs = concat (replicate 100 [hash_name (lit ''async_echo''), hash_name (lit ''echo'')])"
    by (simp add: test_callback_calls_def map_concat comp_def request_for_def map_replicate_const)
  have "map (\<lambda>r. codec_unpack (T_tuple [T_string]) (snd r)) ?rs =
      map (\<lambda>(timeout, name, cb, args). Inr (V_tuple args)) test_callback_calls"
    unfolding map_map by (rule map_cong [OF refl]) (drule each, auto split: prod.splits)
  with c' names show ?thesis by blast
qed

theorem test_callback_queues_witness:
  "\<exists>c' rs. test_callback (\<lambda>_. []) ((new_client (lit ''127.0.0.1'') 9000 (\<lambda>_. True) [0, 0, 0, 0, 0, 0] blank_header)
      \<lparr>cl_has_connected := True\<rparr>) = Some (c', Inr ()) \<and>
    map request_of (cl_outbox c') = rs \<and>
    map fst rs = concat (replicate 100 [hash_name (lit ''async_echo''), hash_name (lit ''echo'')]) \<and>
    map (\<lambda>r. codec_unpack (T_tuple [T_string]) (snd r)) rs =
      map (\<lambda>(timeout, name, cb, args). Inr (V_tuple args)) test_callback_calls \<and>
    cl_called c' = []"
  using test_callback_queues [of "(new_client (lit ''127.0.0.1'') 9000 (\<lambda>_. True) [0, 0, 0, 0, 0, 0] blank_header)
      \<lparr>cl_has_connected := True\<rparr>" "\<lambda>_. []"]
  by (simp add: new_client_def)

end
