(* ===== verification/Example_Ids.thy ===== *)
theory Example_Ids imports Md5_Vectors Router begin

text \<open>
  The function ids of the names that \<open>example/server/server.cpp\<close> registers, evaluated from the code of
  \<open>md5.hpp\<close>: they are what travels in the header of a call. The evaluation is slow, so nothing but
  \<open>Example_Calls\<close> imports this theory.
\<close>

lemma hash_name_eval:
  assumes "0 \<notin> set name" "Hash32 (name @ [0]) (of_nat (length name)) = Some h"
  shows "hash_name name = h"
  using assms StringLength_terminated [of name "[]"] by (simp add: hash_name_def MD5Hash32_def)

lemmas id_eval = Hash32_def process_message_blocks n_blocks_def lit_def

lemma id_add: "hash_name (lit ''add'') = 0x34ec78fc"
proof (rule hash_name_eval)
  show "Hash32 (lit ''add'' @ [0]) (of_nat (length (lit ''add''))) = Some 0x34ec78fc"
    unfolding id_eval by (simp add: md5_eval one_block_def)
qed (simp add: lit_def of_char_def)

lemma id_get_dummy: "hash_name (lit ''get_dummy'') = 0x9bb204fe"
proof (rule hash_name_eval)
  show "Hash32 (lit ''get_dummy'' @ [0]) (of_nat (length (lit ''get_dummy''))) = Some 0x9bb204fe"
    unfolding id_eval by (simp add: md5_eval one_block_def)
qed (simp add: lit_def of_char_def)

lemma id_translate: "hash_name (lit ''translate'') = 0xfc46e26a"
proof (rule hash_name_eval)
  show "Hash32 (lit ''translate'' @ [0]) (of_nat (length (lit ''translate''))) = Some 0xfc46e26a"
    unfolding id_eval by (simp add: md5_eval one_block_def)
qed (simp add: lit_def of_char_def)

lemma id_hello: "hash_name (lit ''hello'') = 0x5d41402a"
proof (rule hash_name_eval)
  show "Hash32 (lit ''hello'' @ [0]) (of_nat (length (lit ''hello''))) = Some 0x5d41402a"
    unfolding id_eval by (simp add: md5_eval one_block_def)
qed (simp add: lit_def of_char_def)

lemma id_get_person_name: "hash_name (lit ''get_person_name'') = 0x42b5346a"
proof (rule hash_name_eval)
  show "Hash32 (lit ''get_person_name'' @ [0]) (of_nat (length (lit ''get_person_name''))) = Some 0x42b5346a"
    unfolding id_eval by (simp add: md5_eval one_block_def)
qed (simp add: lit_def of_char_def)

lemma id_get_person: "hash_name (lit ''get_person'') = 0x55b96248"
proof (rule hash_name_eval)
  show "Hash32 (lit ''get_person'' @ [0]) (of_nat (length (lit ''get_person''))) = Some 0x55b96248"
    unfolding id_eval by (simp add: md5_eval one_block_def)
qed (simp add: lit_def of_char_def)

lemma id_upload: "hash_name (lit ''upload'') = 0x76ee3de9"
proof (rule hash_name_eval)
  show "Hash32 (lit ''upload'' @ [0]) (of_nat (length (lit ''upload''))) = Some 0x76ee3de9"
    unfolding id_eval by (simp add: md5_eval one_block_def)
qed (simp add: lit_def of_char_def)

lemma id_download: "hash_name (lit ''download'') = 0xfd456406"
proof (rule hash_name_eval)
  show "Hash32 (lit ''download'' @ [0]) (of_nat (length (lit ''download''))) = Some 0xfd456406"
    unfolding id_eval by (simp add: md5_eval one_block_def)
qed (simp add: lit_def of_char_def)

lemma id_get_name: "hash_name (lit ''get_name'') = 0x6ab72439"
proof (rule hash_name_eval)
  show "Hash32 (lit ''get_name'' @ [0]) (of_nat (length (lit ''get_name''))) = Some 0x6ab72439"
    unfolding id_eval by (simp add: md5_eval one_block_def)
qed (simp add: lit_def of_char_def)

lemma id_async_echo: "hash_name (lit ''async_echo'') = 0xd80a2799"
proof (rule hash_name_eval)
  show "Hash32 (lit ''async_echo'' @ [0]) (of_nat (length (lit ''async_echo''))) = Some 0xd80a2799"
    unfolding id_eval by (simp add: md5_eval one_block_def)
qed (simp add: lit_def of_char_def)

lemma id_echo: "hash_name (lit ''echo'') = 0xcbb11ed8"
proof (rule hash_name_eval)
  show "Hash32 (lit ''echo'' @ [0]) (of_nat (length (lit ''echo''))) = Some 0xcbb11ed8"
    unfolding id_eval by (simp add: md5_eval one_block_def)
qed (simp add: lit_def of_char_def)

lemma id_get_int: "hash_name (lit ''get_int'') = 0x47ba4cd6"
proof (rule hash_name_eval)
  show "Hash32 (lit ''get_int'' @ [0]) (of_nat (length (lit ''get_int''))) = Some 0x47ba4cd6"
    unfolding id_eval by (simp add: md5_eval one_block_def)
qed (simp add: lit_def of_char_def)

lemma id_publish_by_token: "hash_name (lit ''publish_by_token'') = 0x6a70316c"
proof (rule hash_name_eval)
  show "Hash32 (lit ''publish_by_token'' @ [0]) (of_nat (length (lit ''publish_by_token''))) = Some 0x6a70316c"
    unfolding id_eval by (simp add: md5_eval one_block_def)
qed (simp add: lit_def of_char_def)

lemma id_publish: "hash_name (lit ''publish'') = 0x9b6d0bb3"
proof (rule hash_name_eval)
  show "Hash32 (lit ''publish'' @ [0]) (of_nat (length (lit ''publish''))) = Some 0x9b6d0bb3"
    unfolding id_eval by (simp add: md5_eval one_block_def)
qed (simp add: lit_def of_char_def)

lemmas example_ids = id_add id_get_dummy id_translate id_hello id_get_person_name
  id_get_person id_upload id_download id_get_name id_async_echo
  id_echo id_get_int id_publish_by_token id_publish

end
