(* ===== verification/Example_Calls.thy ===== *)
theory Example_Calls imports Example_Server Example_Ids begin

text \<open>
  Calls of the example server: its table of functions, and what a client gets from them. The
  function ids come from \<open>Example_Ids\<close>.
\<close>

section \<open>Registering one function after the other\<close>

definition register_all :: "(ExecMode \<times> bytes \<times> ('w, 'c) handler) list \<Rightarrow> ('w, 'c) router \<Rightarrow> ('w, 'c) router" where
  "register_all fs r = fold (\<lambda>(model, name, f). register_handler model name f) fs r"

lemma register_all_Cons:
  "register_all ((m, n, f) # fs) r = register_all fs (register_handler m n f r)"
  by (simp add: register_all_def)

lemma name_registered:
  "key2func_name r (hash_name n) = None \<Longrightarrow> key2func_name (register_handler m n f r) (hash_name n) = Some n"
  "key \<noteq> hash_name n \<Longrightarrow> key2func_name (register_handler m n f r) key = key2func_name r key"
  by (auto simp: register_handler_def register_nonmember_func_def emplace_name_def split: option.splits)

lemma register_all_other:
  "key \<notin> (\<lambda>(m, n, f). hash_name n) ` set fs \<Longrightarrow>
   map_invokers (register_all fs r) key = map_invokers r key \<and> key2func_name (register_all fs r) key = key2func_name r key"
proof (induction fs arbitrary: r)
  case (Cons x fs)
  obtain m n f where x: "x = (m, n, f)" by (cases x)
  then show ?case using Cons by (auto simp: register_all_Cons name_registered)
qed (simp add: register_all_def)

lemma register_all_each:
  "distinct (map (\<lambda>(m, n, f). hash_name n) fs) \<Longrightarrow> \<forall>(m, n, f) \<in> set fs. key2func_name r (hash_name n) = None \<Longrightarrow>
   map (\<lambda>(m, n, f). map_invokers (register_all fs r) (hash_name n)) fs = map (\<lambda>(m, n, f). Some (invoker_apply m f)) fs \<and>
   map (\<lambda>(m, n, f). key2func_name (register_all fs r) (hash_name n)) fs = map (\<lambda>(m, n, f). Some n) fs"
proof (induction fs arbitrary: r)
  case (Cons x fs)
  obtain m n f where x: "x = (m, n, f)" by (cases x)
  let ?r = "register_handler m n f r"
  have new: "hash_name n \<notin> (\<lambda>(m, n, f). hash_name n) ` set fs" using Cons.prems(1) by (simp add: x)
  have "\<forall>(m', n', f') \<in> set fs. key2func_name ?r (hash_name n') = None"
  proof safe
    fix m' n' f' assume "(m', n', f') \<in> set fs"
    then have "hash_name n' \<noteq> hash_name n" "key2func_name r (hash_name n') = None"
      using new Cons.prems(2) by force+
    then show "key2func_name ?r (hash_name n') = None" by (simp add: name_registered)
  qed
  note IH = Cons.IH [OF _ this]
  have "key2func_name r (hash_name n) = None" using Cons.prems(2) by (simp add: x)
  then have "map_invokers (register_all fs ?r) (hash_name n) = Some (invoker_apply m f)"
    "key2func_name (register_all fs ?r) (hash_name n) = Some n"
    using register_all_other [OF new, of ?r] by (simp_all add: name_registered)
  then show ?case using IH Cons.prems(1) by (simp add: x register_all_Cons)
qed simp

section \<open>The table of the example\<close>

abbreviation add_only :: "(example server, nat) router" where
  "add_only \<equiv> register_handler_member sync (lit ''add'') add_handler () empty_router"

lemma example_router_all: "example_router = register_all example_functions add_only"
  by (simp add: example_router_def register_all_def)

lemma add_only_lookup:
  "map_invokers add_only (hash_name (lit ''add'')) = Some (invoker_apply_member sync add_handler ())"
  "key \<noteq> hash_name (lit ''add'') \<Longrightarrow> key2func_name add_only key = None"
  by (simp_all add: register_handler_member_def register_member_func_def emplace_name_def)

lemma add_not_again: "hash_name (lit ''add'') \<notin> (\<lambda>(m, n, f). hash_name n) ` set example_functions"
  by (simp add: example_functions_def example_ids)

lemma example_names_distinct: "distinct (map (\<lambda>(m, n, f). hash_name n) example_functions)"
  by (simp add: example_functions_def example_ids)

lemma example_names_free: "\<forall>(m, n, f) \<in> set example_functions. key2func_name add_only (hash_name n) = None"
  using add_not_again by (force intro: add_only_lookup)

lemmas example_table = register_all_each [OF example_names_distinct example_names_free, folded example_router_all]

lemma example_lookup:
  assumes "(m, n, f) \<in> set example_functions"
  shows "map_invokers example_router (hash_name n) = Some (invoker_apply m f)"
  using conjunct1 [OF example_table] assms by (auto simp: list_eq_iff_nth_eq in_set_conv_nth)

section \<open>Limits\<close>

lemma length_ok_reply:
  assumes "pack_args_str RC_OK [V_string d] = Inr b" "length d < 10000000"
  shows "length b < MAX_BUF_LEN"
proof -
  have "length b \<le> length d + 7"
    using assms length_pack_str [of "of_nat (length d)"]
    by (auto simp: pack_args_str_def append_res_def pack_string_def checked_get_container_size_def pack_array_def
        pack_int_def pack_imp_int32_def pack_body_def)
  then show ?thesis using assms(2) by (simp add: MAX_BUF_LEN_def)
qed

lemma ok_reply_string:
  assumes "length d < 10000000"
  obtains b where "pack_args_str RC_OK (case Some (V_string d) of None \<Rightarrow> [] | Some x \<Rightarrow> [x]) = Inr b"
    "length b < MAX_BUF_LEN" "as_result T_string b = Inr (V_string d)"
proof -
  have v: "has_type (V_string d) T_string" "fits (V_string d)" using assms by simp_all
  obtain b where b: "pack_args_str RC_OK [V_string d] = Inr b" using reply_ok_bytes [OF v] by metis
  then show thesis using that length_ok_reply [OF b assms] as_result_ok [OF v b] by simp
qed

lemma ok_reply_void:
  obtains b where "pack_args_str RC_OK (case None of None \<Rightarrow> [] | Some x \<Rightarrow> [x]) = Inr b" "length b < MAX_BUF_LEN"
  by (simp add: pack_args_str_def append_res_def pack_array_def pack_int_def pack_imp_int32_def MAX_BUF_LEN_def)

section \<open>Properties\<close>

text \<open>The names the example registers have different ids, so that after all registrations each
  id is served by the function and reported under the name it was registered with.\<close>

theorem example_functions_served:
  "map (\<lambda>(m, n, f). map_invokers example_router (hash_name n)) example_functions
     = map (\<lambda>(m, n, f). Some (invoker_apply m f)) example_functions \<and>
   map (\<lambda>(m, n, f). get_name_by_key example_router (hash_name n)) example_functions
     = map (\<lambda>(m, n, f). n) example_functions \<and>
   map_invokers example_router (hash_name (lit ''add'')) = Some (invoker_apply_member sync add_handler ())"
proof (intro conjI)
  show "map (\<lambda>(m, n, f). map_invokers example_router (hash_name n)) example_functions
     = map (\<lambda>(m, n, f). Some (invoker_apply m f)) example_functions"
    using example_table by blast
  show "map (\<lambda>(m, n, f). get_name_by_key example_router (hash_name n)) example_functions
     = map (\<lambda>(m, n, f). n) example_functions"
    using conjunct2 [OF example_table]
    by (simp add: get_name_by_key_def case_prod_beta)
  show "map_invokers example_router (hash_name (lit ''add'')) = Some (invoker_apply_member sync add_handler ())"
    using register_all_other [OF add_not_again, where r = add_only] by (simp add: example_router_all add_only_lookup)
qed

text \<open>C36. What a client uploads is what a client downloads: after an answered call of \<open>upload\<close> under a
  name that can be written, a call of \<open>download\<close> under a name of the same file is answered with the
  uploaded bytes, on whatever connections the two calls come.\<close>

theorem download_returns_upload:
  assumes "ex_creatable (sv_user s) (c_str fn)" "c_str fn' = c_str fn"
    and "length fn < 100000" "length fn' < 100000" "length data < 10000000"
  shows "\<exists>up down s1 s2 a1 a2.
    pack_args [V_string fn, V_string data] = Inr up \<and> pack_args [V_string fn'] = Inr down \<and>
    route example_router (hash_name (lit ''upload'')) up (Some (c1, i)) s = (s1, Inr (Some (i, a1))) \<and>
    route example_router (hash_name (lit ''download'')) down (Some (c2, j)) s1 = (s2, Inr (Some (j, a2))) \<and>
    as_result T_string a2 = Inr (V_string data)"
proof -
  have up: "map_invokers example_router (hash_name (lit ''upload'')) = Some (invoker_apply sync upload_handler)"
    and down: "map_invokers example_router (hash_name (lit ''download'')) = Some (invoker_apply sync download_handler)"
    by (rule example_lookup, simp add: example_functions_def)+
  let ?s1 = "fst (upload c1 fn data s)" and ?s2 = "fst (download c2 fn' (fst (upload c1 fn data s)))"
  have call_up: "hd_call upload_handler s c1 [V_string fn, V_string data] = (?s1, Inr None)"
    by (simp add: upload_handler_def returning_void_def upload_def cong: if_cong)
  have "ex_files (sv_user ?s1) (c_str fn') = Some data"
    using assms(1,2) by (simp add: upload_def on_user_def print_line_def)
  then have call_down: "hd_call download_handler ?s1 c2 [V_string fn'] = (?s2, Inr (Some (V_string data)))"
    by (simp add: download_handler_def returning_def download_def)
  obtain a1 where a1: "pack_args_str RC_OK (case None of None \<Rightarrow> [] | Some x \<Rightarrow> [x]) = Inr a1" "length a1 < MAX_BUF_LEN"
    by (rule ok_reply_void)
  obtain a2 where a2: "pack_args_str RC_OK (case Some (V_string data) of None \<Rightarrow> [] | Some x \<Rightarrow> [x]) = Inr a2"
    "length a2 < MAX_BUF_LEN" "as_result T_string a2 = Inr (V_string data)"
    by (rule ok_reply_string [OF assms(5)])
  have "list_all2 has_type [V_string fn, V_string data] (hd_args upload_handler)" "fits (V_tuple [V_string fn, V_string data])"
    "list_all2 has_type [V_string fn'] (hd_args download_handler)" "fits (V_tuple [V_string fn'])"
    using assms(3-5) by (simp_all add: upload_handler_def download_handler_def)
  from registered_answer [OF up this(1,2) call_up a1] registered_answer [OF down this(3,4) call_down a2(1,2)]
  show ?thesis using a2(3) by blast
qed

definition idle_server :: "nat \<Rightarrow> example \<Rightarrow> example server" where
  "idle_server n u =
     \<lparr>sv_conns = replicate n (start (new_connection [0, 0, 0, 0, 0, 0] 0 0
         \<lparr>h_magic = 0, h_req_type = 0, h_body_len = 0, h_req_id = 0, h_func_id = 0\<rparr> 15)),
      sv_contexts = replicate n 0, sv_fresh = (\<lambda>_. undefined), sv_conn = 0, sv_accepting = False,
      sv_acceptor_open = True, sv_connections = [], sv_conn_id = 0, sv_sub_map = [], sv_token_list = [],
      sv_pool = undefined, sv_timeout_seconds = 15, sv_net_err = False, sv_timeout_cb = False, sv_timeouts = [],
      sv_stop_check = False, sv_stop_check_pub_sub = False, sv_has_stoped = False, sv_aborted = False, sv_user = u\<rparr>"

definition empty_example :: example where
  "empty_example = \<lparr>ex_out = [], ex_files = (\<lambda>_. None), ex_creatable = (\<lambda>_. True), ex_qps = new_qps,
     ex_any = no_anys, ex_threads = []\<rparr>"

theorem download_returns_upload_witness:
  "\<exists>up down s1 s2 a1 a2.
    pack_args [V_string (lit ''test''), V_string [1, 2, 3]] = Inr up \<and> pack_args [V_string (lit ''test'')] = Inr down \<and>
    route example_router (hash_name (lit ''upload'')) up (Some (0, 7)) (idle_server 2 empty_example) = (s1, Inr (Some (7, a1))) \<and>
    route example_router (hash_name (lit ''download'')) down (Some (1, 3)) s1 = (s2, Inr (Some (3, a2))) \<and>
    as_result T_string a2 = Inr (V_string [1, 2, 3])"
  by (rule download_returns_upload) (simp_all add: idle_server_def empty_example_def lit_def)

text \<open>C37. A call of the asynchronous \<open>async_echo\<close> is not answered when the function returns; the
  thread it starts answers it later, under the id of this call, with the argument, in whatever state
  the server then is, if the connection still exists.\<close>

theorem async_echo_answers_later:
  assumes "lock_conn conn s = Some c" "length src < 10000000"
  shows "\<exists>request s1 reply. pack_args [V_string src] = Inr request \<and>
    route example_router (hash_name (lit ''async_echo'')) request (Some (conn, c_req_id c)) s = (s1, Inr None) \<and>
    ex_threads (sv_user s1) = ex_threads (sv_user s) @ [(conn, c_req_id c, src)] \<and>
    as_result T_string reply = Inr (V_string src) \<and>
    (\<forall>s2 c2 k. ex_threads (sv_user s2) ! k = (conn, c_req_id c, src) \<longrightarrow> lock_conn conn s2 = Some c2 \<longrightarrow>
       conn < length (sv_conns s2) \<longrightarrow>
       (\<exists>s3. async_echo_thread k s2 = Some s3 \<and>
         sv_conns s3 ! conn = enqueue \<lparr>m_req_id = c_req_id c, m_req_type = req_res, m_content = reply\<rparr> c2))"
proof -
  have reg: "map_invokers example_router (hash_name (lit ''async_echo'')) = Some (invoker_apply async async_echo_handler)"
    by (rule example_lookup) (simp add: example_functions_def Async_def)
  let ?s1 = "fst (async_echo conn src s)"
  have args: "list_all2 has_type [V_string src] (hd_args async_echo_handler)" "fits (V_tuple [V_string src])"
    using assms(2) by (simp_all add: async_echo_handler_def)
  then obtain request where req: "pack_args [V_string src] = Inr request"
    "codec_unpack (T_tuple (hd_args async_echo_handler)) request = Inr (V_tuple [V_string src])"
    using mp.unpack_args [OF args] by (auto simp: pack_args_def)
  have call: "hd_call async_echo_handler s conn [V_string src] = (?s1, Inr None)"
    using assms(1) by (simp add: async_echo_handler_def returning_void_def async_echo_def)
  obtain b where "pack_args_str RC_OK [] = Inr b" using ok_reply_void by auto
  from apply_void [OF req(2) call this]
  have route: "route example_router (hash_name (lit ''async_echo'')) request (Some (conn, c_req_id c)) s = (?s1, Inr None)"
    using reg by (simp add: route_def)
  obtain reply where reply: "pack_args_str RC_OK [V_string src] = Inr reply" "length reply < MAX_BUF_LEN"
    "as_result T_string reply = Inr (V_string src)"
    using ok_reply_string [OF assms(2)] by auto
  have thread: "\<exists>s3. async_echo_thread k s2 = Some s3 \<and>
      sv_conns s3 ! conn = enqueue \<lparr>m_req_id = c_req_id c, m_req_type = req_res, m_content = reply\<rparr> c2"
    if "ex_threads (sv_user s2) ! k = (conn, c_req_id c, src)" "lock_conn conn s2 = Some c2" "conn < length (sv_conns s2)"
    for s2 c2 k
    using that reply(1,2)
    by (simp add: async_echo_thread_def pack_and_response_def response_def on_user_def put_conn_def Let_def)
  have "ex_threads (sv_user ?s1) = ex_threads (sv_user s) @ [(conn, c_req_id c, src)]"
    using assms(1) by (simp add: async_echo_def on_user_def)
  then show ?thesis using req(1) route reply(3) thread by blast
qed

theorem async_echo_answers_later_witness:
  "\<exists>request s1. pack_args [V_string [104, 105]] = Inr request \<and>
    route example_router (hash_name (lit ''async_echo'')) request (Some (1, 0)) (idle_server 2 empty_example) = (s1, Inr None) \<and>
    ex_threads (sv_user s1) = [(1, 0, [104, 105])]"
proof -
  let ?s = "idle_server 2 empty_example" and ?c = "start (new_connection [0, 0, 0, 0, 0, 0] 0 0
         \<lparr>h_magic = 0, h_req_type = 0, h_body_len = 0, h_req_id = 0, h_func_id = 0\<rparr> 15)"
  have c: "lock_conn 1 ?s = Some ?c" "c_req_id ?c = 0"
    by (simp_all add: lock_conn_def idle_server_def start_def read_head_def reset_timer_def new_connection_def)
  have "ex_threads (sv_user ?s) = []" by (simp add: idle_server_def empty_example_def)
  then show ?thesis using async_echo_answers_later [OF c(1), of "[104, 105]"] c(2) by auto
qed

end
