(* ===== verification/Example_Runs.thy ===== *)
theory Example_Runs imports Example_Client Example_Calls begin

text \<open>
  The scripts of the example client against the example server: what the tests print when the calls
  are served.
\<close>

section \<open>Served calls\<close>

text \<open>Every connection of the server has its user data, every temporary is free.\<close>

definition ex_ok :: "example server \<Rightarrow> bool" where
  "ex_ok s \<longleftrightarrow> any_inv (ex_any (sv_user s)) \<and>
     (\<forall>h. exists_any (ex_any (sv_user s)) (2 * h) \<and> \<not> exists_any (ex_any (sv_user s)) (2 * h + 1))"

text \<open>How a wait ends when the server has answered the call, in some state and on some connection.\<close>

definition served :: "bytes \<times> cval list \<Rightarrow> future_status \<Rightarrow> bool" where
  "served c status \<longleftrightarrow>
     (\<exists>s s' h i request reply. ex_ok s \<and> pack_args (snd c) = Inr request \<and>
        route example_router (hash_name (fst c)) request (Some (h, i)) s = (s', Inr (Some (i, reply))) \<and>
        status = Fut_ready reply)"

text \<open>A function that yields \<open>v\<close> for these arguments in every state, with a reply of moderate size.\<close>

definition yields :: "ex_handler \<Rightarrow> cval list \<Rightarrow> cval option \<Rightarrow> bool" where
  "yields f args v \<longleftrightarrow>
     list_all2 has_type args (hd_args f) \<and> fits (V_tuple args) \<and>
     (\<forall>s h. ex_ok s \<longrightarrow> (\<exists>s'. hd_call f s h args = (s', Inr v))) \<and>
     (\<exists>b. pack_args_str RC_OK (case v of None \<Rightarrow> [] | Some x \<Rightarrow> [x]) = Inr b \<and> length b < MAX_BUF_LEN)"

lemma yields_call: "yields f args v \<Longrightarrow> ex_ok s \<Longrightarrow> \<exists>s'. hd_call f s h args = (s', Inr v)"
  unfolding yields_def by blast

lemma served_reply:
  assumes "map_invokers example_router (hash_name n) = Some (invoker_apply sync f)" "yields f args v"
    "served (n, args) status"
  obtains b where "pack_args_str RC_OK (case v of None \<Rightarrow> [] | Some x \<Rightarrow> [x]) = Inr b" "status = Fut_ready b"
proof -
  obtain b where b: "pack_args_str RC_OK (case v of None \<Rightarrow> [] | Some x \<Rightarrow> [x]) = Inr b" "length b < MAX_BUF_LEN"
    using assms(2) by (auto simp: yields_def)
  obtain s s' h i request reply where st: "ex_ok s" "pack_args args = Inr request" "status = Fut_ready reply"
    "route example_router (hash_name n) request (Some (h, i)) s = (s', Inr (Some (i, reply)))"
    using assms(3) by (auto simp: served_def)
  obtain s1 where "hd_call f s h args = (s1, Inr v)" using yields_call [OF assms(2) st(1)] by blast
  from registered_answer(1) [OF assms(1) _ _ this b st(2), of i] assms(2) st(4)
  have "reply = b" by (auto simp: yields_def)
  then show thesis using that b(1) st(3) by simp
qed

lemma can_be_served:
  assumes "map_invokers example_router (hash_name n) = Some (invoker_apply sync f)" "yields f args v" "ex_ok s"
  shows "\<exists>status. served (n, args) status"
proof -
  obtain b where b: "pack_args_str RC_OK (case v of None \<Rightarrow> [] | Some x \<Rightarrow> [x]) = Inr b" "length b < MAX_BUF_LEN"
    using assms(2) by (auto simp: yields_def)
  obtain s1 where call: "hd_call f s 0 args = (s1, Inr v)" using yields_call [OF assms(2,3)] by blast
  have args: "list_all2 has_type args (hd_args f)" "fits (V_tuple args)" using assms(2) by (simp_all add: yields_def)
  obtain request where req: "pack_args args = Inr request" using registered_answer(2) [OF assms(1) args call b] by blast
  obtain s' where "route example_router (hash_name n) request (Some (0, 0)) s = (s', Inr (Some (0, b)))"
    using registered_answer(1) [OF assms(1) args call b req, of 0] by blast
  then have "served (n, args) (Fut_ready b)"
    unfolding served_def fst_conv snd_conv using assms(3) req by blast
  then show ?thesis by (rule exI)
qed

lemma served_value:
  assumes "map_invokers example_router (hash_name n) = Some (invoker_apply sync f)" "yields f args (Some v)"
    "served (n, args) status" "has_type v t" "fits v"
  shows "call_result t status = Inr v"
proof -
  obtain b where "pack_args_str RC_OK (case Some v of None \<Rightarrow> [] | Some x \<Rightarrow> [x]) = Inr b" "status = Fut_ready b"
    by (rule served_reply [OF assms(1-3)])
  then show ?thesis using req_as_ok [OF assms(4,5), of b] by (simp add: call_result_def)
qed

lemma served_void:
  assumes "map_invokers example_router (hash_name n) = Some (invoker_apply sync f)" "yields f args None"
    "served (n, args) status"
  shows "call_result_void status = Inr ()"
proof -
  obtain b where "pack_args_str RC_OK (case None of None \<Rightarrow> [] | Some x \<Rightarrow> [x]) = Inr b" "status = Fut_ready b"
    by (rule served_reply [OF assms])
  then show ?thesis using req_as_void_ok [of b] by (simp add: call_result_void_def)
qed

section \<open>The calls of the synchronous tests\<close>

lemma ex_ok_user_data:
  assumes "ex_ok s"
  shows "\<exists>w. set_user_data (2 * h + 1) (2 * h) T_string v (ex_any (sv_user s)) = Some w \<and> get_user_data (2 * h) T_string w = Inr v"
proof -
  let ?w = "ex_any (sv_user s)"
  have ok: "any_inv ?w" "exists_any ?w (2 * h)" "\<not> exists_any ?w (2 * h + 1)" using assms by (simp_all add: ex_ok_def)
  obtain w where "set_user_data (2 * h + 1) (2 * h) T_string v ?w = Some w" "content w (2 * h) = Some (aw_next ?w)"
    "aw_heap w (aw_next ?w) = Some (T_string, v)"
    using set_user_data_result [OF ok] by metis
  then show ?thesis by (simp add: get_user_data_def any_cast_eq)
qed

definition add_function :: ex_handler where
  "add_function = \<lparr>hd_args = mh_args add_handler, hd_call = mh_call add_handler ()\<rparr>"

lemma add_yields: "yields add_function [V_int 1, V_int 2] (Some (V_int 3))"
proof -
  have "\<exists>s'. hd_call add_function s h [V_int 1, V_int 2] = (s', Inr (Some (V_int 3)))" if "ex_ok s" for s h
    using ex_ok_user_data [OF that, of h "V_string (lit ''aa'')"]
    by (auto simp: add_function_def add_handler_def returning_def dummy_add_def Let_def split: option.splits)
  then show ?thesis
    by (simp add: yields_def add_function_def add_handler_def pack_args_str_def append_res_def pack_array_def pack_int_def
        pack_imp_int32_def MAX_BUF_LEN_def)
qed

lemma moderate_reply:
  assumes "length d < 10000000"
  shows "\<exists>b. pack_args_str RC_OK [V_string d] = Inr b \<and> length b < MAX_BUF_LEN"
  using ok_reply_string [OF assms] by auto

lemma translate_yields: "yields translate_handler [V_string (lit ''hello'')] (Some (V_string (lit ''HELLO'')))"
proof -
  have "map toupper (lit ''hello'') = lit ''HELLO''" by (simp add: lit_def toupper_def of_char_def)
  then show ?thesis using moderate_reply [of "lit ''HELLO''"]
    by (simp add: yields_def translate_handler_def returning_def translate_def)
qed

lemma hello_yields: "yields hello_handler [V_string (lit ''purecpp'')] None"
  using ok_reply_void by (auto simp: yields_def hello_handler_def returning_void_def hello_def)

lemma get_person_name_yields: "yields get_person_name_handler [V_person tom] (Some (V_string (lit ''tom'')))"
  using moderate_reply [of "lit ''tom''"]
  by (simp add: yields_def get_person_name_handler_def returning_def get_person_name_def V_person_def T_person_def tom_def)

lemma get_person_yields: "yields get_person_handler [] (Some (V_person tom))"
  by (simp add: yields_def get_person_handler_def returning_def get_person_def V_person_def tom_def lit_def
      pack_args_str_def append_res_def pack_array_def pack_int_def pack_imp_int32_def pack_string_def
      checked_get_container_size_def pack_str_def pack_body_def MAX_BUF_LEN_def)

text \<open>\<open>dummy1\<close> with its wide string.\<close>

lemma get_dummy_yields:
  "yields get_dummy_handler [V_dummy1 \<lparr>d1_id = 42, d1_str = wide (lit ''test'')\<rparr>]
     (Some (V_dummy1 \<lparr>d1_id = 42, d1_str = wide (lit ''test'')\<rparr>))"
  by (simp add: yields_def get_dummy_handler_def returning_def get_dummy_def V_dummy1_def T_dummy1_def lit_def wide_def
      pack_args_str_def append_res_def pack_array_def pack_int_def pack_imp_int32_def pack_unsigned_long_def
      pack_imp_uint64_def pack_wstring_def pack_wchar_def checked_get_container_size_def MAX_BUF_LEN_def)

lemma echo_yields: "yields echo_handler [V_string (lit ''test'')] (Some (V_string (lit ''test'')))"
  using moderate_reply [of "lit ''test''"]
  by (simp add: yields_def echo_handler_def returning_def echo_def)

lemma get_name_yields: "yields get_name_handler [V_person tom] (Some (V_string (lit ''tom'')))"
  using moderate_reply [of "lit ''tom''"]
  by (simp add: yields_def get_name_handler_def returning_def get_name_def V_person_def T_person_def tom_def)

lemma add_lookup: "map_invokers example_router (hash_name (lit ''add'')) = Some (invoker_apply sync add_function)"
  using register_all_other [OF add_not_again, where r = add_only]
  by (simp add: example_router_all add_only_lookup add_function_def apply_member_apply)

lemma run_lookups:
  "map_invokers example_router (hash_name (lit ''translate'')) = Some (invoker_apply sync translate_handler)"
  "map_invokers example_router (hash_name (lit ''hello'')) = Some (invoker_apply sync hello_handler)"
  "map_invokers example_router (hash_name (lit ''get_person_name'')) = Some (invoker_apply sync get_person_name_handler)"
  "map_invokers example_router (hash_name (lit ''get_person'')) = Some (invoker_apply sync get_person_handler)"
  "map_invokers example_router (hash_name (lit ''get_dummy'')) = Some (invoker_apply sync get_dummy_handler)"
  "map_invokers example_router (hash_name (lit ''echo'')) = Some (invoker_apply sync echo_handler)"
  "map_invokers example_router (hash_name (lit ''get_name'')) = Some (invoker_apply sync get_name_handler)"
  "map_invokers example_router (hash_name (lit ''get_int'')) = Some (invoker_apply sync get_int_handler)"
  by (rule example_lookup, simp add: example_functions_def)+

lemmas value_results =
  served_value [OF add_lookup add_yields, where t = T_int]
  served_value [OF run_lookups(1) translate_yields, where t = T_string]
  served_value [OF run_lookups(3) get_person_name_yields, where t = T_string]
  served_value [OF run_lookups(4) get_person_yields, where t = T_person]
  served_value [OF run_lookups(5) get_dummy_yields, where t = T_dummy1]
  served_value [OF run_lookups(6) echo_yields, where t = T_string]
  served_value [OF run_lookups(7) get_name_yields, where t = T_string]

lemma typed_values:
  "has_type (V_person p) T_person" "has_type (V_dummy1 d) T_dummy1"
  "length (p_name p) < 2 ^ 32 \<Longrightarrow> fits (V_person p)" "length (d1_str d) < 2 ^ 32 \<Longrightarrow> fits (V_dummy1 d)"
  by (simp_all add: V_person_def T_person_def V_dummy1_def T_dummy1_def)

lemma values_back: "person_of (V_person p) = p" "dummy1_of (V_dummy1 d) = d"
  by (simp_all add: V_person_def V_dummy1_def)

lemma call_results:
  "served (lit ''add'', [V_int 1, V_int 2]) status \<Longrightarrow> call_result T_int status = Inr (V_int 3)"
  "served (lit ''translate'', [V_string (lit ''hello'')]) status \<Longrightarrow> call_result T_string status = Inr (V_string (lit ''HELLO''))"
  "served (lit ''hello'', [V_string (lit ''purecpp'')]) status \<Longrightarrow> call_result_void status = Inr ()"
  "served (lit ''get_person_name'', [V_person tom]) status \<Longrightarrow> call_result T_string status = Inr (V_string (lit ''tom''))"
  "served (lit ''get_person'', []) status \<Longrightarrow> call_result T_person status = Inr (V_person tom)"
  "served (lit ''get_dummy'', [V_dummy1 \<lparr>d1_id = 42, d1_str = wide (lit ''test'')\<rparr>]) status \<Longrightarrow>
     call_result T_dummy1 status = Inr (V_dummy1 \<lparr>d1_id = 42, d1_str = wide (lit ''test'')\<rparr>)"
  "served (lit ''echo'', [V_string (lit ''test'')]) status \<Longrightarrow> call_result T_string status = Inr (V_string (lit ''test''))"
  "served (lit ''get_name'', [V_person tom]) status \<Longrightarrow> call_result T_string status = Inr (V_string (lit ''tom''))"
  by (rule value_results served_void [OF run_lookups(2) hello_yields] | assumption |
      simp add: typed_values tom_def wide_def lit_def)+

section \<open>Properties\<close>

definition sync_calls :: "(bytes \<times> cval list) list" where
  "sync_calls = [(lit ''add'', [V_int 1, V_int 2]), (lit ''add'', [V_int 1, V_int 2]),
     (lit ''translate'', [V_string (lit ''hello'')]), (lit ''hello'', [V_string (lit ''purecpp'')]),
     (lit ''get_person_name'', [V_person tom]), (lit ''get_person'', [])]"

lemma show_3: "show_int 3 = lit ''3''"
  by (simp add: show_int_def to_string.simps lit_def)

text \<open>A server whose connections all exist, each with an empty user data.\<close>

definition ready_example :: "example server" where
  "ready_example = idle_server 0 (empty_example\<lparr>ex_any := \<lparr>aw_heap = (\<lambda>_. None), aw_next = 0,
     aw_objs = (\<lambda>x. if even x then Some None else None)\<rparr>\<rparr>)"

lemma ready_example_ok: "ex_ok ready_example"
  by (auto simp: ex_ok_def ready_example_def idle_server_def any_inv_def content_def exists_any_def)

lemmas script_defs = done_with_def and_then_def both_def print_def catching_def start_and_wait_def call_value_def
  call_void_def if_connected_def

lemma sync_runs:
  "call_result T_int (st (length (co_calls c))) = Inr (V_int 3) \<Longrightarrow>
   call_result T_int (st (Suc (length (co_calls c)))) = Inr (V_int 3) \<Longrightarrow>
   test_add True st c = Some (c\<lparr>co_out := co_out c @ [lit ''3'', lit ''3''],
     co_calls := co_calls c @ [(lit ''add'', [V_int 1, V_int 2]), (lit ''add'', [V_int 1, V_int 2])]\<rparr>, Inr ())"
  "call_result T_string (st (length (co_calls c))) = Inr (V_string (lit ''HELLO'')) \<Longrightarrow>
   test_translate True st c = Some (c\<lparr>co_out := co_out c @ [lit ''HELLO''],
     co_calls := co_calls c @ [(lit ''translate'', [V_string (lit ''hello'')])]\<rparr>, Inr ())"
  "call_result_void (st (length (co_calls c))) = Inr () \<Longrightarrow>
   test_hello True st c = Some (c\<lparr>co_calls := co_calls c @ [(lit ''hello'', [V_string (lit ''purecpp'')])]\<rparr>, Inr ())"
  "call_result T_string (st (length (co_calls c))) = Inr (V_string (lit ''tom'')) \<Longrightarrow>
   test_get_person_name True st c = Some (c\<lparr>co_out := co_out c @ [lit ''tom''],
     co_calls := co_calls c @ [(lit ''get_person_name'', [V_person tom])]\<rparr>, Inr ())"
  "call_result T_person (st (length (co_calls c))) = Inr (V_person tom) \<Longrightarrow>
   test_get_person True st c = Some (c\<lparr>co_out := co_out c @ [lit ''tom''],
     co_calls := co_calls c @ [(lit ''get_person'', [])]\<rparr>, Inr ())"
  by (simp_all add: test_add_def test_translate_def test_hello_def test_get_person_name_def test_get_person_def
      script_defs show_3 values_back) (simp add: tom_def)

text \<open>C38. The synchronous tests of the example client against the example server: when each of the six calls
  is answered by the server's router, in whatever state and on whatever connection, the client prints
  the sums, the translated text and the name twice, and no exception is printed.\<close>

theorem sync_client_output:
  assumes "list_all2 served sync_calls (map st [0..<6])"
  shows "test_sync_client (\<lambda>_. True) st \<lparr>co_out = [], co_calls = [], co_files = F\<rparr> =
    Some (\<lparr>co_out = [lit ''3'', lit ''3'', lit ''HELLO'', lit ''tom'', lit ''tom''], co_calls = sync_calls, co_files = F\<rparr>, Inr ())"
proof -
  have "[0..<6] = [0, 1, 2, 3, 4, 5 :: nat]" by (simp add: upt_rec)
  then have "served (sync_calls ! 0) (st 0)" "served (sync_calls ! 1) (st 1)" "served (sync_calls ! 2) (st 2)"
    "served (sync_calls ! 3) (st 3)" "served (sync_calls ! 4) (st 4)" "served (sync_calls ! 5) (st 5)"
    using assms by (simp_all add: sync_calls_def)
  then have "call_result T_int (st 0) = Inr (V_int 3)" "call_result T_int (st 1) = Inr (V_int 3)"
    "call_result T_string (st 2) = Inr (V_string (lit ''HELLO''))" "call_result_void (st 3) = Inr ()"
    "call_result T_string (st 4) = Inr (V_string (lit ''tom''))" "call_result T_person (st 5) = Inr (V_person tom)"
    using call_results by (simp_all add: sync_calls_def)
  then show ?thesis
    by (simp add: test_sync_client_def both_def and_then_def sync_runs sync_calls_def eval_nat_numeral)
qed

theorem sync_client_output_witness:
  "\<exists>st. list_all2 served sync_calls (map st [0..<6]) \<and>
    test_sync_client (\<lambda>_. True) st \<lparr>co_out = [], co_calls = [], co_files = (\<lambda>_. None)\<rparr> =
    Some (\<lparr>co_out = [lit ''3'', lit ''3'', lit ''HELLO'', lit ''tom'', lit ''tom''], co_calls = sync_calls,
      co_files = (\<lambda>_. None)\<rparr>, Inr ())"
proof -
  have "\<forall>c \<in> set sync_calls. \<exists>status. served c status"
    using can_be_served [OF _ _ ready_example_ok] add_lookup add_yields run_lookups translate_yields hello_yields
      get_person_name_yields get_person_yields
    by (simp add: sync_calls_def)
  then obtain g where g: "\<And>c. c \<in> set sync_calls \<Longrightarrow> served c (g c)" by metis
  let ?st = "\<lambda>k. g (sync_calls ! k)"
  have "length sync_calls = 6" by (simp add: sync_calls_def)
  then have "list_all2 served sync_calls (map ?st [0..<6])"
    by (auto simp: list_all2_conv_all_nth intro: g)
  from this sync_client_output [OF this] show ?thesis by blast
qed

text \<open>How the wait for an \<open>async_echo\<close> of \<open>src\<close> ends when its thread has answered.\<close>

definition answered_later :: "bytes \<Rightarrow> future_status \<Rightarrow> bool" where
  "answered_later src status \<longleftrightarrow>
     (\<exists>req_id c c'. pack_and_response req_id (V_string src) c = Some (Inr c') \<and>
        status = Fut_ready (m_content (last (c_write_queue c'))))"

lemma enqueue_last: "last (c_write_queue (enqueue m c)) = m"
  by (simp add: enqueue_def write_front_def Let_def)

lemma answered_value:
  assumes "answered_later src status" "length src < 2 ^ 32"
  shows "call_result T_string status = Inr (V_string src)"
proof -
  obtain b where "pack_args_str RC_OK [V_string src] = Inr b" "status = Fut_ready b"
    using assms(1)
    by (cases "pack_args_str RC_OK [V_string src]")
      (auto simp: answered_later_def pack_and_response_def response_def enqueue_last split: if_splits)
  then show ?thesis using req_as_ok [of "V_string src" T_string b] assms(2) by (simp add: call_result_def)
qed

definition dummy_call :: "bytes \<times> cval list" where
  "dummy_call = (lit ''get_dummy'', [V_dummy1 \<lparr>d1_id = 42, d1_str = wide (lit ''test'')\<rparr>])"

text \<open>C0. \<open>test_echo\<close>, which \<open>main\<close> runs, prints the three results: the struct with a wide string comes
  back whole, and the asynchronous function's answer is the one its thread sends later.\<close>

theorem test_echo_output:
  assumes "served dummy_call (st 0)" "served (lit ''echo'', [V_string (lit ''test'')]) (st 1)"
    "answered_later (lit ''test'') (st 2)"
  shows "test_echo True st \<lparr>co_out = [], co_calls = [], co_files = F\<rparr> =
    Some (\<lparr>co_out = [lit ''result.id: 42'', lit ''result1: test'', lit ''result2: test''],
      co_calls = [dummy_call, (lit ''echo'', [V_string (lit ''test'')]), (lit ''async_echo'', [V_string (lit ''test'')])],
      co_files = F\<rparr>, Inr ())"
proof -
  have "to_string 42 = lit ''42''" by (simp add: to_string.simps lit_def)
  then have out: "lit ''result.id: '' @ to_string 42 = lit ''result.id: 42''"
    "lit ''result1: '' @ lit ''test'' = lit ''result1: test''" "lit ''result2: '' @ lit ''test'' = lit ''result2: test''"
    by (simp_all add: lit_def)
  have res: "call_result T_dummy1 (st 0) = Inr (V_dummy1 \<lparr>d1_id = 42, d1_str = wide (lit ''test'')\<rparr>)"
    "call_result T_string (st 1) = Inr (V_string (lit ''test''))" "call_result T_string (st 2) = Inr (V_string (lit ''test''))"
    using call_results(6) [of "st 0"] call_results(7) [of "st 1"] answered_value [OF assms(3)] assms(1,2)
    by (simp_all add: dummy_call_def lit_def)
  show ?thesis
    using res [unfolded numeral_2_eq_2 One_nat_def] by (simp add: test_echo_def script_defs values_back dummy_call_def out)
qed

theorem test_echo_output_witness:
  "\<exists>st. test_echo True st \<lparr>co_out = [], co_calls = [], co_files = (\<lambda>_. None)\<rparr> =
    Some (\<lparr>co_out = [lit ''result.id: 42'', lit ''result1: test'', lit ''result2: test''],
      co_calls = [dummy_call, (lit ''echo'', [V_string (lit ''test'')]), (lit ''async_echo'', [V_string (lit ''test'')])],
      co_files = (\<lambda>_. None)\<rparr>, Inr ())"
proof -
  obtain s0 s1 where served: "served dummy_call s0" "served (lit ''echo'', [V_string (lit ''test'')]) s1"
    using can_be_served [OF run_lookups(5) get_dummy_yields ready_example_ok]
      can_be_served [OF run_lookups(6) echo_yields ready_example_ok] by (auto simp: dummy_call_def)
  obtain b where "pack_args_str RC_OK [V_string (lit ''test'')] = Inr b" "length b < MAX_BUF_LEN"
    using moderate_reply [of "lit ''test''"] by (auto simp: lit_def)
  then have "pack_and_response 0 (V_string (lit ''test'')) c =
      Some (Inr (enqueue \<lparr>m_req_id = 0, m_req_type = req_res, m_content = b\<rparr> c))" for c
    by (simp add: pack_and_response_def response_def)
  then have "\<exists>c'. pack_and_response 0 (V_string (lit ''test'')) undefined = Some (Inr c') \<and> b = m_content (last (c_write_queue c'))"
    by (simp add: enqueue_last)
  then have "answered_later (lit ''test'') (Fut_ready b)" unfolding answered_later_def by blast
  then show ?thesis using served
    by (intro exI [where x = "\<lambda>k. if k = 0 then s0 else if k = 1 then s1 else Fut_ready b"] test_echo_output) simp_all
qed

section \<open>Numbers\<close>

text \<open>\<open>test_threads\<close> passes a \<open>size_t\<close> where \<open>get_int\<close> has an \<open>int\<close>.\<close>

lemma size_t_as_int:
  assumes "pack_args [V_size_t i] = Inr request"
  shows "codec_unpack (T_tuple [T_int]) request =
    (if i > 2147483647 then Inl args_not_match else Inr (V_tuple [V_int (ucast i)]))"
  using codec_unpack_obj [of "V_tuple [V_size_t i]" request "T_tuple [T_int]" "[]"] assms
  by (simp add: pack_args_def as_value_def returned_def convert_int_def convert_signed_def)

lemma sint_number:
  assumes "unat (i :: u64) \<le> 2147483647"
  shows "sint (ucast i :: u32) = int (unat i)"
proof -
  have "int (unat i) \<le> 2147483647" using assms by linarith
  then have small: "uint i \<le> 2147483647" by (simp only: of_nat_unat)
  then have "uint (ucast i :: u32) = uint i"
    by (simp add: unsigned_ucast_eq unsigned_take_bit_eq take_bit_int_eq_self)
  moreover have "- 2147483648 \<le> uint i" by (rule order_trans [OF _ unsigned_greater_eq]) simp
  ultimately show ?thesis using small by (simp add: sint_uint signed_take_bit_int_eq_self)
qed

lemma scast_number:
  assumes "i \<le> 2147483647"
  shows "scast (ucast (i :: u64) :: u32) = i"
proof -
  have "unat i \<le> 2147483647" using assms by (simp add: word_le_nat_alt)
  then show ?thesis by (simp add: scast_eq sint_number)
qed

lemma int_reply:
  obtains b where "pack_args_str RC_OK [V_int d] = Inr b" "length b < MAX_BUF_LEN" "as_result T_int b = Inr (V_int d)"
proof -
  have v: "has_type (V_int d) T_int" "fits (V_int d)" by simp_all
  obtain b where b: "pack_args_str RC_OK [V_int d] = Inr b" using reply_ok_bytes [OF v] by metis
  moreover have "length b < MAX_BUF_LEN"
    using b by (auto simp: pack_args_str_def append_res_def pack_array_def pack_int_def pack_imp_int32_def MAX_BUF_LEN_def)
  ultimately show thesis using that as_result_ok [OF v b] by simp
qed

lemma mismatch_text: "what args_not_match = lit ''unpack failed:Args not match''"
  by (simp add: what_def args_not_match_def lit_def of_char_def)

lemma mismatch_reply:
  obtains b where "pack_args_str RC_FAIL [V_string (what args_not_match)] = Inr b" "length b < MAX_BUF_LEN"
    "as_result t b = Inl (logic_error (what args_not_match))"
proof -
  have short: "length (what args_not_match) < 2 ^ 32" by (simp add: mismatch_text lit_def)
  obtain b where b: "pack_args_str RC_FAIL [V_string (what args_not_match)] = Inr b"
    using short_fail_reply [OF short] by blast
  moreover have "length b < MAX_BUF_LEN"
    using length_fail_reply [OF b] by (simp add: mismatch_text lit_def MAX_BUF_LEN_def)
  ultimately show thesis using that as_result_fail [OF short b] by simp
qed

text \<open>C39. A call of \<open>get_int\<close> with a \<open>size_t\<close> gets its number back when it is an \<open>int\<close>: the callback
  of \<open>test_threads\<close> is then silent. For any greater number the server answers that the arguments do not
  match, and the callback throws.\<close>

theorem get_int_checked:
  "\<exists>request reply. pack_args [V_size_t i] = Inr request \<and>
    route example_router (hash_name (lit ''get_int'')) request (Some (h, req_id)) s = (s, Inr (Some (req_id, reply))) \<and>
    on_get_int message i None reply st c =
      Some (c, if unat i < 2 ^ 31 then Inr () else Inl (logic_error (lit ''unpack failed:Args not match'')))"
proof -
  note lookup = run_lookups(8)
  have args: "hd_args get_int_handler = [T_int]" by (simp add: get_int_handler_def)
  obtain request where req: "pack_args [V_size_t i] = Inr request"
    using mp.pack_total [of "V_tuple [V_size_t i]"] by (auto simp: pack_args_def)
  have call: "hd_call get_int_handler s h [V_int d] = (s, Inr (Some (V_int d)))" for d
    by (simp add: get_int_handler_def returning_def get_int_def)
  have small: "i \<le> 2147483647 \<longleftrightarrow> unat i < 2 ^ 31" by (simp add: word_le_nat_alt) linarith
  show ?thesis
  proof (cases "i \<le> 2147483647")
    case True
    obtain b where b: "pack_args_str RC_OK [V_int (ucast i)] = Inr b" "length b < MAX_BUF_LEN"
      "as_result T_int b = Inr (V_int (ucast i))" by (rule int_reply)
    have "codec_unpack (T_tuple (hd_args get_int_handler)) request = Inr (V_tuple [V_int (ucast i)])"
      using size_t_as_int [OF req] True by (simp add: args)
    from route_sync_ok [OF lookup apply_result [OF this call b(1)] b(2)] show ?thesis
      using req b(3) True small by (auto simp: on_get_int_def script_run scast_number)
  next
    case False
    obtain b where b: "pack_args_str RC_FAIL [V_string (what args_not_match)] = Inr b" "length b < MAX_BUF_LEN"
      "as_result T_int b = Inl (logic_error (what args_not_match))" by (rule mismatch_reply)
    have "codec_unpack (T_tuple (hd_args get_int_handler)) request = Inl args_not_match"
      using size_t_as_int [OF req] False by (simp add: args)
    from route_sync_ok [OF lookup apply_bad_args [OF this args_not_match_defined b(1)] b(2)] show ?thesis
      using req b(3) False small by (auto simp: on_get_int_def script_run mismatch_text)
  qed
qed

section \<open>The other tests\<close>

text \<open>A person published by \<open>main\<close>'s thread is printed by its name at the subscriber of \<open>test_sub1\<close>.\<close>

theorem published_person_printed:
  assumes "length (p_name p) < 2 ^ 32" "get_shared_data (V_person p) = Inr d"
  shows "on_person d st c = print (p_name p) st c"
proof -
  have "pack_value (V_person p) = Inr d" using assms(2) by (simp add: V_person_def codec_pack_def)
  moreover have "fits (V_person p)" using assms(1) by (rule typed_values(3))
  ultimately have "codec_unpack T_person d = Inr (V_person p)"
    using codec_unpack_obj [of "V_person p" d T_person "[]"] as_value_obj_of [OF typed_values(1)] by simp
  then show ?thesis by (simp add: on_person_def script_run values_back)
qed

text \<open>The whole of \<open>test_performance2\<close>: a hundred million calls and one line.\<close>

lemma performance2_turn_run:
  "call_result T_string (st (length (co_calls c))) = Inr v \<Longrightarrow>
   performance2_turn st c = Some (c\<lparr>co_calls := co_calls c @ [(lit ''get_name'', [V_person tom])]\<rparr>, Inr ())"
  by (simp add: performance2_turn_def script_defs)

theorem test_performance2_output:
  assumes "\<And>k. served (lit ''get_name'', [V_person tom]) (st k)"
  shows "test_performance2 True st \<lparr>co_out = [], co_calls = [], co_files = F\<rparr> =
    Some (\<lparr>co_out = [lit ''finish''], co_calls = replicate 100000000 (lit ''get_name'', [V_person tom]), co_files = F\<rparr>, Inr ())"
proof -
  have "repeat_script n performance2_turn st \<lparr>co_out = [], co_calls = [], co_files = F\<rparr> =
      Some (\<lparr>co_out = [], co_calls = replicate n (lit ''get_name'', [V_person tom]), co_files = F\<rparr>, Inr ())" for n
    using repeat_quiet [of 0 n performance2_turn st "(lit ''get_name'', [V_person tom])"
        "\<lparr>co_out = [], co_calls = [], co_files = F\<rparr>"] performance2_turn_run call_results(8) [OF assms]
    by simp
  then show ?thesis
    by (simp add: test_performance2_def if_connected_def catching_def both_def and_then_def print_def)
qed

end
