(* ===== verification/Example_Publisher.thy ===== *)
theory Example_Publisher imports Example_Server begin

text \<open>
  The example server as a whole: its functions respect the server's data, so every invariant of
  \<open>Rpc_Server\<close> holds for it, and what a turn of its publishing thread does.
\<close>

section \<open>The registered functions\<close>

definition handler_ok :: "nat \<Rightarrow> ('u server, nat) handler \<Rightarrow> bool" where
  "handler_ok n f \<longleftrightarrow> (\<forall>s h vs. sv_inv n s \<longrightarrow> sv_inv n (fst (hd_call f s h vs)))"

lemma apply_respects:
  assumes "handler_ok n f" "sv_inv n s"
  shows "sv_inv n (fst (invoker_apply m f s h data))"
proof (cases "codec_unpack (T_tuple (hd_args f)) data")
  case (Inr tp)
  then have "fst (invoker_apply m f s h data) = fst (hd_call f s h (tuple_elements tp))"
    by (auto simp: invoker_apply_def call_def call_helper_def split: prod.splits sum.splits option.splits)
  then show ?thesis using assms by (simp add: handler_ok_def)
qed (use assms(2) in \<open>simp add: invoker_apply_def\<close>)

lemma respectful_register:
  "respectful n r \<Longrightarrow> handler_ok n f \<Longrightarrow> respectful n (register_handler m name f r)"
  by (auto simp: respectful_def register_handler_def register_nonmember_func_def apply_respects)

lemma respectful_register_member:
  "respectful n r \<Longrightarrow> handler_ok n \<lparr>hd_args = mh_args f, hd_call = mh_call f d\<rparr> \<Longrightarrow>
   respectful n (register_handler_member m name f d r)"
  by (auto simp: respectful_def register_handler_member_def register_member_func_def apply_member_apply apply_respects)

lemma sv_inv_on_user [intro]: "sv_inv n s \<Longrightarrow> sv_inv n (on_user f s)"
  unfolding on_user_def by (rule sv_inv_unrelated) (simp_all add: sv_inv_pool)

lemma sv_inv_abort [intro]: "sv_inv n s \<Longrightarrow> sv_inv n (sv_abort s)"
  unfolding sv_abort_def by (rule sv_inv_unrelated) (simp_all add: sv_inv_pool)

lemma sv_inv_print [intro]: "sv_inv n s \<Longrightarrow> sv_inv n (print_line t s)"
  unfolding print_line_def by (rule sv_inv_on_user)

lemma sv_inv_publishing: "sv_inv n s \<Longrightarrow> sv_inv n (fst (publishing (publish_key_token k t v) s))"
  using sv_inv_abort [of n s] by (auto simp: publishing_def sv_abort_def split: option.splits sum.splits dest: sv_inv_publish)

lemma add_respects: "handler_ok n \<lparr>hd_args = mh_args add_handler, hd_call = mh_call add_handler ()\<rparr>"
  by (auto simp: handler_ok_def add_handler_def returning_def dummy_add_def Let_def split: option.splits sum.splits)

lemmas handler_defs = translate_handler_def translate_def hello_handler_def hello_def
  get_person_name_handler_def get_person_name_def get_person_handler_def get_person_def
  upload_handler_def upload_def download_handler_def download_def get_name_handler_def get_name_def
  async_echo_handler_def async_echo_def echo_handler_def echo_def get_int_handler_def get_int_def
  get_dummy_handler_def get_dummy_def publish_by_token_handler_def publish_handler_def

lemma functions_respect: "\<forall>(m, name, f) \<in> set example_functions. handler_ok n f"
  unfolding example_functions_def
  by (auto simp: handler_ok_def handler_defs returning_def returning_void_def publish_def [abs_def] publish_by_token_def [abs_def]
      intro!: sv_inv_publishing split: option.splits)

lemma register_all_respectful:
  "respectful n r \<Longrightarrow> \<forall>(m, name, f) \<in> set fs. handler_ok n f \<Longrightarrow>
   respectful n (fold (\<lambda>(m, name, f). register_handler m name f) fs r)"
  by (induction fs arbitrary: r) (auto intro: respectful_register)

lemma example_respectful: "respectful n example_router"
  unfolding example_router_def
  by (rule register_all_respectful [OF _ functions_respect], rule respectful_register_member [OF _ add_respects])
    (simp add: respectful_def)

text \<open>The reachable states of the example server.\<close>

definition example_reachable :: "nat \<Rightarrow> example server \<Rightarrow> bool" where
  "example_reachable n s \<longleftrightarrow>
     (\<exists>t fresh u s0. new_server n t fresh u = Inr s0 \<and> (server_step example_router)\<^sup>*\<^sup>* s0 s)"

lemma example_inv:
  assumes "example_reachable n s"
  shows "sv_inv n s"
proof -
  obtain t fresh u s0 where s0: "new_server n t fresh u = Inr s0" "(server_step example_router)\<^sup>*\<^sup>* s0 s"
    using assms by (auto simp: example_reachable_def)
  show ?thesis using sv_sys.reachable_good [OF s0(2)] sv_inv_new [OF s0(1)] example_respectful by blast
qed

lemma example_reachable_steps:
  "example_reachable n s \<Longrightarrow> (server_step example_router)\<^sup>*\<^sup>* s t \<Longrightarrow> example_reachable n t"
  unfolding example_reachable_def by (blast intro: rtranclp_trans)

text \<open>Whatever state the server is in, a connection that waits for a header can subscribe.\<close>

lemma subscribe_steps:
  assumes "h < length (sv_conns s)" "c_reading (sv_conns s ! h) = Head_read" "c_open (sv_conns s ! h)"
    and "length key < 2 ^ 32" "length token < 2 ^ 32" "pack_args [V_string key, V_string token] = Inr b" "length b < MAX_BUF_LEN"
  obtains c where "(server_step r)\<^sup>*\<^sup>* s (on_subscribe key token h (put_conn h c s))"
    "c_has_closed c = c_has_closed (sv_conns s ! h)" "c_write_queue c = c_write_queue (sv_conns s ! h)"
proof -
  let ?hd = "\<lparr>h_magic = MAGIC_NUM, h_req_type = sub_pub, h_body_len = of_nat (length b), h_req_id = 0, h_func_id = 0\<rparr>"
  let ?head = "header_memory [0, 0, 0, 0, 0, 0] ?hd" and ?c = "sv_conns s ! h"
  have b: "b \<noteq> []" using assms(6) unfolding pack_args_def by (rule mp.pack_nonempty)
  have len: "unat (of_nat (length b) :: u32) = length b" using assms(7) by (simp add: unat_of_nat MAX_BUF_LEN_def)
  have args: "codec_unpack (T_tuple [T_string, T_string]) b = Inr (V_tuple [V_string key, V_string token])"
    using mp.unpack_pack_exact [of "V_tuple [V_string key, V_string token]" "T_tuple [T_string, T_string]" b] assms(4-6)
    by (simp add: pack_args_def)
  obtain c1 where c1: "on_read_head (Inr ?head) ?c = c1" "c_reading c1 = Body_read 0 (length b)" "c_open c1"
    "c_req_type c1 = sub_pub" "c_has_closed c1 = c_has_closed ?c" "c_write_queue c1 = c_write_queue ?c"
    using read_request_head [OF assms(2,3), of "[0, 0, 0, 0, 0, 0]" ?hd] b assms(3,7) by (auto simp: len)
  have "\<exists>c2. on_body_bytes (Inr b) c1 = (c2, Subscribe_event key token) \<and>
      c_has_closed c2 = c_has_closed ?c \<and> c_write_queue c2 = c_write_queue ?c"
    using c1(2-6) args by (cases "c_timeout_seconds c1 = 0")
      (simp_all add: on_body_bytes_def cancel_timer_def read_head_def reset_timer_def req_res_def sub_pub_def Let_def)
  then obtain c2 where c2: "on_body_bytes (Inr b) c1 = (c2, Subscribe_event key token)"
    "c_has_closed c2 = c_has_closed ?c" "c_write_queue c2 = c_write_queue ?c" by blast
  let ?s1 = "server_head h (Inr ?head) s"
  have "server_step r s ?s1" by (rule server_step.sv_head) (use assms(1,2) in simp_all)
  moreover have "server_body r h (Inr b) ?s1 = Some (on_subscribe key token h (put_conn h c2 s))"
    using assms(1) c1(1) c2(1) by (simp add: server_body_def server_head_def put_conn_def)
  then have "server_step r ?s1 (on_subscribe key token h (put_conn h c2 s))"
    using assms(1) c1(1,2) by (intro server_step.sv_body) (simp_all add: server_head_def)
  ultimately have "(server_step r)\<^sup>*\<^sup>* s (on_subscribe key token h (put_conn h c2 s))" by (rule converse_rtranclp_into_rtranclp [OF _ r_into_rtranclp])
  from that [OF this c2(2,3)] show thesis .
qed

section \<open>Publishing\<close>

text \<open>\<open>t\<close> is \<open>s\<close> with the messages \<open>g h\<close> queued on every open connection \<open>h\<close>.\<close>

definition queued_on :: "'u server \<Rightarrow> (nat \<Rightarrow> message_type list) \<Rightarrow> 'u server \<Rightarrow> bool" where
  "queued_on s g t \<longleftrightarrow> t = s\<lparr>sv_conns := sv_conns t\<rparr> \<and> length (sv_conns t) = length (sv_conns s) \<and>
     (\<forall>h < length (sv_conns s). c_has_closed (sv_conns t ! h) = c_has_closed (sv_conns s ! h) \<and>
        c_write_queue (sv_conns t ! h) =
          c_write_queue (sv_conns s ! h) @ (if c_has_closed (sv_conns s ! h) then [] else g h))"

lemma queued_on_none: "queued_on s (\<lambda>h. []) s"
  by (simp add: queued_on_def)

lemma queued_on_data: "queued_on s g t \<Longrightarrow> sv_sub_map t = sv_sub_map s \<and> sv_token_list t = sv_token_list s"
  unfolding queued_on_def by (metis server.select_convs server.surjective server.update_convs(1))

lemma queued_on_trans:
  assumes "queued_on s f t" "queued_on t g u"
  shows "queued_on s (\<lambda>h. f h @ g h) u"
proof -
  have "u = s\<lparr>sv_conns := sv_conns u\<rparr>"
    using assms unfolding queued_on_def by (metis server.surjective server.update_convs(1))
  then show ?thesis using assms unfolding queued_on_def by auto
qed

text \<open>The message of a published value.\<close>

definition publication :: "bytes \<Rightarrow> bytes \<Rightarrow> message_type" where
  "publication ck d = sub_message (case published ck d of Inl e \<Rightarrow> [] | Inr b \<Rightarrow> b)"

lemma published_short:
  assumes "length ck + length d < 10000000"
  obtains b where "published ck d = Inr b" "length b < MAX_BUF_LEN"
proof -
  have "fits (V_tuple [V_int 0, V_string ck, V_string d])" using assms by simp
  from mp.pack_total [OF this] obtain b where b: "published ck d = Inr b"
    by (auto simp: published_def pack_args_str_def)
  then have "length b \<le> length ck + length d + 12"
    using assms length_pack_str [of "of_nat (length ck)"] length_pack_str [of "of_nat (length d)"]
    by (auto simp: published_def pack_args_str_def append_res_def pack_string_def checked_get_container_size_def
        pack_body_def pack_array_def pack_int_def pack_imp_int32_def)
  then show thesis using that b assms by (simp add: MAX_BUF_LEN_def)
qed

lemma publish_queues:
  assumes "sv_inv n s" "get_shared_data v = Inr d" "length (key @ token) + length d < 10000000"
  shows "\<exists>t. publish_key_token key token v s = Some (t, Inr ()) \<and> sv_inv n t \<and>
    queued_on s (\<lambda>h. replicate (count_list (sv_sub_map s) (key @ token, h)) (publication (key @ token) d)) t"
proof -
  obtain b where b: "published (key @ token) d = Inr b" "length b < MAX_BUF_LEN" by (rule published_short [OF assms(3)])
  obtain t where t: "publish_key_token key token v s = Some (t, Inr ())"
    "\<forall>h < length (sv_conns s). c_write_queue (sv_conns t ! h) = c_write_queue (sv_conns s ! h) @
      replicate (if c_has_closed (sv_conns s ! h) then 0 else count_list (sv_sub_map s) (key @ token, h)) (sub_message b)"
    using deliveries_to_live [OF assms(1,2) b] by blast
  then have "queued_on s (\<lambda>h. replicate (count_list (sv_sub_map s) (key @ token, h)) (publication (key @ token) d)) t"
    using publish_keeps [OF t(1)] unfolding queued_on_def by (simp add: publication_def b(1))
  then show ?thesis using t(1) sv_inv_publish [OF t(1) assms(1)] by blast
qed

section \<open>A turn of the publishing thread\<close>

definition hello_subscriber :: bytes where
  "hello_subscriber = lit ''hello subscriber''"

definition person_data :: bytes where
  "person_data = [0x93, 0x01, 0xa3] @ lit ''tom'' @ [0x14]"

lemma person_shared: "get_shared_data (V_person \<lparr>p_id = 1, p_name = lit ''tom'', p_age = 20\<rparr>) = Inr person_data"
  by (simp add: V_person_def codec_pack_def person_data_def append_res_def pack_array_def pack_int_def pack_imp_int32_def
      pack_string_def checked_get_container_size_def pack_str_def pack_body_def lit_def)

text \<open>What connection \<open>h\<close> gets for the subscriptions \<open>subs\<close>.\<close>

definition token_messages :: "(bytes \<times> nat) list \<Rightarrow> bytes \<Rightarrow> nat \<Rightarrow> message_type list" where
  "token_messages subs token h =
     replicate (count_list subs (lit ''key'' @ token, h)) (publication (lit ''key'' @ token) person_data) @
     replicate (count_list subs (lit ''key1'' @ token, h)) (publication (lit ''key1'' @ token) hello_subscriber)"

definition round_messages :: "bytes list \<Rightarrow> (bytes \<times> nat) list \<Rightarrow> nat \<Rightarrow> message_type list" where
  "round_messages tokens subs h =
     replicate (count_list subs (lit ''key'', h)) (publication (lit ''key'') hello_subscriber) @
     concat (map (\<lambda>token. token_messages subs token h) tokens)"

lemma tokens_queue:
  assumes "sv_inv n s" "\<forall>t \<in> set tokens. length t < 9000000"
  shows "\<exists>t. publish_to_tokens \<lparr>p_id = 1, p_name = lit ''tom'', p_age = 20\<rparr> tokens s = Some t \<and> sv_inv n t \<and>
    queued_on s (\<lambda>h. concat (map (\<lambda>token. token_messages (sv_sub_map s) token h) tokens)) t"
  using assms
proof (induction tokens arbitrary: s)
  case Nil
  then show ?case using queued_on_none by auto
next
  case (Cons token tokens)
  have short: "length (lit ''key'' @ token) + length person_data < 10000000"
    "length (lit ''key1'' @ token) + length hello_subscriber < 10000000"
    using Cons.prems(2) by (simp_all add: person_data_def hello_subscriber_def lit_def)
  obtain s1 where s1: "publish_key_token (lit ''key'') token (V_person \<lparr>p_id = 1, p_name = lit ''tom'', p_age = 20\<rparr>) s = Some (s1, Inr ())"
    "sv_inv n s1" "queued_on s (\<lambda>h. replicate (count_list (sv_sub_map s) (lit ''key'' @ token, h)) (publication (lit ''key'' @ token) person_data)) s1"
    using publish_queues [OF Cons.prems(1) person_shared short(1)] by blast
  obtain s2 where s2: "publish_key_token (lit ''key1'') token (V_string hello_subscriber) s1 = Some (s2, Inr ())"
    "sv_inv n s2" "queued_on s1 (\<lambda>h. replicate (count_list (sv_sub_map s1) (lit ''key1'' @ token, h)) (publication (lit ''key1'' @ token) hello_subscriber)) s2"
    using publish_queues [OF s1(2) get_shared_data.simps(1) short(2)] by blast
  obtain t where t: "publish_to_tokens \<lparr>p_id = 1, p_name = lit ''tom'', p_age = 20\<rparr> tokens s2 = Some t" "sv_inv n t"
    "queued_on s2 (\<lambda>h. concat (map (\<lambda>token. token_messages (sv_sub_map s2) token h) tokens)) t"
    using Cons.IH [OF s2(2)] Cons.prems(2) by auto
  have "sv_sub_map s1 = sv_sub_map s" "sv_sub_map s2 = sv_sub_map s"
    using queued_on_data [OF s1(3)] queued_on_data [OF s2(3)] by simp_all
  then show ?case
    using s1(1) s2(1) t(1,2) queued_on_trans [OF queued_on_trans [OF s1(3) s2(3)] t(3)]
    by (simp add: publish_by_token_def must_def hello_subscriber_def token_messages_def)
qed

text \<open>C16. One turn of the example server's publishing thread, in whatever reachable state and between
  whatever other steps: it returns, and it queues on every open connection one greeting per
  subscription to \<open>key\<close> and then, token by token, one person per subscription to \<open>key\<close> with this token
  and one greeting per subscription to \<open>key1\<close> with it; nothing else of the server changes. This is
  for states whose tokens are all shorter than 9,000,000 bytes; the server takes longer ones too, and
  C17 shows that a turn does not survive one just below the message limit.\<close>

theorem publisher_round_delivers:
  assumes "example_reachable n s" "\<forall>t \<in> set (get_token_list s). length t < 9000000"
  shows "\<exists>t. publisher_round s = Some t \<and> t = s\<lparr>sv_conns := sv_conns t\<rparr> \<and>
    (\<forall>h < length (sv_conns s). c_write_queue (sv_conns t ! h) = c_write_queue (sv_conns s ! h) @
      (if c_has_closed (sv_conns s ! h) then [] else round_messages (get_token_list s) (sv_sub_map s) h))"
proof -
  have short: "length (lit ''key'' @ []) + length hello_subscriber < 10000000"
    by (simp add: hello_subscriber_def lit_def)
  obtain s1 where s1: "publish_key_token (lit ''key'') [] (V_string hello_subscriber) s = Some (s1, Inr ())" "sv_inv n s1"
    "queued_on s (\<lambda>h. replicate (count_list (sv_sub_map s) (lit ''key'' @ [], h)) (publication (lit ''key'' @ []) hello_subscriber)) s1"
    using publish_queues [OF example_inv [OF assms(1)] get_shared_data.simps(1) short] by blast
  have same: "sv_sub_map s1 = sv_sub_map s" "get_token_list s1 = get_token_list s"
    using queued_on_data [OF s1(3)] by (simp_all add: get_token_list_def)
  obtain t where t: "publish_to_tokens \<lparr>p_id = 1, p_name = lit ''tom'', p_age = 20\<rparr> (get_token_list s) s1 = Some t"
    "queued_on s1 (\<lambda>h. concat (map (\<lambda>token. token_messages (sv_sub_map s1) token h) (get_token_list s))) t"
    using tokens_queue [OF s1(2) assms(2)] by blast
  have "publisher_round s = Some t"
    using s1(1) t(1) same by (simp add: publisher_round_def publish_def must_def hello_subscriber_def)
  moreover have "queued_on s (round_messages (get_token_list s) (sv_sub_map s)) t"
    using queued_on_trans [OF s1(3) t(2)] same by (simp add: round_messages_def [abs_def])
  ultimately show ?thesis unfolding queued_on_def by auto
qed

section \<open>Tokens too long to be published\<close>

lemma tokens_abort:
  assumes "sv_inv n s" "token \<in> set tokens" "(lit ''key'' @ token, h) \<in> set (sv_sub_map s)" "\<not> c_has_closed (sv_conns s ! h)"
    and "get_shared_data (V_person p) = Inr d" "published (lit ''key'' @ token) d = Inr b" "MAX_BUF_LEN \<le> length b"
  shows "publish_to_tokens p tokens s = None"
  using assms(1-4)
proof (induction tokens arbitrary: s)
  case (Cons t tokens)
  have h: "h < length (sv_conns s)"
    using subscribed_known [OF Cons.prems(1), of h] image_eqI [OF _ Cons.prems(3), of h snd] by (simp add: sv_known_def)
  show ?case
  proof (cases "t = token")
    case True
    have "publish_key_token (lit ''key'') t (V_person p) s = None"
      using oversize_aborts [OF Cons.prems(1,3,4) assms(5-7)] True by simp
    then show ?thesis by (simp add: publish_by_token_def must_def)
  next
    case False
    have rest: "publish_to_tokens p tokens s2 = None"
      if "publish_key_token k1 t v1 s = Some (s1, r1)" "publish_key_token k2 t v2 s1 = Some (s2, r2)" for k1 k2 v1 v2 s1 s2 r1 r2
    proof (rule Cons.IH)
      note keeps = publish_keeps [OF that(1)] publish_keeps [OF that(2)]
      have "sv_sub_map s1 = sv_sub_map s" "sv_sub_map s2 = sv_sub_map s1"
        using keeps by (metis server.select_convs server.surjective server.update_convs(1))+
      then show "(lit ''key'' @ token, h) \<in> set (sv_sub_map s2)" using Cons.prems(3) by simp
      show "\<not> c_has_closed (sv_conns s2 ! h)" using keeps h Cons.prems(4) by simp
      show "sv_inv n s2" using sv_inv_publish [OF that(2) sv_inv_publish [OF that(1) Cons.prems(1)]] .
      show "token \<in> set tokens" using Cons.prems(2) False by simp
    qed
    then show ?thesis
      by (auto simp: publish_by_token_def must_def Option.bind_eq_None_conv split: option.splits sum.splits)
  qed
qed simp

lemma round_aborts:
  assumes "sv_inv n s" "token \<in> set (get_token_list s)" "(lit ''key'' @ token, h) \<in> set (sv_sub_map s)"
    and "\<not> c_has_closed (sv_conns s ! h)" "published (lit ''key'' @ token) person_data = Inr b" "MAX_BUF_LEN \<le> length b"
  shows "publisher_round s = None"
proof -
  have h: "h < length (sv_conns s)"
    using subscribed_known [OF assms(1), of h] image_eqI [OF _ assms(3), of h snd] by (simp add: sv_known_def)
  have "publish_to_tokens \<lparr>p_id = 1, p_name = lit ''tom'', p_age = 20\<rparr> (get_token_list s1) s1 = None"
    if "publish_key_token k t v s = Some (s1, r)" for k t v s1 r
  proof (rule tokens_abort [OF sv_inv_publish [OF that assms(1)] _ _ _ person_shared assms(5,6)])
    note keeps = publish_keeps [OF that]
    have "sv_sub_map s1 = sv_sub_map s" "sv_token_list s1 = sv_token_list s"
      using keeps by (metis server.select_convs server.surjective server.update_convs(1))+
    then show "token \<in> set (get_token_list s1)" "(lit ''key'' @ token, h) \<in> set (sv_sub_map s1)"
      using assms(2,3) by (simp_all add: get_token_list_def)
    show "\<not> c_has_closed (sv_conns s1 ! h)" using keeps h assms(4) by simp
  qed
  then show ?thesis
    by (auto simp: publisher_round_def publish_def must_def Option.bind_eq_None_conv split: option.splits sum.splits)
qed

lemma length_subscription:
  assumes "length token < 2 ^ 32" "pack_args [V_string (lit ''key''), V_string token] = Inr b"
  shows "length b \<le> length token + 10"
  using assms length_pack_str [of "of_nat (length token)"]
  by (auto simp: pack_args_def append_res_def pack_string_def checked_get_container_size_def pack_array_def
      pack_body_def pack_str_def [of 3] lit_def)

lemma subscription_packs:
  assumes "length token < 2 ^ 32"
  obtains b where "pack_args [V_string (lit ''key''), V_string token] = Inr b" "length b \<le> length token + 10"
proof -
  have "fits (V_tuple [V_string (lit ''key''), V_string token])" using assms by (simp add: lit_def)
  from mp.pack_total [OF this] length_subscription [OF assms] that show thesis by (auto simp: pack_args_def)
qed

lemma length_long_str:
  assumes "65536 \<le> n" "n < 2 ^ 32"
  shows "length (pack_str (of_nat n)) = 5"
proof -
  have "unat (of_nat n :: u32) = n" using assms(2) by (simp add: unat_of_nat)
  then show ?thesis using assms(1) by (simp add: pack_str_def word_less_nat_alt length_to_be)
qed

lemma long_publication:
  assumes "10485742 \<le> length token" "length token < 10485750" "published (lit ''key'' @ token) person_data = Inr b"
  shows "MAX_BUF_LEN \<le> length b"
proof -
  have "length (pack_str (of_nat (length (lit ''key'' @ token)))) = 5"
    by (rule length_long_str) (use assms(1,2) in \<open>simp_all add: lit_def\<close>)
  moreover have "unat (3 + word_of_nat (length token) :: u32) = 3 + length token"
    using assms(2) unat_of_nat [of "3 + length token", where 'a = 32] by simp
  ultimately have "length b = length token + 18"
    using assms by (auto simp: published_def pack_args_str_def append_res_def pack_string_def checked_get_container_size_def
        pack_body_def pack_array_def pack_int_def pack_imp_int32_def person_data_def lit_def pack_str_def [of 7])
  then show ?thesis using assms(1) by (simp add: MAX_BUF_LEN_def)
qed

text \<open>C17. Any client can end the example server with one message: a subscription to \<open>key\<close> whose token is
  a few bytes below the limit of a message is accepted on every open connection that waits for a
  header, and the next turn of the publishing thread, which adds the person to the token, fails the
  \<open>assert\<close> of \<open>response\<close>.\<close>

theorem long_token_ends_server:
  fixes token :: bytes
  assumes "example_reachable n s" "h < length (sv_conns s)" "c_reading (sv_conns s ! h) = Head_read"
    and "c_open (sv_conns s ! h)" "\<not> c_has_closed (sv_conns s ! h)"
    and "10485742 \<le> length token" "length token < 10485750"
  shows "\<exists>s'. (server_step example_router)\<^sup>*\<^sup>* s s' \<and> publisher_round s' = None"
proof -
  have len: "length (lit ''key'') < 2 ^ 32" "length token < 2 ^ 32" using assms(7) by (simp_all add: lit_def)
  obtain r where r: "pack_args [V_string (lit ''key''), V_string token] = Inr r" "length r \<le> length token + 10"
    by (rule subscription_packs [OF len(2)])
  have "length r < MAX_BUF_LEN" using r(2) assms(7) by (simp add: MAX_BUF_LEN_def)
  then obtain c where c: "(server_step example_router)\<^sup>*\<^sup>* s (on_subscribe (lit ''key'') token h (put_conn h c s))"
    "c_has_closed c = c_has_closed (sv_conns s ! h)"
    by (rule subscribe_steps [OF assms(2-4) len r(1)])
  let ?s = "on_subscribe (lit ''key'') token h (put_conn h c s)"
  have "token \<noteq> []" using assms(6) by auto
  then have sub: "token \<in> set (get_token_list ?s)" "(lit ''key'' @ token, h) \<in> set (sv_sub_map ?s)"
    "\<not> c_has_closed (sv_conns ?s ! h)"
    using assms(2,5) c(2)
    by (simp_all add: on_subscribe_def Let_def get_token_list_def insert_token_def put_conn_def set_insort_key)
  have "fits (V_tuple [V_int 0, V_string (lit ''key'' @ token), V_string person_data])"
    using assms(7) by (simp add: person_data_def lit_def)
  from mp.pack_total [OF this] obtain b where b: "published (lit ''key'' @ token) person_data = Inr b"
    by (auto simp: published_def pack_args_str_def)
  have "publisher_round ?s = None"
    using round_aborts [OF example_inv [OF example_reachable_steps [OF assms(1) c(1)]] sub b long_publication [OF assms(6,7) b]] .
  with c(1) show ?thesis by blast
qed

section \<open>Examples\<close>

text \<open>The server with one connection, which waits for a header.\<close>

definition accepted :: "example \<Rightarrow> example server" where
  "accepted u = on_accept False (case new_server 4 15 fresh_memory u of Inr s \<Rightarrow> s)"

lemma accepted_reachable: "example_reachable 4 (accepted u)"
proof -
  obtain s where s: "new_server 4 15 fresh_memory u = Inr s" "accepted u = on_accept False s" "sv_accepting s"
    by (cases "new_server 4 15 fresh_memory u")
      (auto simp: accepted_def new_server_def new_pool_def do_accept_def case_prod_beta split: sum.splits)
  have "(server_step example_router)\<^sup>*\<^sup>* s (accepted u)"
    unfolding s(2) by (intro r_into_rtranclp server_step.sv_accept s(3))
  then show ?thesis unfolding example_reachable_def using s(1) by blast
qed

lemma accepted_conn:
  "length (sv_conns (accepted u)) = 2" "\<not> c_has_closed (sv_conns (accepted u) ! 0)"
  "c_reading (sv_conns (accepted u) ! 0) = Head_read" "c_open (sv_conns (accepted u) ! 0)"
  "sv_sub_map (accepted u) = []" "sv_token_list (accepted u) = []" "c_write_queue (sv_conns (accepted u) ! 0) = []"
  by (simp_all add: accepted_def new_server_def new_pool_def on_accept_def do_accept_def fresh_memory_def
      eval_nat_numeral get_io_service_def put_conn_def start_def read_head_def reset_timer_def set_conn_id_def
      new_connection_def Let_def)

theorem publisher_round_delivers_witness:
  "\<exists>s t. example_reachable 4 s \<and> publisher_round s = Some t \<and>
    c_write_queue (sv_conns t ! 0) = [publication (lit ''keyt'') person_data]"
proof -
  let ?a = "accepted undefined"
  have "length (lit ''t'') < 2 ^ 32" by (simp add: lit_def)
  then obtain b where b: "pack_args [V_string (lit ''key''), V_string (lit ''t'')] = Inr b" "length b \<le> length (lit ''t'') + 10"
    by (rule subscription_packs)
  have len: "length (lit ''key'') < 2 ^ 32" "length (lit ''t'') < 2 ^ 32" "length b < MAX_BUF_LEN" "0 < length (sv_conns ?a)"
    using b(2) by (simp_all add: lit_def MAX_BUF_LEN_def accepted_conn)
  obtain c where c: "(server_step example_router)\<^sup>*\<^sup>* ?a (on_subscribe (lit ''key'') (lit ''t'') 0 (put_conn 0 c ?a))"
    "c_has_closed c = c_has_closed (sv_conns ?a ! 0)" "c_write_queue c = c_write_queue (sv_conns ?a ! 0)"
    by (rule subscribe_steps [OF len(4) accepted_conn(3,4) len(1,2) b(1) len(3)])
  note reachable = example_reachable_steps [OF accepted_reachable c(1)]
  let ?s = "on_subscribe (lit ''key'') (lit ''t'') 0 (put_conn 0 c ?a)"
  have s: "get_token_list ?s = [lit ''t'']" "sv_sub_map ?s = [(lit ''keyt'', 0)]" "length (sv_conns ?s) = 2"
    "\<not> c_has_closed (sv_conns ?s ! 0)" "c_write_queue (sv_conns ?s ! 0) = []"
    using c(2,3) by (simp_all add: on_subscribe_def Let_def get_token_list_def insert_token_def accepted_conn put_conn_def lit_def)
  obtain t where t: "publisher_round ?s = Some t"
    "\<forall>h < length (sv_conns ?s). c_write_queue (sv_conns t ! h) = c_write_queue (sv_conns ?s ! h) @
      (if c_has_closed (sv_conns ?s ! h) then [] else round_messages (get_token_list ?s) (sv_sub_map ?s) h)"
    using publisher_round_delivers [OF reachable] s(1) by (auto simp: lit_def)
  have "round_messages (get_token_list ?s) (sv_sub_map ?s) 0 = [publication (lit ''keyt'') person_data]"
    unfolding s(1,2) by (simp add: round_messages_def token_messages_def lit_def)
  then have "c_write_queue (sv_conns t ! 0) = [publication (lit ''keyt'') person_data]"
    using t(2) s(3-5) by simp
  with reachable t(1) show ?thesis by blast
qed

theorem long_token_ends_server_witness:
  "\<exists>s'. (server_step example_router)\<^sup>*\<^sup>* (accepted undefined) s' \<and> publisher_round s' = None"
  by (rule long_token_ends_server [OF accepted_reachable, of 0 _ "replicate 10485745 116"])
    (simp_all add: accepted_conn)

end
