(* ===== verification/Client_Threads.thy ===== *)
theory Client_Threads imports End_To_End Transitions "HOL-Library.Multiset" begin

text \<open>
  Several threads making calls on one \<open>rpc_client\<close>, as \<open>test_multiple_thread\<close> and \<open>test_threads\<close> of the
  example client do. Here a call is not one step: \<open>async_call\<close> takes its number under \<open>cb_mtx_\<close>, packs
  the arguments, and queues the message under \<open>write_mtx_\<close>; between these sections the other threads
  and the handlers of the client's own thread run. The server answers what has reached it in any
  order. The client stays connected. The handlers are those of \<open>Rpc_Client\<close>, each one step: of what
  the threads share, each touches the outbox, or the entries of one number, which no thread uses
  after it has entered them.
\<close>

section \<open>The sections of a call\<close>

text \<open>Arguments as of \<open>async_call_future\<close> and \<open>async_call_callback\<close>.\<close>

datatype client_call =
    Future_call bytes "cval list"
  | Callback_call nat bytes nat "cval list"

fun call_name :: "client_call \<Rightarrow> bytes" where
  "call_name (Future_call name args) = name"
| "call_name (Callback_call timeout name cb args) = name"

fun call_args :: "client_call \<Rightarrow> cval list" where
  "call_args (Future_call name args) = args"
| "call_args (Callback_call timeout name cb args) = args"

fun is_callback :: "client_call \<Rightarrow> bool" where
  "is_callback (Future_call name args) \<longleftrightarrow> False"
| "is_callback (Callback_call timeout name cb args) \<longleftrightarrow> True"

definition number_future :: "client \<Rightarrow> u64 \<times> client" where
  "number_future c =
     (let fu_id = cl_fu_id c + 1
      in (fu_id, c\<lparr>cl_fu_id := fu_id, cl_futures := List.insert fu_id (cl_futures c)\<rparr>))"

definition next_callback_id :: "u64 \<Rightarrow> u64" where
  "next_callback_id i = (i + 1) OR push_bit 63 1"

definition number_callback :: "nat \<Rightarrow> nat \<Rightarrow> client \<Rightarrow> u64 \<times> client" where
  "number_callback timeout cb c =
     (let cb_id = next_callback_id (cl_callback_id c);
          call = \<lparr>ct_cb = cb, ct_timeout = timeout, ct_has_timeout = False, ct_timer_armed = (timeout \<noteq> 0)\<rparr>
      in (cb_id, c\<lparr>cl_callback_id := cb_id,
                   cl_callback_map :=
                     (if map_of (cl_callback_map c) cb_id = None
                      then (cb_id, call) # cl_callback_map c else cl_callback_map c)\<rparr>))"

definition send_call :: "u64 \<Rightarrow> bytes \<Rightarrow> cval list \<Rightarrow> client \<Rightarrow> unit act" where
  "send_call i rpc_name args c =
     (case pack_args args of
        Inl e \<Rightarrow> Some (c, Inl e)
      | Inr ret \<Rightarrow> map_option (\<lambda>c'. (c', Inr ())) (client_write i req_res ret (hash_name rpc_name) c))"

text \<open>
  A thread: the calls it still has to make, the first of them begun when its stage is not \<open>Entered\<close>.
  A callback's call checks \<open>has_connected_\<close> first and takes its number later.
\<close>

datatype call_stage = Entered | Checked | Numbered u64

type_synonym caller = "client_call list \<times> call_stage"

text \<open>
  The next section of a thread, with the number it has taken and the number under which it has queued
  a message. Nothing is queued by a call whose arguments do not pack. \<open>None\<close>: the thread has ended, or
  the process does.
\<close>

fun caller_section :: "caller \<Rightarrow> client \<Rightarrow> (caller \<times> client \<times> u64 option \<times> u64 option) option" where
  "caller_section ([], st) c = None"
| "caller_section (k # ks, Numbered i) c =
     (case send_call i (call_name k) (call_args k) c of
        None \<Rightarrow> None
      | Some (c', Inl e) \<Rightarrow> Some ((ks, Entered), c', None, None)
      | Some (c', Inr u) \<Rightarrow> Some ((ks, Entered), c', None, Some i))"
| "caller_section (Future_call name args # ks, st) c =
     (let (i, c') = number_future c in Some ((Future_call name args # ks, Numbered i), c', Some i, None))"
| "caller_section (Callback_call timeout name cb args # ks, Entered) c =
     (if cl_has_connected c then Some ((Callback_call timeout name cb args # ks, Checked), c, None, None)
      else Some ((ks, Entered), c\<lparr>cl_called := cl_called c @ [(cb, Some not_connected, lit ''not connected'')]\<rparr>, None, None))"
| "caller_section (Callback_call timeout name cb args # ks, Checked) c =
     (let (i, c') = number_callback timeout cb c
      in Some ((Callback_call timeout name cb args # ks, Numbered i), c', Some i, None))"

text \<open>Without interruption the sections are \<open>async_call\<close>.\<close>

lemma future_sections:
  "async_call_future name args c =
     (let (i, c') = number_future c
      in map_option (\<lambda>(c'', r). (c'', map_sum id (\<lambda>_. i) r)) (send_call i name args c'))"
  by (simp add: async_call_future_def number_future_def send_call_def Let_def option.map_comp comp_def split: sum.split)

lemma callback_sections:
  "cl_has_connected c \<Longrightarrow> async_call_callback timeout name cb args c =
     (let (i, c') = number_callback timeout cb c in send_call i name args c')"
  by (simp add: async_call_callback_def number_callback_def next_callback_id_def send_call_def Let_def)

section \<open>Threads, handlers and answers\<close>

text \<open>
  Logs: \<open>cs_numbered\<close> are the calls that took a number, \<open>cs_sent\<close> those whose message was queued, and
  \<open>cs_answered\<close> those for which the client has read the header of an answer, each with its thread and
  its number.
\<close>

type_synonym made_call = "nat \<times> client_call \<times> u64"

record callers =
  cs_client :: client
  cs_threads :: "caller list"
  cs_numbered :: "made_call list"
  cs_sent :: "made_call list"
  cs_answered :: "made_call list"

definition new_callers :: "client \<Rightarrow> client_call list list \<Rightarrow> callers" where
  "new_callers c programs =
     \<lparr>cs_client = c, cs_threads = map (\<lambda>ks. (ks, Entered)) programs, cs_numbered = [], cs_sent = [], cs_answered = []\<rparr>"

fun sent_request :: "made_call \<Rightarrow> request" where
  "sent_request (t, k, i) = (i, hash_name (call_name k), packed (call_args k))"

fun numbers :: "u64 option \<Rightarrow> u64 list" where
  "numbers None = []"
| "numbers (Some i) = [i]"

fun number_of :: "made_call \<Rightarrow> u64" where
  "number_of (t, k, i) = i"

text \<open>
  \<open>answer\<close> is what the server answers, \<open>pad\<close> the bytes of padding in its headers. It can have read what
  the client has begun to write.
\<close>

inductive callers_step :: "(request \<Rightarrow> bytes) \<Rightarrow> bytes \<Rightarrow> callers \<Rightarrow> callers \<Rightarrow> bool" for answer pad where
  thread_moves: "t < length (cs_threads s) \<Longrightarrow>
    caller_section (cs_threads s ! t) (cs_client s) = Some (k', c', took, queued) \<Longrightarrow>
    callers_step answer pad s (s\<lparr>cs_client := c', cs_threads := (cs_threads s)[t := k'],
      cs_numbered := cs_numbered s @ map (\<lambda>i. (t, hd (fst (cs_threads s ! t)), i)) (numbers took),
      cs_sent := cs_sent s @ map (\<lambda>i. (t, hd (fst (cs_threads s ! t)), i)) (numbers queued)\<rparr>)"
| message_sent: "Op_write \<in> set (cl_pending (cs_client s)) \<Longrightarrow> on_client_write None (cs_client s) = Some c' \<Longrightarrow>
    callers_step answer pad s (s\<lparr>cs_client := c'\<rparr>)"
| timer_runs_out: "map_of (cl_callback_map (cs_client s)) i = Some cl \<Longrightarrow> ct_timer_armed cl \<Longrightarrow>
    callers_step answer pad s (s\<lparr>cs_client := on_call_timer i (cs_client s)\<rparr>)"
| answer_head: "Op_read_head \<in> set (cl_pending (cs_client s)) \<Longrightarrow>
    m \<in> set (take (length (cl_wire (cs_client s))) (cs_sent s)) \<Longrightarrow> m \<notin> set (cs_answered s) \<Longrightarrow>
    on_client_head (Inr (header_memory pad (message_header (reply_msg (number_of m, answer (sent_request m))))))
      (cs_client s) = Some c' \<Longrightarrow>
    callers_step answer pad s (s\<lparr>cs_client := c', cs_answered := cs_answered s @ [m]\<rparr>)"
| answer_body: "Op_read_body i ty n \<in> set (cl_pending (cs_client s)) \<Longrightarrow> cs_answered s \<noteq> [] \<Longrightarrow>
    on_client_body i ty n (Inr (answer (sent_request (last (cs_answered s))))) (cs_client s) = Some c' \<Longrightarrow>
    callers_step answer pad s (s\<lparr>cs_client := c'\<rparr>)"

inductive_cases callers_stepE: "callers_step answer pad s s'"


lemma number_future_simps [simp]:
  "fst (number_future c) = cl_fu_id c + 1"
  "snd (number_future c) = c\<lparr>cl_fu_id := cl_fu_id c + 1, cl_futures := List.insert (cl_fu_id c + 1) (cl_futures c)\<rparr>"
  by (simp_all add: number_future_def Let_def)

lemma number_callback_simps [simp]:
  "fst (number_callback timeout cb c) = next_callback_id (cl_callback_id c)"
  "map_of (cl_callback_map c) (next_callback_id (cl_callback_id c)) = None \<Longrightarrow>
   snd (number_callback timeout cb c) = c\<lparr>cl_callback_id := next_callback_id (cl_callback_id c), cl_callback_map :=
     (next_callback_id (cl_callback_id c),
      \<lparr>ct_cb = cb, ct_timeout = timeout, ct_has_timeout = False, ct_timer_armed = (timeout \<noteq> 0)\<rparr>) # cl_callback_map c\<rparr>"
  by (simp_all add: number_callback_def Let_def)

text \<open>A call that packs below the limit of the size, and the message it queues.\<close>

definition can_send :: "client_call \<Rightarrow> bool" where
  "can_send k \<longleftrightarrow> (case pack_args (call_args k) of Inl e \<Rightarrow> False | Inr b \<Rightarrow> length b < MAX_BUF_LEN)"

lemma send_call_queues:
  assumes "can_send k"
  shows "send_call i (call_name k) (call_args k) c = Some (enqueue_message (call_msg (i, hash_name (call_name k), packed (call_args k))) c, Inr ())"
  using assms by (auto simp: can_send_def send_call_def client_write_def packed_def split: sum.splits)

text \<open>What the sections of a connected client's thread do.\<close>

lemma caller_section_cases:
  assumes "caller_section k0 c = Some (k', c', took, queued)" "\<forall>k \<in> set (fst k0). can_send k" "cl_has_connected c"
  obtains (check) k ks where "k0 = (k # ks, Entered)" "k' = (k # ks, Checked)" "c' = c" "took = None" "queued = None"
  | (future) name args ks st where "k0 = (Future_call name args # ks, st)" "\<nexists>i. st = Numbered i"
      "k' = (Future_call name args # ks, Numbered (cl_fu_id c + 1))" "c' = snd (number_future c)"
      "took = Some (cl_fu_id c + 1)" "queued = None"
  | (callback) timeout name cb args ks i where "k0 = (Callback_call timeout name cb args # ks, Checked)"
      "k' = (Callback_call timeout name cb args # ks, Numbered i)" "i = next_callback_id (cl_callback_id c)" "c' = snd (number_callback timeout cb c)"
      "took = Some i" "queued = None"
  | (send) k ks i where "k0 = (k # ks, Numbered i)" "k' = (ks, Entered)"
      "c' = enqueue_message (call_msg (i, hash_name (call_name k), packed (call_args k))) c" "took = None" "queued = Some i"
  using assms(1)
proof (cases "(k0, c)" rule: caller_section.cases)
  case (2 k ks i c)
  then show ?thesis using assms send_call_queues [of k i c] send [of k ks i] by simp
next
  case "3_1"
  then show ?thesis using assms future by (auto simp: split_beta)
next
  case "3_2"
  then show ?thesis using assms future by (auto simp: split_beta)
next
  case (4 timeout name cb args ks c)
  then show ?thesis using assms check by auto
next
  case (5 timeout name cb args ks c)
  then show ?thesis using assms callback [of timeout name cb args ks] by (auto simp: split_beta)
qed simp

section \<open>The invariant\<close>

fun made :: "made_call \<Rightarrow> client_call" where
  "made (t, k, i) = k"

text \<open>What a thread has sent followed by what it still has to send is its program.\<close>

definition programmed :: "client_call list list \<Rightarrow> callers \<Rightarrow> bool" where
  "programmed programs s \<longleftrightarrow> length (cs_threads s) = length programs \<and>
     (\<forall>m \<in> set (cs_sent s). fst m < length programs) \<and>
     (\<forall>t < length programs.
        map made (filter (\<lambda>m. fst m = t) (cs_sent s)) @ fst (cs_threads s ! t) = programs ! t)"

text \<open>The call of a thread between its two sections.\<close>

definition begun :: "made_call list \<Rightarrow> made_call list \<Rightarrow> nat \<Rightarrow> caller \<Rightarrow> bool" where
  "begun numbered sent t k0 \<longleftrightarrow>
     (\<forall>i. snd k0 = Numbered i \<longrightarrow>
        fst k0 \<noteq> [] \<and> (t, hd (fst k0), i) \<in> set numbered \<and> (t, hd (fst k0), i) \<notin> set sent)"

fun to_number :: "caller \<Rightarrow> nat" where
  "to_number (ks, Numbered i) = length ks - 1"
| "to_number (ks, st) = length ks"

text \<open>
  Numbers up to the counters are taken, by futures below the bit of the callbacks and by callbacks
  above it; \<open>n\<close> calls still need one.
\<close>

definition flag_bit :: nat where
  "flag_bit = 2 ^ 63"

fun taken :: "client \<Rightarrow> client_call \<Rightarrow> nat \<Rightarrow> bool" where
  "taken c (Future_call name args) i \<longleftrightarrow> i < flag_bit \<and> i \<le> unat (cl_fu_id c)"
| "taken c (Callback_call timeout name cb args) i \<longleftrightarrow> flag_bit < i \<and> i \<le> unat (cl_callback_id c)"

definition fresh_numbers :: "nat \<Rightarrow> made_call list \<Rightarrow> client \<Rightarrow> bool" where
  "fresh_numbers n numbered c \<longleftrightarrow> distinct (map number_of numbered) \<and>
     (\<forall>m \<in> set numbered. taken c (made m) (unat (number_of m))) \<and>
     (cl_callback_id c = 0 \<or> flag_bit < unat (cl_callback_id c)) \<and>
     (\<forall>i \<in> fst ` set (cl_callback_map c). unat i \<le> unat (cl_callback_id c)) \<and>
     unat (cl_fu_id c) + n < flag_bit \<and> (unat (cl_callback_id c) - flag_bit) + n < flag_bit"

text \<open>A numbered call without an answer is in its map.\<close>

fun waits :: "client \<Rightarrow> made_call \<Rightarrow> bool" where
  "waits c (t, Future_call name args, i) \<longleftrightarrow> i \<in> set (cl_futures c)"
| "waits c (t, Callback_call timeout name cb args, i) \<longleftrightarrow>
     (\<exists>cl. map_of (cl_callback_map c) i = Some cl \<and> ct_cb cl = cb \<and> (ct_has_timeout cl \<or> ct_timer_armed cl \<longrightarrow> timeout \<noteq> 0))"

text \<open>The answers whose bodies were read.\<close>

definition completed :: "bool \<Rightarrow> made_call list \<Rightarrow> made_call list" where
  "completed in_body answered = (if in_body then butlast answered else answered)"

definition reads :: "(request \<Rightarrow> bytes) \<Rightarrow> made_call list \<Rightarrow> bool \<Rightarrow> client \<Rightarrow> bool" where
  "reads answer answered in_body c \<longleftrightarrow> cl_open c \<and> cl_has_connected c \<and>
     (if in_body
      then answered \<noteq> [] \<and> filter is_read (cl_pending c) =
        [Op_read_body (number_of (last answered)) req_res (length (answer (sent_request (last answered))))]
      else filter is_read (cl_pending c) = [Op_read_head])"

fun callback_called :: "(request \<Rightarrow> bytes) \<Rightarrow> made_call \<Rightarrow> nat \<times> asio_error option \<times> bytes \<Rightarrow> bool" where
  "callback_called answer (t, Callback_call timeout name cb args, i) x \<longleftrightarrow>
     x = (cb, None, answer (sent_request (t, Callback_call timeout name cb args, i))) \<or>
     timeout \<noteq> 0 \<and> x = (cb, Some timed_out, [])"
| "callback_called answer (t, Future_call name args, i) x \<longleftrightarrow> False"

text \<open>Promises set and callbacks called for the completed calls, in the order of the answers.\<close>

definition results :: "(request \<Rightarrow> bytes) \<Rightarrow> made_call list \<Rightarrow> client \<Rightarrow> bool" where
  "results answer ms c \<longleftrightarrow>
     cl_resolved c = map (\<lambda>m. (number_of m, answer (sent_request m))) (filter (\<lambda>m. \<not> is_callback (made m)) ms) \<and>
     list_all2 (callback_called answer) (filter (\<lambda>m. is_callback (made m)) ms) (cl_called c)"

definition callers_inv ::
    "(request \<Rightarrow> bytes) \<Rightarrow> client_call list list \<Rightarrow> nat \<Rightarrow> bool \<Rightarrow> callers \<Rightarrow> bool" where
  "callers_inv answer programs d in_body s \<longleftrightarrow>
     (\<forall>ks \<in> set programs. \<forall>k \<in> set ks. can_send k) \<and> (\<forall>r. sendable (answer r)) \<and>
     programmed programs s \<and>
     (\<forall>t < length programs. begun (cs_numbered s) (cs_sent s) t (cs_threads s ! t)) \<and>
     distinct (cs_sent s) \<and> set (cs_sent s) \<subseteq> set (cs_numbered s) \<and>
     distinct (cs_answered s) \<and> set (cs_answered s) \<subseteq> set (cs_sent s) \<and>
     fresh_numbers (sum_list (map to_number (cs_threads s))) (cs_numbered s) (cs_client s) \<and>
     client_out (map sent_request (cs_sent s)) d (cs_client s) \<and>
     reads answer (cs_answered s) in_body (cs_client s) \<and>
     distinct (cl_futures (cs_client s)) \<and>
     (\<forall>m \<in> set (cs_numbered s) - set (completed in_body (cs_answered s)). waits (cs_client s) m) \<and>
     results answer (completed in_body (cs_answered s)) (cs_client s)"

lemma callers_invI:
  assumes "\<forall>ks \<in> set programs. \<forall>k \<in> set ks. can_send k" "\<forall>r. sendable (answer r)" "programmed programs s"
    "\<And>t. t < length programs \<Longrightarrow> begun (cs_numbered s) (cs_sent s) t (cs_threads s ! t)"
    "distinct (cs_sent s)" "set (cs_sent s) \<subseteq> set (cs_numbered s)"
    "distinct (cs_answered s)" "set (cs_answered s) \<subseteq> set (cs_sent s)"
    "fresh_numbers (sum_list (map to_number (cs_threads s))) (cs_numbered s) (cs_client s)"
    "client_out (map sent_request (cs_sent s)) d (cs_client s)"
    "reads answer (cs_answered s) in_body (cs_client s)" "distinct (cl_futures (cs_client s))"
    "\<And>m. m \<in> set (cs_numbered s) \<Longrightarrow> m \<notin> set (completed in_body (cs_answered s)) \<Longrightarrow> waits (cs_client s) m"
    "results answer (completed in_body (cs_answered s)) (cs_client s)"
  shows "callers_inv answer programs d in_body s"
  using assms by (simp add: callers_inv_def)


lemma callers_invD:
  assumes "callers_inv answer programs d in_body s"
  shows "\<forall>ks \<in> set programs. \<forall>k \<in> set ks. can_send k" "\<forall>r. sendable (answer r)" "programmed programs s"
    "\<And>t. t < length programs \<Longrightarrow> begun (cs_numbered s) (cs_sent s) t (cs_threads s ! t)"
    "distinct (cs_sent s)" "set (cs_sent s) \<subseteq> set (cs_numbered s)"
    "distinct (cs_answered s)" "set (cs_answered s) \<subseteq> set (cs_sent s)"
    "fresh_numbers (sum_list (map to_number (cs_threads s))) (cs_numbered s) (cs_client s)"
    "client_out (map sent_request (cs_sent s)) d (cs_client s)"
    "reads answer (cs_answered s) in_body (cs_client s)" "distinct (cl_futures (cs_client s))"
    "\<And>m. m \<in> set (cs_numbered s) \<Longrightarrow> m \<notin> set (completed in_body (cs_answered s)) \<Longrightarrow> waits (cs_client s) m"
    "results answer (completed in_body (cs_answered s)) (cs_client s)"
  using assms by (simp_all add: callers_inv_def)

section \<open>Numbers\<close>

lemma bit_63: "bit (w :: u64) 63 \<longleftrightarrow> flag_bit \<le> unat w"
proof -
  have "unat w < 2 ^ 64" using unat_u64_less [of w] by simp
  then have "unat w div 2 ^ 63 < 2" by simp
  moreover have "bit w 63 \<longleftrightarrow> bit (unat w) 63" by (simp add: bit_unsigned_iff)
  then have "bit w 63 \<longleftrightarrow> odd (unat w div 2 ^ 63)" by (simp only: bit_iff_odd)
  ultimately show ?thesis by (auto simp: less_2_cases_iff flag_bit_def)
qed

lemma next_future_id: "unat (i :: u64) + 1 < flag_bit \<Longrightarrow> unat (i + 1) = unat i + 1"
  by (simp add: unat_word_ariths flag_bit_def)

lemma unat_next_callback:
  fixes i :: u64
  assumes "i = 0 \<or> flag_bit < unat i" "unat i - flag_bit + 1 < flag_bit"
  shows "unat (next_callback_id i) = max flag_bit (unat i) + 1"
proof (cases "i = 0")
  case False
  then have i: "unat (i + 1) = unat i + 1" "bit (i + 1) 63"
    using assms by (simp_all add: bit_63) (simp_all add: unat_word_ariths flag_bit_def)
  then have "bit (i + 1) n" if "bit (push_bit 63 1 :: u64) n" for n
  proof -
    have "n = 63" using that by (simp only: bit_push_bit_iff bit_1_iff) simp
    then show ?thesis using i(2) by simp
  qed
  then have "(i + 1) OR push_bit 63 1 = i + 1"
    by (intro bit_word_eqI) (auto simp only: bit_or_iff)
  then show ?thesis using i(1) False assms(1) by (simp add: next_callback_id_def)
qed (simp add: flag_bit_def next_callback_id_def)

lemma taken_later:
  "taken c k i \<Longrightarrow> unat (cl_fu_id c) \<le> unat (cl_fu_id c') \<Longrightarrow> unat (cl_callback_id c) \<le> unat (cl_callback_id c') \<Longrightarrow>
   taken c' k i"
  by (cases k) auto

lemma not_taken:
  "taken c k i \<Longrightarrow> flag_bit < j \<Longrightarrow> unat (cl_callback_id c) < j \<Longrightarrow> i \<noteq> j"
  "taken c k i \<Longrightarrow> j < flag_bit \<Longrightarrow> unat (cl_fu_id c) < j \<Longrightarrow> i \<noteq> j"
  by (cases k; simp)+

lemma fresh_future:
  assumes "fresh_numbers (Suc n) numbered c" "\<not> is_callback k"
  shows "fresh_numbers n (numbered @ [(t, k, cl_fu_id c + 1)]) (snd (number_future c))"
proof -
  let ?c = "snd (number_future c)"
  have i: "unat (cl_fu_id c + 1) = unat (cl_fu_id c) + 1"
    using assms(1) by (intro next_future_id) (simp add: fresh_numbers_def)
  have old: "unat (number_of m) \<noteq> unat (cl_fu_id c + 1)" "taken ?c (made m) (unat (number_of m))"
    if "m \<in> set numbered" for m
  proof -
    have "taken c (made m) (unat (number_of m))" "unat (cl_fu_id c) + 1 < flag_bit"
      using assms(1) that by (simp_all add: fresh_numbers_def)
    then show "unat (number_of m) \<noteq> unat (cl_fu_id c + 1)" "taken ?c (made m) (unat (number_of m))"
      using i by (cases "made m"; simp)+
  qed
  have "taken ?c k (unat (cl_fu_id c + 1))" using assms i by (cases k) (simp_all add: fresh_numbers_def)
  moreover have "cl_fu_id c + 1 \<notin> number_of ` set numbered" using old(1) by (metis imageE)
  ultimately show ?thesis using assms(1) i old(2) unfolding fresh_numbers_def by simp
qed

lemma fresh_callback:
  fixes timeout cb
  assumes "fresh_numbers (Suc n) numbered c" "is_callback k"
  defines "i \<equiv> next_callback_id (cl_callback_id c)"
  shows "fresh_numbers n (numbered @ [(t, k, i)]) (snd (number_callback timeout cb c))"
    "map_of (cl_callback_map c) i = None"
proof -
  let ?c = "snd (number_callback timeout cb c)"
  have c: "cl_callback_id c = 0 \<or> flag_bit < unat (cl_callback_id c)"
    "unat (cl_callback_id c) - flag_bit + 1 < flag_bit"
    using assms(1) by (simp_all add: fresh_numbers_def)
  have i: "unat i = max flag_bit (unat (cl_callback_id c)) + 1"
    unfolding i_def by (rule unat_next_callback [OF c])
  then have above: "flag_bit < unat i" "unat (cl_callback_id c) < unat i" by linarith+
  have keys: "unat j \<le> unat (cl_callback_id c)" if "j \<in> fst ` set (cl_callback_map c)" for j
    using assms(1) that by (simp only: fresh_numbers_def)
  then have "i \<notin> fst ` set (cl_callback_map c)" using i by force
  then show new: "map_of (cl_callback_map c) i = None" by (rule map_of_eq_None_iff [THEN iffD2])
  have c': "cl_callback_id ?c = i" "cl_fu_id ?c = cl_fu_id c"
    "fst ` set (cl_callback_map ?c) = insert i (fst ` set (cl_callback_map c))"
    using new by (simp_all add: i_def)
  have old: "unat (number_of m) \<noteq> unat i" "taken ?c (made m) (unat (number_of m))"
    if "m \<in> set numbered" for m
  proof -
    have tk: "taken c (made m) (unat (number_of m))" using assms(1) that unfolding fresh_numbers_def by blast
    then show "unat (number_of m) \<noteq> unat i" by (rule not_taken(1)) (rule above)+
    show "taken ?c (made m) (unat (number_of m))" using tk
      by (rule taken_later) (simp_all only: c'(1,2) order_refl order_less_imp_le [OF above(2)])
  qed
  have "unat j \<le> unat i" if "j \<in> fst ` set (cl_callback_map c)" for j
    using keys [OF that] above(2) by linarith
  then have "\<forall>j \<in> fst ` set (cl_callback_map ?c). unat j \<le> unat i" unfolding c'(3) by simp
  moreover have "taken ?c k (unat i)" using assms(2) above c'(1) by (cases k) simp_all
  moreover have "i \<notin> number_of ` set numbered" using old(1) by (metis imageE)
  moreover have "unat i - flag_bit + n < flag_bit"
  proof -
    have "unat (cl_callback_id c) - flag_bit + Suc n < flag_bit" using assms(1) by (simp only: fresh_numbers_def)
    then show ?thesis using i by simp
  qed
  ultimately show "fresh_numbers n (numbered @ [(t, k, i)]) ?c"
    using assms(1) above c'(1,2) old(2) unfolding fresh_numbers_def by simp
qed


section \<open>Every step keeps the invariant\<close>

lemma reads_cong:
  "reads answer ms b c \<Longrightarrow> cl_open c' = cl_open c \<Longrightarrow> cl_has_connected c' = cl_has_connected c \<Longrightarrow>
   filter is_read (cl_pending c') = filter is_read (cl_pending c) \<Longrightarrow> reads answer ms b c'"
  by (simp add: reads_def)

lemma results_cong:
  "results answer ms c \<Longrightarrow> cl_resolved c' = cl_resolved c \<Longrightarrow> cl_called c' = cl_called c \<Longrightarrow> results answer ms c'"
  by (simp add: results_def)

lemma taken_cong: "cl_fu_id c' = cl_fu_id c \<Longrightarrow> cl_callback_id c' = cl_callback_id c \<Longrightarrow> taken c' k i \<longleftrightarrow> taken c k i"
  by (cases k) auto

lemma fresh_cong:
  assumes "fresh_numbers n ms c" "cl_fu_id c' = cl_fu_id c" "cl_callback_id c' = cl_callback_id c"
    "fst ` set (cl_callback_map c') \<subseteq> fst ` set (cl_callback_map c)"
  shows "fresh_numbers n ms c'"
  using assms(1,4) unfolding fresh_numbers_def assms(2,3) taken_cong [OF assms(2,3)] by blast

lemma waits_cong:
  "cl_futures c' = cl_futures c \<Longrightarrow> cl_callback_map c' = cl_callback_map c \<Longrightarrow> waits c' m \<longleftrightarrow> waits c m"
  by (cases "(c, m)" rule: waits.cases) auto

lemma waits_future: "waits c m \<Longrightarrow> waits (snd (number_future c)) m"
  by (cases "(c, m)" rule: waits.cases) auto

lemma waits_callback:
  "map_of (cl_callback_map c) (next_callback_id (cl_callback_id c)) = None \<Longrightarrow> waits c m \<Longrightarrow>
   waits (snd (number_callback timeout cb c)) m"
  by (cases "(c, m)" rule: waits.cases) auto

lemma sum_list_map_update:
  fixes f :: "'a \<Rightarrow> nat"
  shows "t < length xs \<Longrightarrow> sum_list (map f (xs[t := x])) + f (xs ! t) = sum_list (map f xs) + f x"
proof (induction xs arbitrary: t)
  case (Cons y ys)
  show ?case using Cons.prems Cons.IH [of "t - 1"] by (cases t) auto
qed simp

lemma begun_later: "begun numbered sent t k0 \<Longrightarrow> begun (numbered @ ms) sent t k0"
  by (simp add: begun_def)

lemma begun_others: "begun numbered sent t' k0 \<Longrightarrow> t' \<noteq> t \<Longrightarrow> begun numbered (sent @ [(t, k, i)]) t' k0"
  by (auto simp: begun_def)

lemma programmed_section:
  assumes "programmed programs s" "t < length programs" "fst k' = fst (cs_threads s ! t)"
    "cs_threads s' = (cs_threads s)[t := k']" "cs_sent s' = cs_sent s"
  shows "programmed programs s'"
  using assms by (auto simp: programmed_def nth_list_update)

lemma programmed_sent:
  assumes "programmed programs s" "t < length programs" "cs_threads s ! t = (k # ks, st)"
    "cs_threads s' = (cs_threads s)[t := (ks, st')]" "cs_sent s' = cs_sent s @ [(t, k, i)]"
  shows "programmed programs s'"
  using assms by (auto simp: programmed_def nth_list_update)

lemma programmed_can_send:
  assumes "programmed programs s" "\<forall>ks \<in> set programs. \<forall>k \<in> set ks. can_send k" "t < length programs"
  shows "\<forall>k \<in> set (fst (cs_threads s ! t)). can_send k"
proof -
  have "map made (filter (\<lambda>m. fst m = t) (cs_sent s)) @ fst (cs_threads s ! t) = programs ! t"
    using assms(1,3) by (simp add: programmed_def)
  then have "set (fst (cs_threads s ! t)) \<subseteq> set (programs ! t)" by (metis Un_upper2 set_append)
  then show ?thesis using assms(2,3) nth_mem by blast
qed


text \<open>The state of a thread after a section, as the step relation has it.\<close>

definition after_section :: "nat \<Rightarrow> caller \<Rightarrow> client \<Rightarrow> u64 option \<Rightarrow> u64 option \<Rightarrow> callers \<Rightarrow> callers" where
  "after_section t k' c' took queued s = s\<lparr>cs_client := c', cs_threads := (cs_threads s)[t := k'],
     cs_numbered := cs_numbered s @ map (\<lambda>i. (t, hd (fst (cs_threads s ! t)), i)) (numbers took),
     cs_sent := cs_sent s @ map (\<lambda>i. (t, hd (fst (cs_threads s ! t)), i)) (numbers queued)\<rparr>"

lemma after_section_simps [simp]:
  "cs_client (after_section t k' c' took queued s) = c'"
  "cs_threads (after_section t k' c' took queued s) = (cs_threads s)[t := k']"
  "cs_numbered (after_section t k' c' took queued s) =
     cs_numbered s @ map (\<lambda>i. (t, hd (fst (cs_threads s ! t)), i)) (numbers took)"
  "cs_sent (after_section t k' c' took queued s) =
     cs_sent s @ map (\<lambda>i. (t, hd (fst (cs_threads s ! t)), i)) (numbers queued)"
  "cs_answered (after_section t k' c' took queued s) = cs_answered s"
  by (simp_all add: after_section_def)

lemma numbering_keeps_inv:
  assumes inv: "callers_inv answer programs d b s" and t: "t < length (cs_threads s)"
    and k0: "cs_threads s ! t = (k # ks, st)" "\<nexists>i. st = Numbered i"
    and fresh: "\<And>n. fresh_numbers (Suc n) (cs_numbered s) (cs_client s) \<Longrightarrow> fresh_numbers n (cs_numbered s @ [(t, k, i)]) c'"
    and queue: "client_out (map sent_request (cs_sent s)) d c'" and reads: "reads answer (cs_answered s) b c'"
    and waiting: "distinct (cl_futures c')" "waits c' (t, k, i)" "\<And>m. waits (cs_client s) m \<Longrightarrow> waits c' m"
    and results: "results answer (completed b (cs_answered s)) c'"
  shows "callers_inv answer programs d b (after_section t (k # ks, Numbered i) c' (Some i) None s)" (is "callers_inv _ _ _ _ ?s")
proof -
  note old = callers_invD [OF inv]
  let ?n = "sum_list (map to_number ((cs_threads s)[t := (k # ks, Numbered i)]))"
  have "Suc ?n = sum_list (map to_number (cs_threads s))"
    using sum_list_map_update [OF t, of to_number "(k # ks, Numbered i)"] k0 by (cases st) auto
  then have num: "fresh_numbers ?n (cs_numbered s @ [(t, k, i)]) c'" using old(9) fresh by simp
  then have "(t, k, i) \<notin> set (cs_numbered s)" by (force simp: fresh_numbers_def)
  then have new: "(t, k, i) \<notin> set (cs_sent s)" using old(6) by blast
  show ?thesis
  proof (rule callers_invI)
    show "programmed programs ?s"
      by (rule programmed_section [OF old(3), of t "(k # ks, Numbered i)"]) (use t k0 old(3) in \<open>simp_all add: programmed_def\<close>)
    show "begun (cs_numbered ?s) (cs_sent ?s) t' (cs_threads ?s ! t')" if "t' < length programs" for t'
      using old(4) [OF that] t new k0 by (cases "t' = t") (simp_all add: begun_def)
    show "waits (cs_client ?s) m" if "m \<in> set (cs_numbered ?s)" "m \<notin> set (completed b (cs_answered ?s))" for m
    proof (cases "m \<in> set (cs_numbered s)")
      case True
      then show ?thesis using that(2) waiting(3) [OF old(13) [of m]] by simp
    qed (use that(1) k0(1) waiting(2) in simp)
    show "set (cs_sent ?s) \<subseteq> set (cs_numbered ?s)" using old(6) by auto
    show "fresh_numbers (sum_list (map to_number (cs_threads ?s))) (cs_numbered ?s) (cs_client ?s)"
      using num k0 by simp
  qed (use old(1,2,5,7,8) queue reads waiting(1) results in simp_all)
qed

lemma section_keeps_inv:
  assumes inv: "callers_inv answer programs d b s" and t: "t < length (cs_threads s)"
    and sec: "caller_section (cs_threads s ! t) (cs_client s) = Some (k', c', took, queued)"
  shows "callers_inv answer programs d b (after_section t k' c' took queued s)"
proof -
  note old = callers_invD [OF inv]
  let ?c = "cs_client s" and ?s = "after_section t k' c' took queued s"
  have tp: "t < length programs" using old(3) t by (simp add: programmed_def)
  note can = programmed_can_send [OF old(3,1) tp]
  have con: "cl_has_connected ?c" using old(11) by (simp add: reads_def)
  from sec can con show ?thesis
  proof (cases rule: caller_section_cases)
    case (check k ks)
    have num: "sum_list (map to_number ((cs_threads s)[t := k'])) = sum_list (map to_number (cs_threads s))"
      using sum_list_map_update [OF t, of to_number k'] check(1,2) by simp
    show ?thesis
    proof (rule callers_invI)
      show "programmed programs ?s"
        by (rule programmed_section [OF old(3) tp, of k']) (simp_all add: check)
      show "begun (cs_numbered ?s) (cs_sent ?s) t' (cs_threads ?s ! t')" if "t' < length programs" for t'
        using old(4) [OF that] t check by (cases "t' = t") (simp_all add: begun_def)
      show "fresh_numbers (sum_list (map to_number (cs_threads ?s))) (cs_numbered ?s) (cs_client ?s)"
        using old(9) num check(3-5) by simp
    qed (use old check in simp_all)
  next
    case (future name args ks st)
    show ?thesis
      unfolding future(3-6)
    proof (rule numbering_keeps_inv [OF inv t future(1,2) fresh_future])
      show "client_out (map sent_request (cs_sent s)) d (snd (number_future ?c))"
        using old(10) by (rule client_out_cong) simp_all
      show "reads answer (cs_answered s) b (snd (number_future ?c))"
        using old(11) by (rule reads_cong) simp_all
      show "results answer (completed b (cs_answered s)) (snd (number_future ?c))"
        using old(14) by (rule results_cong) simp_all
    qed (use old(12) waits_future in auto)
  next
    case (callback timeout name cb args ks i)
    have new: "map_of (cl_callback_map ?c) i = None"
    proof -
      have "sum_list (map to_number (cs_threads s)) = Suc (sum_list (map to_number (cs_threads s)) - 1)"
        using sum_list_map_update [OF t, of to_number k'] callback(1,2) by simp
      then show ?thesis using fresh_callback(2) [of _ "cs_numbered s" ?c "Callback_call timeout name cb args"] old(9)
        unfolding callback(3) by (metis is_callback.simps(2))
    qed
    note c' = number_callback_simps(2) [OF new [unfolded callback(3)], of timeout cb]
    show ?thesis
      unfolding callback(2-6)
    proof (rule numbering_keeps_inv [OF inv t callback(1) _ fresh_callback(1)])
      show "client_out (map sent_request (cs_sent s)) d (snd (number_callback timeout cb ?c))"
        using old(10) by (rule client_out_cong) (simp_all add: c')
      show "reads answer (cs_answered s) b (snd (number_callback timeout cb ?c))"
        using old(11) by (rule reads_cong) (simp_all add: c')
      show "results answer (completed b (cs_answered s)) (snd (number_callback timeout cb ?c))"
        using old(14) by (rule results_cong) (simp_all add: c')
      show "waits (snd (number_callback timeout cb ?c)) m" if "waits ?c m" for m
        using waits_callback new [unfolded callback(3)] that by blast
    qed (use old(12) c' in simp_all)
  next
    case (send k ks i)
    let ?x = "(t, k, i)"
    have num: "sum_list (map to_number ((cs_threads s)[t := k'])) = sum_list (map to_number (cs_threads s))"
      using sum_list_map_update [OF t, of to_number k'] send(1,2) by simp
    have st: "?x \<in> set (cs_numbered s)" "?x \<notin> set (cs_sent s)"
      using old(4) [OF tp] send(1) by (simp_all add: begun_def)
    show ?thesis
    proof (rule callers_invI)
      show "programmed programs ?s"
        by (rule programmed_sent [OF old(3) tp send(1), of _ Entered i]) (simp_all add: send)
      show "begun (cs_numbered ?s) (cs_sent ?s) t' (cs_threads ?s ! t')" if "t' < length programs" for t'
        using old(4) [OF that] t send begun_others by (cases "t' = t") (simp_all add: begun_def)
      show "fresh_numbers (sum_list (map to_number (cs_threads ?s))) (cs_numbered ?s) (cs_client ?s)"
        using fresh_cong [OF old(9), of c'] num send(3-5) by (simp add: outbox_defs)
      show "client_out (map sent_request (cs_sent ?s)) d (cs_client ?s)"
        using client_out_call [OF old(10), of "sent_request ?x" "cl_futures ?c" "cl_fu_id ?c"] send by simp
      show "reads answer (cs_answered ?s) b (cs_client ?s)"
        using reads_cong [OF old(11), of c'] send(3) by simp
      show "results answer (completed b (cs_answered ?s)) (cs_client ?s)"
        using results_cong [OF old(14), of c'] send(3) by simp
      show "waits (cs_client ?s) m" if "m \<in> set (cs_numbered ?s)" "m \<notin> set (completed b (cs_answered ?s))" for m
        using that old(13) [of m] send waits_cong [of c' ?c m] by simp
    qed (use old send st in auto)
  qed
qed


text \<open>A handler changes the client alone, and perhaps which answer is being read.\<close>

lemma handler_keeps_inv:
  assumes inv: "callers_inv answer programs d b s"
    and queue: "client_out (map sent_request (cs_sent s)) d' c'"
    and answered: "distinct ms" "set ms \<subseteq> set (cs_sent s)" "set (completed b (cs_answered s)) \<subseteq> set (completed b' ms)"
    and reads: "reads answer ms b' c'"
    and fresh: "fresh_numbers (sum_list (map to_number (cs_threads s))) (cs_numbered s) c'"
    and waiting: "distinct (cl_futures c')"
      "\<And>m. m \<in> set (cs_numbered s) \<Longrightarrow> m \<notin> set (completed b' ms) \<Longrightarrow> waits (cs_client s) m \<Longrightarrow> waits c' m"
    and results: "results answer (completed b' ms) c'"
  shows "callers_inv answer programs d' b' (s\<lparr>cs_client := c', cs_answered := ms\<rparr>)"
proof -
  note old = callers_invD [OF inv]
  show ?thesis
  proof (rule callers_invI)
    show "programmed programs (s\<lparr>cs_client := c', cs_answered := ms\<rparr>)" using old(3) by (simp add: programmed_def)
    fix m assume m: "m \<in> set (cs_numbered (s\<lparr>cs_client := c', cs_answered := ms\<rparr>))"
      "m \<notin> set (completed b' (cs_answered (s\<lparr>cs_client := c', cs_answered := ms\<rparr>)))"
    then have "waits (cs_client s) m" using old(13) [of m] answered(3) by auto
    then show "waits (cs_client (s\<lparr>cs_client := c', cs_answered := ms\<rparr>)) m" using m waiting(2) [of m] by simp
  qed (use old(1,2,4-6) queue answered(1,2) reads fresh waiting(1) results in simp_all)
qed

lemma write_done_keeps_callbacks [simp]:
  "cl_has_connected (write_done c) = cl_has_connected c" "cl_callback_map (write_done c) = cl_callback_map c"
  "cl_callback_id (write_done c) = cl_callback_id c" "cl_called (write_done c) = cl_called c"
  by (simp_all add: outbox_defs)

lemma written_keeps_inv:
  assumes inv: "callers_inv answer programs d b s" and "Op_write \<in> set (cl_pending (cs_client s))"
  shows "callers_inv answer programs (Suc d) b (s\<lparr>cs_client := write_done (cs_client s)\<rparr>)"
proof -
  note old = callers_invD [OF inv]
  let ?c = "write_done (cs_client s)"
  have "callers_inv answer programs (Suc d) b (s\<lparr>cs_client := ?c, cs_answered := cs_answered s\<rparr>)"
  proof (rule handler_keeps_inv [OF inv])
    show "client_out (map sent_request (cs_sent s)) (Suc d) ?c" using client_out_sent(1) [OF old(10) assms(2)] .
    show "reads answer (cs_answered s) b ?c" using old(11) by (rule reads_cong) simp_all
    show "fresh_numbers (sum_list (map to_number (cs_threads s))) (cs_numbered s) ?c"
      using old(9) by (rule fresh_cong) simp_all
    show "results answer (completed b (cs_answered s)) ?c" using old(14) by (rule results_cong) simp_all
    show "waits ?c m" if "waits (cs_client s) m" for m using that waits_cong [of ?c "cs_client s" m] by simp
  qed (use old(7,8,12) in simp_all)
  then show ?thesis by simp
qed

lemma map_of_timer:
  "map_of (cl_callback_map (on_call_timer i c)) j =
     (if j = i then map_option (\<lambda>cl. cl\<lparr>ct_has_timeout := True, ct_timer_armed := False\<rparr>) (map_of (cl_callback_map c) j)
      else map_of (cl_callback_map c) j)"
proof -
  have "map_of (map (\<lambda>(i', cl). if i' = i then (i', cl\<lparr>ct_has_timeout := True, ct_timer_armed := False\<rparr>) else (i', cl)) xs) j =
     (if j = i then map_option (\<lambda>cl. cl\<lparr>ct_has_timeout := True, ct_timer_armed := False\<rparr>) (map_of xs j) else map_of xs j)" for xs
    by (induction xs) auto
  from this [of "cl_callback_map c"] show ?thesis by (simp add: on_call_timer_def)
qed

lemma timer_keeps_inv:
  assumes inv: "callers_inv answer programs d b s"
    and timer: "map_of (cl_callback_map (cs_client s)) i = Some cl" "ct_timer_armed cl"
  shows "callers_inv answer programs d b (s\<lparr>cs_client := on_call_timer i (cs_client s)\<rparr>)"
proof -
  note old = callers_invD [OF inv]
  let ?c = "on_call_timer i (cs_client s)"
  have rest: "?c = (cs_client s)\<lparr>cl_callback_map := cl_callback_map ?c\<rparr>" by (simp add: on_call_timer_def)
  have keys: "fst ` set (cl_callback_map ?c) = fst ` set (cl_callback_map (cs_client s))"
    by (force simp: on_call_timer_def)
  have "callers_inv answer programs d b (s\<lparr>cs_client := ?c, cs_answered := cs_answered s\<rparr>)"
  proof (rule handler_keeps_inv [OF inv])
    show "client_out (map sent_request (cs_sent s)) d ?c"
      using old(10) by (rule client_out_cong) (simp_all add: on_call_timer_def)
    show "reads answer (cs_answered s) b ?c" using old(11) by (rule reads_cong) (simp_all add: on_call_timer_def)
    show "fresh_numbers (sum_list (map to_number (cs_threads s))) (cs_numbered s) ?c"
      using old(9) by (rule fresh_cong) (simp_all add: keys, simp_all add: on_call_timer_def)
    show "results answer (completed b (cs_answered s)) ?c"
      using old(14) by (rule results_cong) (simp_all add: on_call_timer_def)
    show "waits ?c m" if "waits (cs_client s) m" for m
      using that timer by (cases "(?c, m)" rule: waits.cases) (auto simp: map_of_timer, auto simp: on_call_timer_def)
    show "distinct (cl_futures ?c)" using old(12) by (simp add: on_call_timer_def)
  qed (use old(7,8) in simp_all)
  then show ?thesis by simp
qed


lemma completed_reading: "completed True (ms @ [m]) = ms" "completed False ms = ms"
  by (simp_all add: completed_def)

text \<open>The two halves of reading an answer.\<close>

lemma head_of_answer:
  assumes "reads answer ms b c" "Op_read_head \<in> set (cl_pending c)" "length pad = 6" "sendable (answer (sent_request m))"
  defines "c' \<equiv> c\<lparr>cl_body := resize_client_body (length (answer (sent_request m))) (cl_body c), cl_pending :=
    remove1 Op_read_head (cl_pending c) @ [Op_read_body (number_of m) req_res (length (answer (sent_request m)))]\<rparr>"
  shows "\<not> b" "reads answer (ms @ [m]) True c'"
    "on_client_head (Inr (header_memory pad (message_header (reply_msg (number_of m, answer (sent_request m)))))) c = Some c'"
proof -
  have head: "Op_read_head \<in> set (filter is_read (cl_pending c))" using assms(2) by simp
  show b: "\<not> b"
  proof
    assume b
    then have "filter is_read (cl_pending c) =
      [Op_read_body (number_of (last ms)) req_res (length (answer (sent_request (last ms))))]"
      using assms(1) by (simp add: reads_def)
    then show False using head by (simp only: list.set insert_iff empty_iff pending_op.distinct simp_thms)
  qed
  then have "filter is_read (remove1 Op_read_head (cl_pending c)) = []"
    using assms(1) by (simp add: reads_def filter_remove1_eq)
  then show "reads answer (ms @ [m]) True c'" using assms(1) by (simp add: reads_def c'_def)
  have "unat (h_body_len (message_header (reply_msg (number_of m, answer (sent_request m))))) = length (answer (sent_request m))"
    using reply_frame(2) [OF assms(3,4)] by simp
  then show "on_client_head (Inr (header_memory pad (message_header (reply_msg (number_of m, answer (sent_request m)))))) c = Some c'"
    using assms(1,4) by (simp add: on_client_head_def header_of_frame [OF assms(3)] Let_def sendable_def
        message_header_def reads_def c'_def)
qed

lemma head_keeps_inv:
  assumes inv: "callers_inv answer programs d b s" and pad: "length pad = 6"
    and head: "Op_read_head \<in> set (cl_pending (cs_client s))" "m \<in> set (cs_sent s)" "m \<notin> set (cs_answered s)"
      "on_client_head (Inr (header_memory pad (message_header (reply_msg (number_of m, answer (sent_request m)))))) (cs_client s) = Some c'"
  shows "\<not> b" "callers_inv answer programs d True (s\<lparr>cs_client := c', cs_answered := cs_answered s @ [m]\<rparr>)"
    "cl_outbox c' = cl_outbox (cs_client s)" "cl_callback_map c' = cl_callback_map (cs_client s)"
proof -
  note old = callers_invD [OF inv]
  note answer = head_of_answer [OF old(11) head(1) pad, of m]
  have ok: "sendable (answer (sent_request m))" using old(2) by blast
  show b: "\<not> b" using answer(1) ok .
  have c': "c' = (cs_client s)\<lparr>cl_body := resize_client_body (length (answer (sent_request m))) (cl_body (cs_client s)),
      cl_pending := remove1 Op_read_head (cl_pending (cs_client s)) @
        [Op_read_body (number_of m) req_res (length (answer (sent_request m)))]\<rparr>"
    using answer(3) [OF ok] head(4) by simp
  then show "cl_outbox c' = cl_outbox (cs_client s)" "cl_callback_map c' = cl_callback_map (cs_client s)" by simp_all
  show "callers_inv answer programs d True (s\<lparr>cs_client := c', cs_answered := cs_answered s @ [m]\<rparr>)"
  proof (rule handler_keeps_inv [OF inv])
    show "client_out (map sent_request (cs_sent s)) d c'"
      using old(10) by (rule client_out_cong) (simp_all add: c' count_remove1_other)
    show "reads answer (cs_answered s @ [m]) True c'" using answer(2) [OF ok] c' by simp
    show "fresh_numbers (sum_list (map to_number (cs_threads s))) (cs_numbered s) c'"
      using old(9) by (rule fresh_cong) (simp_all add: c')
    show "results answer (completed True (cs_answered s @ [m])) c'"
      using results_cong [OF old(14), of c'] b c' by (simp add: completed_def)
    show "waits c' m" if "waits (cs_client s) m" for m using that waits_cong [of c' "cs_client s" m] c' by simp
  qed (use old(7,8,12) head(2,3) b c' in \<open>auto simp: completed_def\<close>)
qed


lemma flag_of_taken: "taken c k (unat (i :: u64)) \<Longrightarrow> drop_bit 63 i \<noteq> 0 \<longleftrightarrow> is_callback k"
proof (cases k)
  case (Future_call name args)
  moreover assume "taken c k (unat i)"
  ultimately show ?thesis using future_id_flag [of i] by (simp add: flag_bit_def)
next
  case (Callback_call timeout name cb args)
  moreover assume "taken c k (unat i)"
  ultimately have "bit i 63" by (simp add: bit_63)
  then have "bit (drop_bit 63 i) 0" by (simp only: bit_drop_bit_eq) simp
  then have "drop_bit 63 i \<noteq> 0" by auto
  then show ?thesis using Callback_call by simp
qed

text \<open>An answer to a call that waits resolves it, as a promise or as a callback.\<close>

lemma answer_resolves:
  assumes m: "m = (t, k, i)" and waiting: "waits c m" and number: "taken c k (unat i)"
    and results: "results answer ms c" and data: "data = answer (sent_request m)"
  obtains c' where "call_back i None data c = Some c'" "results answer (ms @ [m]) c'"
    "\<And>m'. number_of m' \<noteq> i \<Longrightarrow> distinct (cl_futures c) \<Longrightarrow> waits c m' \<Longrightarrow> waits c' m'"
    "distinct (cl_futures c) \<Longrightarrow> distinct (cl_futures c')"
    "cl_pad c' = cl_pad c" "cl_outbox c' = cl_outbox c" "cl_wire c' = cl_wire c" "cl_pending c' = cl_pending c"
    "cl_open c' = cl_open c" "cl_has_connected c' = cl_has_connected c" "cl_fu_id c' = cl_fu_id c"
    "cl_callback_id c' = cl_callback_id c" "cl_callback_map c' \<in> {cl_callback_map c, AList.delete i (cl_callback_map c)}"
proof (cases k)
  case (Future_call name args)
  let ?c = "c\<lparr>cl_temp_req_id := i, cl_resolved := cl_resolved c @ [(i, data)], cl_futures := remove1 i (cl_futures c)\<rparr>"
  have "drop_bit 63 i = 0" using flag_of_taken [OF number] Future_call by simp
  moreover have "i \<in> set (cl_futures c)" using waiting m Future_call by simp
  ultimately have "call_back i None data c = Some ?c" by (simp add: call_back_def)
  moreover have "results answer (ms @ [m]) ?c" using results m Future_call data by (simp add: results_def)
  moreover have "waits ?c m'" if "number_of m' \<noteq> i" "distinct (cl_futures c)" "waits c m'" for m'
    using that by (cases "(c, m')" rule: waits.cases) auto
  ultimately show thesis by (intro that [of ?c]) simp_all
next
  case (Callback_call timeout name cb args)
  then obtain cl where cl: "map_of (cl_callback_map c) i = Some cl" "ct_cb cl = cb" "ct_has_timeout cl \<longrightarrow> timeout \<noteq> 0"
    using waiting m by auto
  let ?x = "if \<not> ct_has_timeout cl then (cb, None, data) else (cb, Some timed_out, [])"
  let ?c = "c\<lparr>cl_temp_req_id := i, cl_called := cl_called c @ [?x],
    cl_callback_map := AList.delete i (cl_callback_map c)\<rparr>"
  have "drop_bit 63 i \<noteq> 0" using flag_of_taken [OF number] Callback_call by simp
  then have "call_back i None data c = Some ?c"
    using cl by (simp add: call_back_def call_callback_def Let_def)
  moreover have "callback_called answer m ?x" using cl(3) m Callback_call data by simp
  then have "results answer (ms @ [m]) ?c"
    using results m Callback_call by (simp add: results_def list_all2_appendI)
  moreover have "waits ?c m'" if "number_of m' \<noteq> i" "waits c m'" for m'
    using that by (cases "(c, m')" rule: waits.cases) (auto simp: delete_conv)
  ultimately show thesis by (intro that [of ?c]) simp_all
qed


lemma body_keeps_inv:
  assumes inv: "callers_inv answer programs d b s"
    and body: "Op_read_body i ty n \<in> set (cl_pending (cs_client s))"
  obtains c' where
    "on_client_body i ty n (Inr (answer (sent_request (last (cs_answered s))))) (cs_client s) = Some c'"
    "b" "callers_inv answer programs d False (s\<lparr>cs_client := c'\<rparr>)" "cl_outbox c' = cl_outbox (cs_client s)"
    "cl_callback_map c' \<in> {cl_callback_map (cs_client s), AList.delete i (cl_callback_map (cs_client s))}"
proof -
  note old = callers_invD [OF inv]
  let ?c = "cs_client s" and ?m = "last (cs_answered s)"
  let ?data = "answer (sent_request ?m)"
  have read: "Op_read_body i ty n \<in> set (filter is_read (cl_pending ?c))" using body by simp
  have b: b
  proof (rule ccontr)
    assume "\<not> b"
    then have "filter is_read (cl_pending ?c) = [Op_read_head]" using old(11) by (simp add: reads_def)
    then show False using read by (simp only: list.set insert_iff empty_iff pending_op.distinct simp_thms)
  qed
  then have reading: "cs_answered s \<noteq> []" "cl_open ?c" "cl_has_connected ?c"
    "filter is_read (cl_pending ?c) = [Op_read_body (number_of ?m) req_res (length ?data)]"
    using old(11) by (simp_all add: reads_def)
  then have op: "i = number_of ?m" "ty = req_res" "n = length ?data"
    using read by (simp_all only: list.set insert_iff empty_iff pending_op.inject simp_thms)
  define c1 where "c1 = ?c\<lparr>cl_pending := remove1 (Op_read_body i ty n) (cl_pending ?c),
    cl_body := ?data @ drop (length ?data) (cl_body ?c)\<rparr>"
  obtain t k i' where m: "?m = (t, k, i')" by (cases ?m)
  have i: "i' = i" using op(1) m by simp
  have split: "cs_answered s = butlast (cs_answered s) @ [?m]" using reading(1) by simp
  have here: "?m \<in> set (cs_numbered s)" using old(6,8) reading(1) last_in_set by blast
  have later: "?m \<notin> set (butlast (cs_answered s))" using old(7) split by (metis distinct_append not_distinct_conv_prefix)
  have "waits ?c ?m" using old(13) [OF here] later b by (simp add: completed_def)
  then have wait: "waits c1 (t, k, i)" using waits_cong [of c1 ?c ?m] m i by (simp add: c1_def)
  have "taken ?c (made ?m) (unat (number_of ?m))" using old(9) here by (simp only: fresh_numbers_def)
  then have "taken ?c k (unat i)" by (simp only: m i made.simps number_of.simps)
  then have number: "taken c1 k (unat i)" using taken_cong [of c1 ?c k "unat i"] by (simp add: c1_def)
  have result: "results answer (butlast (cs_answered s)) c1"
    using results_cong [OF old(14), of c1] b by (simp add: completed_def c1_def)
  obtain c2 where c2: "call_back i None ?data c1 = Some c2" "results answer (butlast (cs_answered s) @ [?m]) c2"
    and others: "\<And>m'. number_of m' \<noteq> i \<Longrightarrow> distinct (cl_futures c1) \<Longrightarrow> waits c1 m' \<Longrightarrow> waits c2 m'"
    "distinct (cl_futures c1) \<Longrightarrow> distinct (cl_futures c2)"
    and same: "cl_pad c2 = cl_pad c1" "cl_outbox c2 = cl_outbox c1" "cl_wire c2 = cl_wire c1" "cl_pending c2 = cl_pending c1"
    "cl_open c2 = cl_open c1" "cl_has_connected c2 = cl_has_connected c1" "cl_fu_id c2 = cl_fu_id c1"
    "cl_callback_id c2 = cl_callback_id c1" "cl_callback_map c2 \<in> {cl_callback_map c1, AList.delete i (cl_callback_map c1)}"
    using answer_resolves [OF m [unfolded i] _ number result refl] wait m i by metis
  have run: "on_client_body i ty n (Inr ?data) ?c = Some (do_read c2)"
    using c2(1) op reading(2) by (simp add: on_client_body_def Let_def c1_def)
  have c2s: "cl_pending c2 = remove1 (Op_read_body i ty n) (cl_pending ?c)" using same(4) by (simp add: c1_def)
  have "callers_inv answer programs d False (s\<lparr>cs_client := do_read c2, cs_answered := cs_answered s\<rparr>)"
  proof (rule handler_keeps_inv [OF inv])
    show "client_out (map sent_request (cs_sent s)) d (do_read c2)"
      using old(10) by (rule client_out_cong) (simp_all add: do_read_def same c1_def count_remove1_other)
    have "filter is_read (cl_pending c2) = []" using reading(4) op by (simp add: c2s filter_remove1_eq)
    then show "reads answer (cs_answered s) False (do_read c2)"
      using reading(2,3) same(5,6) by (simp add: reads_def do_read_def c1_def)
    have "fst ` set (cl_callback_map c2) \<subseteq> fst ` set (cl_callback_map ?c)"
      using same(9) by (elim insertE emptyE) (simp_all add: c1_def fst_set_delete)
    then show "fresh_numbers (sum_list (map to_number (cs_threads s))) (cs_numbered s) (do_read c2)"
      using fresh_cong [OF old(9), of "do_read c2"] same(7,8) by (simp add: do_read_def c1_def)
    show "results answer (completed False (cs_answered s)) (do_read c2)"
      using results_cong [OF c2(2), of "do_read c2"] split by (simp add: completed_def do_read_def)
    show "distinct (cl_futures (do_read c2))" using others(2) old(12) by (simp add: do_read_def c1_def)
    show "waits (do_read c2) m'" if m': "m' \<in> set (cs_numbered s)" "m' \<notin> set (completed False (cs_answered s))" "waits ?c m'" for m'
    proof -
      have "m' \<noteq> ?m" using m'(2) reading(1) by (auto simp: completed_def)
      then have "number_of m' \<noteq> i" using old(9) m'(1) here op(1) by (metis distinct_map fresh_numbers_def inj_on_def)
      then have "waits c2 m'" using others(1) old(12) m'(3) waits_cong [of c1 ?c m'] by (simp add: c1_def)
      then show ?thesis using waits_cong [of "do_read c2" c2 m'] by (simp add: do_read_def)
    qed
  qed (use old(7,8) in \<open>auto simp: completed_def dest: in_set_butlastD\<close>)
  then have "callers_inv answer programs d False (s\<lparr>cs_client := do_read c2\<rparr>)" by simp
  then show thesis using that [OF run b] same(2,9) by (simp add: do_read_def c1_def)
qed


section \<open>Progress\<close>

text \<open>
  How much is left to do: the sections of the calls, the messages to be written, the answers to be
  read, the timers.
\<close>

fun caller_left :: "caller \<Rightarrow> nat" where
  "caller_left (ks, Entered) = 7 * length ks"
| "caller_left (ks, Checked) = 7 * length ks - 1"
| "caller_left (ks, Numbered i) = 7 * length ks - 3"

definition armed :: "client \<Rightarrow> nat" where
  "armed c = length (filter (\<lambda>(i, cl). ct_timer_armed cl) (cl_callback_map c))"

definition callers_left :: "bool \<Rightarrow> callers \<Rightarrow> nat" where
  "callers_left b s = sum_list (map caller_left (cs_threads s)) + length (cl_outbox (cs_client s)) +
     2 * (length (cs_sent s) - length (cs_answered s)) + of_bool b + armed (cs_client s)"

lemma armed_number_callback: "armed (snd (number_callback timeout cb c)) \<le> Suc (armed c)"
  "cl_outbox (snd (number_callback timeout cb c)) = cl_outbox c"
  by (simp_all add: armed_def number_callback_def Let_def)

lemma armed_cong: "cl_callback_map c' = cl_callback_map c \<Longrightarrow> armed c' = armed c"
  by (simp add: armed_def)

lemma armed_delete: "cl_callback_map c' \<in> {cl_callback_map c, AList.delete i (cl_callback_map c)} \<Longrightarrow> armed c' \<le> armed c"
proof -
  have "length (filter P (AList.delete i xs)) \<le> length (filter P xs)" for P and xs :: "(u64 \<times> call_t) list"
    by (induction xs) auto
  then show "cl_callback_map c' \<in> {cl_callback_map c, AList.delete i (cl_callback_map c)} \<Longrightarrow> armed c' \<le> armed c"
    by (auto simp: armed_def)
qed

lemma armed_timer:
  assumes "map_of (cl_callback_map c) i = Some cl" "ct_timer_armed cl"
  shows "armed (on_call_timer i c) < armed c"
proof -
  let ?f = "\<lambda>(j, cl). if j = i then (j, cl\<lparr>ct_has_timeout := True, ct_timer_armed := False\<rparr>) else (j, cl)"
  have le: "length (filter (\<lambda>(i, cl). ct_timer_armed cl) (map ?f xs)) \<le> length (filter (\<lambda>(i, cl). ct_timer_armed cl) xs)" for xs
    by (induction xs) (auto split: if_splits)
  have "map_of xs i = Some cl \<Longrightarrow>
    length (filter (\<lambda>(i, cl). ct_timer_armed cl) (map ?f xs)) < length (filter (\<lambda>(i, cl). ct_timer_armed cl) xs)" for xs
  proof (induction xs)
    case (Cons x xs)
    then show ?case using assms(2) le [of xs] by (cases x) (auto split: if_splits)
  qed simp
  then show ?thesis using assms(1) by (simp add: armed_def on_call_timer_def)
qed

lemma answered_le_sent: "callers_inv answer programs d b s \<Longrightarrow> length (cs_answered s) \<le> length (cs_sent s)"
  using callers_invD(5,7,8) by (metis card_mono distinct_card List.finite_set)

lemma section_left:
  assumes inv: "callers_inv answer programs d b s" and t: "t < length (cs_threads s)"
    and sec: "caller_section (cs_threads s ! t) (cs_client s) = Some (k', c', took, queued)"
  shows "callers_left b (after_section t k' c' took queued s) < callers_left b s"
proof -
  note old = callers_invD [OF inv] and le = answered_le_sent [OF inv]
  have tp: "t < length programs" using old(3) t by (simp add: programmed_def)
  have con: "cl_has_connected (cs_client s)" using old(11) by (simp add: reads_def)
  note sum = sum_list_map_update [OF t, of caller_left k']
  from sec programmed_can_send [OF old(3,1) tp] con show ?thesis
  proof (cases rule: caller_section_cases)
    case (check k ks)
    then show ?thesis using sum by (simp add: callers_left_def)
  next
    case (future name args ks st)
    then have "armed c' = armed (cs_client s)" "cl_outbox c' = cl_outbox (cs_client s)" by (simp_all add: armed_def)
    then show ?thesis using sum future(1-3,5,6) by (cases st) (simp_all add: callers_left_def)
  next
    case (callback timeout name cb args ks i)
    then show ?thesis using sum armed_number_callback [of timeout cb "cs_client s"] by (simp add: callers_left_def)
  next
    case (send k ks i)
    then have "armed c' = armed (cs_client s)" by (simp add: armed_def)
    then show ?thesis using sum send le by (simp add: callers_left_def)
  qed
qed

lemma callers_step_keeps:
  assumes inv: "callers_inv answer programs d b s" and step: "callers_step answer pad s s'" and pad: "length pad = 6"
  shows "\<exists>d' b'. callers_inv answer programs d' b' s' \<and> callers_left b' s' < callers_left b s"
proof -
  note old = callers_invD [OF inv] and le = answered_le_sent [OF inv]
  from step show ?thesis
  proof cases
    case (thread_moves t k' c' took queued)
    then show ?thesis using section_keeps_inv [OF inv thread_moves(2,3)] section_left [OF inv thread_moves(2,3)]
      by (simp only: after_section_def) blast
  next
    case (message_sent c')
    then have c': "c' = write_done (cs_client s)" using on_client_write_done by simp
    have "cl_outbox (cs_client s) \<noteq> []"
      using old(10) message_sent(2) by (auto simp: client_out_def fifo_state_def)
    then have "callers_left b s' < callers_left b s"
      using message_sent(1) c' armed_cong [of c' "cs_client s"] by (simp add: callers_left_def outbox_defs)
    then show ?thesis using written_keeps_inv [OF inv message_sent(2)] message_sent(1) c' by blast
  next
    case (timer_runs_out i cl)
    have "callers_left b s' < callers_left b s"
      using timer_runs_out(1) armed_timer [OF timer_runs_out(2,3)] by (simp add: callers_left_def on_call_timer_def)
    then show ?thesis using timer_keeps_inv [OF inv timer_runs_out(2,3)] timer_runs_out(1) by blast
  next
    case (answer_head m c')
    have m: "m \<in> set (cs_sent s)" using answer_head(3) in_set_takeD by fast
    note keeps = head_keeps_inv [OF inv pad answer_head(2) m answer_head(4,5)]
    have "length (cs_answered s) < length (cs_sent s)"
      using answered_le_sent [OF keeps(2)] by simp
    then have "callers_left True s' < callers_left b s"
      using answer_head(1) keeps(1,3) armed_cong [OF keeps(4)] by (simp add: callers_left_def)
    then show ?thesis using keeps(2) answer_head(1) by blast
  next
    case (answer_body i ty n c')
    obtain c'' where c'': "on_client_body i ty n (Inr (answer (sent_request (last (cs_answered s))))) (cs_client s) = Some c''"
      "b" "callers_inv answer programs d False (s\<lparr>cs_client := c''\<rparr>)" "cl_outbox c'' = cl_outbox (cs_client s)"
      "cl_callback_map c'' \<in> {cl_callback_map (cs_client s), AList.delete i (cl_callback_map (cs_client s))}"
      by (rule body_keeps_inv [OF inv answer_body(2)])
    then have "callers_left False s' < callers_left b s"
      using answer_body(1,4) armed_delete [OF c''(5)] by (simp add: callers_left_def)
    then show ?thesis using c''(1,3) answer_body(1,4) by auto
  qed
qed


text \<open>Unless everything is done, some thread or handler can go on.\<close>

lemma section_enabled:
  assumes "can_send k" "cl_has_connected c"
  shows "\<exists>k' c' took queued. caller_section (k # ks, st) c = Some (k', c', took, queued)"
  using assms send_call_queues [OF assms(1)]
  by (cases "((k # ks, st), c)" rule: caller_section.cases) (auto simp: split_beta)

lemma stopped_all_done:
  assumes inv: "callers_inv answer programs d b s" and stuck: "\<nexists>s'. callers_step answer pad s s'" and pad: "length pad = 6"
  shows "\<forall>t < length programs. fst (cs_threads s ! t) = []" "\<not> b" "set (cs_answered s) = set (cs_sent s)"
    "cl_wire (cs_client s) = map (client_frame (cl_pad (cs_client s)) \<circ> call_msg \<circ> sent_request) (cs_sent s)"
proof -
  note old = callers_invD [OF inv]
  let ?c = "cs_client s"
  have con: "cl_has_connected ?c" using old(11) by (simp add: reads_def)
  show "\<forall>t < length programs. fst (cs_threads s ! t) = []"
  proof (intro allI impI, rule ccontr)
    fix t assume t: "t < length programs" "fst (cs_threads s ! t) \<noteq> []"
    then obtain k ks st where k: "cs_threads s ! t = (k # ks, st)" by (metis list.exhaust prod.collapse)
    have "can_send k" using programmed_can_send [OF old(3,1) t(1)] k by simp
    then obtain k' c' took queued where "caller_section (cs_threads s ! t) ?c = Some (k', c', took, queued)"
      using section_enabled con k by metis
    moreover have "t < length (cs_threads s)" using t(1) old(3) by (simp add: programmed_def)
    ultimately show False using stuck thread_moves [of t s] by blast
  qed
  have queue: "fifo_state cl_outbox cl_wire (\<lambda>c. Op_write \<in> set (cl_pending c)) (client_frame (cl_pad ?c))
      (map call_msg (map sent_request (cs_sent s))) d ?c"
    using old(10) by (simp add: client_out_def)
  have "Op_write \<notin> set (cl_pending ?c)" using stuck message_sent on_client_write_done by blast
  then have "d = length (cs_sent s)" using queue by (simp add: fifo_state_def)
  then show wire: "cl_wire ?c = map (client_frame (cl_pad ?c) \<circ> call_msg \<circ> sent_request) (cs_sent s)"
    using queue by (simp add: fifo_state_def comp_assoc)
  show b: "\<not> b"
  proof
    assume b
    then have reading: "cs_answered s \<noteq> []" "filter is_read (cl_pending ?c) =
      [Op_read_body (number_of (last (cs_answered s))) req_res (length (answer (sent_request (last (cs_answered s)))))]"
      using old(11) by (simp_all add: reads_def)
    let ?op = "Op_read_body (number_of (last (cs_answered s))) req_res (length (answer (sent_request (last (cs_answered s)))))"
    have "?op \<in> set (filter is_read (cl_pending ?c))" unfolding reading(2) by simp
    then have body: "?op \<in> set (cl_pending ?c)" by simp
    obtain c' where
      "on_client_body (number_of (last (cs_answered s))) req_res (length (answer (sent_request (last (cs_answered s)))))
         (Inr (answer (sent_request (last (cs_answered s))))) ?c = Some c'"
      by (rule body_keeps_inv [OF inv body])
    then show False using stuck answer_body [OF body reading(1)] by blast
  qed
  show "set (cs_answered s) = set (cs_sent s)"
  proof (rule ccontr)
    assume "set (cs_answered s) \<noteq> set (cs_sent s)"
    then obtain m where m: "m \<in> set (cs_sent s)" "m \<notin> set (cs_answered s)" using old(8) by blast
    have "filter is_read (cl_pending ?c) = [Op_read_head]" using old(11) b by (simp add: reads_def)
    then have "Op_read_head \<in> set (filter is_read (cl_pending ?c))" by simp
    then have head: "Op_read_head \<in> set (cl_pending ?c)" by simp
    have "m \<in> set (take (length (cl_wire ?c)) (cs_sent s))" using m(1) wire by simp
    moreover have "sendable (answer (sent_request m))" using old(2) by blast
    ultimately show False using stuck answer_head [of s m, OF head _ m(2)] head_of_answer(3) [OF old(11) head pad, of m] by blast
  qed
qed

section \<open>Runs\<close>

lemma callers_inv_new:
  assumes "connected_client host port ok pad h = Some c" "length pad = 6"
    and "\<forall>ks \<in> set programs. \<forall>k \<in> set ks. can_send k" "\<forall>r. sendable (answer r)"
    and "sum_list (map length programs) < 2 ^ 63"
  shows "callers_inv answer programs 0 False (new_callers c programs)"
proof -
  have c: "c = (new_client host port ok pad h)\<lparr>cl_open := True, cl_pending := [Op_read_head], cl_has_connected := True\<rparr>"
    using assms(1)
    by (auto simp: connected_client_def async_connect_def in_handler_def on_connect_def new_client_def do_read_def resend_subscribe_def
        Let_def split: if_splits)
  have "to_number \<circ> (\<lambda>ks. (ks, Entered)) = length" by (rule ext) simp
  then show ?thesis
    using assms(2-5)
    by (simp add: callers_inv_def new_callers_def programmed_def begun_def fresh_numbers_def client_out_def reads_def
        results_def completed_def c new_client_def fifo_state_def one_write_def flag_bit_def)
qed

interpretation calling: decreasing_system "callers_step answer pad"
  "\<lambda>n s. length pad = 6 \<and> (\<exists>d b. callers_inv answer programs d b s \<and> callers_left b s = n)" for answer pad programs
  by unfold_locales (use callers_step_keeps in blast)

lemma reachable_callers:
  assumes "connected_client host port ok pad h = Some c" "length pad = 6" "length pad' = 6"
    and "\<forall>ks \<in> set programs. \<forall>k \<in> set ks. can_send k" "\<forall>r. sendable (answer r)"
    and "sum_list (map length programs) < 2 ^ 63"
    and "(callers_step answer pad')\<^sup>*\<^sup>* (new_callers c programs) s"
  shows "\<exists>d b. callers_inv answer programs d b s"
  using calling.any.reachable_good [OF assms(7), of programs] callers_inv_new [OF assms(1,2,4-6)] assms(3) by blast


lemma callers_runs_end:
  assumes "connected_client host port ok pad h = Some c" "length pad = 6" "length pad' = 6"
    and "\<forall>ks \<in> set programs. \<forall>k \<in> set ks. can_send k" "\<forall>r. sendable (answer r)"
    and "sum_list (map length programs) < 2 ^ 63"
  shows "\<exists>s. (callers_step answer pad')\<^sup>*\<^sup>* (new_callers c programs) s \<and> (\<nexists>s'. callers_step answer pad' s s')"
    "\<nexists>f. f 0 = new_callers c programs \<and> (\<forall>n. callers_step answer pad' (f n) (f (Suc n)))"
proof -
  have start: "callers_inv answer programs 0 False (new_callers c programs)"
    using callers_inv_new [OF assms(1,2,4-6)] .
  then show "\<exists>s. (callers_step answer pad')\<^sup>*\<^sup>* (new_callers c programs) s \<and> (\<nexists>s'. callers_step answer pad' s s')"
    using assms(3) by (intro calling.run_ends [where programs = programs]) auto
  show "\<nexists>f. f 0 = new_callers c programs \<and> (\<forall>n. callers_step answer pad' (f n) (f (Suc n)))"
  proof
    assume "\<exists>f. f 0 = new_callers c programs \<and> (\<forall>n. callers_step answer pad' (f n) (f (Suc n)))"
    then obtain f where f: "f 0 = new_callers c programs" "\<forall>n. callers_step answer pad' (f n) (f (Suc n))" by blast
    have "length pad' = 6 \<and> (\<exists>d b. callers_inv answer programs d b (f 0) \<and> callers_left b (f 0) = callers_left False (f 0))"
      using start assms(3) f(1) by auto
    then show False using calling.no_infinite_run f(2) by blast
  qed
qed

text \<open>Where a run ends.\<close>

lemma callers_end:
  assumes "connected_client host port ok pad h = Some c" "length pad = 6" "length pad' = 6"
    and "\<forall>ks \<in> set programs. \<forall>k \<in> set ks. can_send k" "\<forall>r. sendable (answer r)"
    and "sum_list (map length programs) < 2 ^ 63"
    and "(callers_step answer pad')\<^sup>*\<^sup>* (new_callers c programs) s" "\<nexists>s'. callers_step answer pad' s s'"
  shows "\<forall>t < length programs. map made (filter (\<lambda>m. fst m = t) (cs_sent s)) = programs ! t"
    "mset (cs_answered s) = mset (cs_sent s)"
    "cl_resolved (cs_client s) = map (\<lambda>m. (number_of m, answer (sent_request m)))
       (filter (\<lambda>m. \<not> is_callback (made m)) (cs_answered s))"
    "list_all2 (callback_called answer) (filter (\<lambda>m. is_callback (made m)) (cs_answered s)) (cl_called (cs_client s))"
    "distinct (map number_of (cs_answered s))" "\<forall>m \<in> set (cs_sent s). fst m < length programs"
proof -
  obtain d b where inv: "callers_inv answer programs d b s" using reachable_callers [OF assms(1-7)] by blast
  note old = callers_invD [OF inv] and end_facts = stopped_all_done [OF inv assms(8,3)]
  show "\<forall>t < length programs. map made (filter (\<lambda>m. fst m = t) (cs_sent s)) = programs ! t"
    "\<forall>m \<in> set (cs_sent s). fst m < length programs"
    using old(3) end_facts(1) by (auto simp: programmed_def)
  show "mset (cs_answered s) = mset (cs_sent s)"
    using old(5,7) end_facts(3) by (simp add: set_eq_iff_mset_eq_distinct)
  show "cl_resolved (cs_client s) = map (\<lambda>m. (number_of m, answer (sent_request m)))
       (filter (\<lambda>m. \<not> is_callback (made m)) (cs_answered s))"
    "list_all2 (callback_called answer) (filter (\<lambda>m. is_callback (made m)) (cs_answered s)) (cl_called (cs_client s))"
    using old(14) end_facts(2) by (simp_all add: completed_def results_def)
  have "inj_on number_of (set (cs_numbered s))" using old(9) by (simp add: fresh_numbers_def distinct_map)
  then have "inj_on number_of (set (cs_answered s))" using inj_on_subset old(6,8) by blast
  then show "distinct (map number_of (cs_answered s))" using old(7) by (simp add: distinct_map)
qed

text \<open>Counting the messages of threads \<open>0\<close> to \<open>n - 1\<close> thread by thread.\<close>

lemma sum_by_thread:
  "\<forall>m \<in> set xs. fst m < n \<Longrightarrow> sum_list (map (\<lambda>t. length (filter (\<lambda>m. fst m = t) xs)) [0..<n]) = length xs"
proof (induction xs)
  case (Cons x xs)
  have "sum_list (map (\<lambda>t. length (filter (\<lambda>m. fst m = t) (x # xs))) [0..<n]) =
      sum_list (map (\<lambda>t. of_bool (fst x = t) + length (filter (\<lambda>m. fst m = t) xs)) [0..<n])"
    by (rule arg_cong [where f = sum_list]) simp
  also have "\<dots> = sum_list (map (\<lambda>t. of_bool (fst x = t)) [0..<n]) + length xs"
    using Cons by (simp add: sum_list_addf)
  also have "sum_list (map (\<lambda>t. of_bool (fst x = t)) [0..<n]) = (1 :: nat)"
    using Cons.prems by (simp add: interv_sum_list_conv_sum_set_nat of_bool_def)
  finally show ?case by simp
qed (simp add: sum_list_0)

lemma callers_count:
  assumes "\<forall>t < length programs. map made (filter (\<lambda>m. fst m = t) (cs_sent s)) = programs ! t"
    "\<forall>m \<in> set (cs_sent s). fst m < length programs"
  shows "length (cs_sent s) = sum_list (map length programs)"
proof -
  have "map (\<lambda>t. length (filter (\<lambda>m. fst m = t) (cs_sent s))) [0..<length programs] = map length programs"
    using assms(1) by (intro nth_equalityI) (simp_all, metis length_map)
  then show ?thesis using sum_by_thread [OF assms(2)] by simp
qed

section \<open>How long a packed call is\<close>

text \<open>At most this many bytes, as long as that is below the limit of the size.\<close>

fun pack_room :: "cval \<Rightarrow> nat" and pack_rooms :: "cval list \<Rightarrow> nat" where
  "pack_room (V_int d) = 9"
| "pack_room (V_size_t d) = 9"
| "pack_room (V_bool b) = 1"
| "pack_room (V_string v) = 5 + length v"
| "pack_room (V_wstring v) = 5 + 9 * length v"
| "pack_room (V_tuple vs) = 5 + pack_rooms vs"
| "pack_room (V_struct vs) = 5 + pack_rooms vs"
| "pack_rooms [] = 0"
| "pack_rooms (v # vs) = pack_room v + pack_rooms vs"

lemma length_pack_numbers:
  "length (pack_imp_uint64 d) \<le> 9" "length (pack_imp_int64 d) \<le> 9" "length (pack_int i) \<le> 9"
  "length (pack_wchar w) \<le> 9" "length (pack_array n) \<le> 5"
  by (simp_all add: pack_imp_uint64_def pack_imp_int64_def pack_int_def pack_imp_int32_def pack_wchar_def pack_array_def)

lemma length_pack_wchars: "length (concat (map pack_wchar v)) \<le> 9 * length v"
proof (induction v)
  case (Cons w v)
  then show ?case using length_pack_numbers(4) [of w] by simp
qed simp

lemma append_within:
  "\<exists>b. r = Inr b \<and> length b \<le> m \<Longrightarrow> \<exists>b. r' = Inr b \<and> length b \<le> n \<Longrightarrow>
   \<exists>b. append_res r r' = Inr b \<and> length b \<le> m + n"
  by (auto simp: append_res_def)

lemma packed_within_room:
  "pack_room v < MAX_BUF_LEN \<Longrightarrow> \<exists>b. pack_value v = Inr b \<and> length b \<le> pack_room v"
  "pack_rooms vs < MAX_BUF_LEN \<Longrightarrow> \<exists>b. pack_values vs = Inr b \<and> length b \<le> pack_rooms vs"
proof (induction v and vs rule: pack_room_pack_rooms.induct)
  case (4 v)
  then have "length v \<le> 4294967295" by (simp add: MAX_BUF_LEN_def)
  then show ?case using length_pack_str [of "of_nat (length v)"]
    by (simp add: pack_string_def checked_get_container_size_def pack_body_def le_diff_conv2)
next
  case (5 v)
  then have "length v \<le> 4294967295" by (simp add: MAX_BUF_LEN_def)
  then show ?case using length_pack_numbers(5) [of "of_nat (length v)"] length_pack_wchars [of v]
    by (simp add: pack_wstring_def checked_get_container_size_def)
next
  case (6 vs)
  then show ?case using length_pack_numbers(5) by (auto intro: append_within)
next
  case (7 vs)
  then show ?case using length_pack_numbers(5) by (auto intro: append_within)
next
  case (9 v vs)
  then show ?case by (auto intro: append_within)
qed (use length_pack_numbers in \<open>simp_all add: pack_unsigned_long_def pack_true_def pack_false_def\<close>)

lemma can_send_small: "5 + pack_rooms (call_args k) < MAX_BUF_LEN \<Longrightarrow> can_send k"
  using packed_within_room(1) [of "V_tuple (call_args k)"] by (auto simp: can_send_def pack_args_def)

lemma six_bytes: "length [0, 0, 0, 0, 0, 0 :: 8 word] = 6"
  by simp

lemma const_sendable: "\<forall>r. sendable ((\<lambda>r. [7]) r)"
  by (simp add: sendable_def MAX_BUF_LEN_def)

text \<open>A client, two threads and a server that answers everything with one byte.\<close>

definition two_threads :: "client_call list list" where
  "two_threads = [[Future_call (lit ''add'') [V_int 1, V_int 2]], [Callback_call 100 (lit ''echo'') 4 [V_string (lit ''test'')]]]"

lemma two_threads_send:
  "\<forall>ks \<in> set two_threads. \<forall>k \<in> set ks. can_send k" "sum_list (map length two_threads) < 2 ^ 63"
  by (auto simp: two_threads_def intro!: can_send_small) (simp_all add: MAX_BUF_LEN_def lit_def)

definition ready_client :: client where
  "ready_client = (new_client (lit ''127.0.0.1'') 9000 (\<lambda>_. True) [0, 0, 0, 0, 0, 0] blank_header)
     \<lparr>cl_open := True, cl_pending := [Op_read_head], cl_has_connected := True\<rparr>"

lemma ready_client_connected:
  "connected_client (lit ''127.0.0.1'') 9000 (\<lambda>_. True) [0, 0, 0, 0, 0, 0] blank_header = Some ready_client"
  by (simp add: connected_client_def async_connect_def in_handler_def on_connect_def new_client_def do_read_def resend_subscribe_def
      ready_client_def Let_def)

text \<open>A run to its end.\<close>

lemma two_threads_run:
  "\<exists>s. (callers_step (\<lambda>r. [7]) [0, 0, 0, 0, 0, 0])\<^sup>*\<^sup>* (new_callers ready_client two_threads) s \<and>
     (\<nexists>s'. callers_step (\<lambda>r. [7]) [0, 0, 0, 0, 0, 0] s s')"
proof -
  have "callers_inv (\<lambda>r. [7]) two_threads 0 False (new_callers ready_client two_threads)"
    by (rule callers_inv_new [OF ready_client_connected _ two_threads_send(1) const_sendable two_threads_send(2)]) simp
  then show ?thesis by (intro calling.run_ends [where programs = two_threads]) auto
qed

section \<open>Numbers on the wire\<close>

text \<open>
  The two sections of a call are not one: the thread that takes its number first can be the second
  to queue its message, so numbers need not ascend on the wire.
\<close>

lemma section_step:
  "t < length (cs_threads s) \<Longrightarrow> caller_section (cs_threads s ! t) (cs_client s) = Some (k', c', took, queued) \<Longrightarrow>
   callers_step answer pad s (after_section t k' c' took queued s)"
  unfolding after_section_def by (rule thread_moves)

lemma numbers_overtake:
  assumes "can_send k" "k = Future_call name args"
  shows "\<exists>s. (callers_step answer pad)\<^sup>*\<^sup>* (new_callers c [[k], [k]]) s \<and>
    map number_of (cs_sent s) = [cl_fu_id c + 2, cl_fu_id c + 1]"
proof -
  let ?s0 = "new_callers c [[k], [k]]" and ?i = "cl_fu_id c + 1" and ?j = "cl_fu_id c + 1 + 1"
  define c1 where "c1 = snd (number_future c)"
  define c2 where "c2 = snd (number_future c1)"
  let ?s1 = "after_section 0 ([k], Numbered ?i) c1 (Some ?i) None ?s0"
  let ?s2 = "after_section 1 ([k], Numbered ?j) c2 (Some ?j) None ?s1"
  define c3 where "c3 = enqueue_message (call_msg (?j, hash_name (call_name k), packed (call_args k))) c2"
  define c4 where "c4 = enqueue_message (call_msg (?i, hash_name (call_name k), packed (call_args k))) c3"
  let ?s3 = "after_section 1 ([], Entered) c3 None (Some ?j) ?s2"
  let ?s4 = "after_section 0 ([], Entered) c4 None (Some ?i) ?s3"
  have 1: "callers_step answer pad ?s0 ?s1"
    by (rule section_step) (simp_all add: new_callers_def assms(2) c1_def split_beta)
  have 2: "callers_step answer pad ?s1 ?s2"
    by (rule section_step) (simp_all add: new_callers_def assms(2) c1_def c2_def split_beta)
  have 3: "callers_step answer pad ?s2 ?s3"
    by (rule section_step) (simp_all add: new_callers_def send_call_queues [OF assms(1)] c3_def)
  have 4: "callers_step answer pad ?s3 ?s4"
    by (rule section_step) (simp_all add: new_callers_def send_call_queues [OF assms(1)] c4_def)
  have "(callers_step answer pad)\<^sup>*\<^sup>* ?s0 ?s4"
    by (rule converse_rtranclp_into_rtranclp, rule 1, rule converse_rtranclp_into_rtranclp, rule 2,
      rule converse_rtranclp_into_rtranclp, rule 3, rule converse_rtranclp_into_rtranclp, rule 4, rule rtranclp.rtrancl_refl)
  moreover have "map number_of (cs_sent ?s4) = [cl_fu_id c + 2, cl_fu_id c + 1]"
    by (simp add: new_callers_def)
  ultimately show ?thesis by (intro exI [of _ ?s4] conjI)
qed

section \<open>Properties\<close>

text \<open>C10. Whatever the interleaving of the threads that share a client with its own thread, each thread's
  requests are queued in the order of its program, the frames on the wire are the queued requests whole
  and in the order in which they were queued, and no two calls have the same number.\<close>

theorem callers_in_order:
  assumes "connected_client host port ok pad h = Some c" "length pad = 6" "length pad' = 6"
    and "\<forall>ks \<in> set programs. \<forall>k \<in> set ks. can_send k" "\<forall>r. sendable (answer r)"
    and "sum_list (map length programs) < 2 ^ 63"
    and "(callers_step answer pad')\<^sup>*\<^sup>* (new_callers c programs) s"
  shows "(\<forall>t < length programs.
       map made (filter (\<lambda>m. fst m = t) (cs_sent s)) @ fst (cs_threads s ! t) = programs ! t) \<and>
    (\<exists>n. cl_wire (cs_client s) = map (\<lambda>m. client_frame (cl_pad (cs_client s)) (call_msg (sent_request m))) (take n (cs_sent s))) \<and>
    distinct (map number_of (cs_numbered s)) \<and> set (cs_sent s) \<subseteq> set (cs_numbered s)"
proof -
  obtain d b where inv: "callers_inv answer programs d b s" using reachable_callers [OF assms] by blast
  note old = callers_invD [OF inv]
  have "cl_wire (cs_client s) = map (\<lambda>m. client_frame (cl_pad (cs_client s)) (call_msg (sent_request m))) (take (Suc d) (cs_sent s))"
    using old(10) by (simp add: client_out_def fifo_state_def take_map comp_def)
  then show ?thesis using old(3,6,9) by (auto simp: programmed_def fresh_numbers_def)
qed

theorem callers_in_order_witness:
  "\<exists>s n. (callers_step (\<lambda>r. [7]) [0, 0, 0, 0, 0, 0])\<^sup>*\<^sup>* (new_callers ready_client two_threads) s \<and>
     cl_wire (cs_client s) = map (\<lambda>m. client_frame (cl_pad (cs_client s)) (call_msg (sent_request m))) (take n (cs_sent s)) \<and>
     distinct (map number_of (cs_numbered s))"
proof -
  obtain s where s: "(callers_step (\<lambda>r. [7]) [0, 0, 0, 0, 0, 0])\<^sup>*\<^sup>* (new_callers ready_client two_threads) s"
    using two_threads_run by blast
  from callers_in_order [OF ready_client_connected six_bytes six_bytes two_threads_send(1) const_sendable two_threads_send(2) s]
  show ?thesis using s by blast
qed

text \<open>C9. And every run of them ends, with all calls of all threads sent and answered: every future is
  set to the answer to its own request, every callback called once with the answer to its own request
  or, when its timer ran out first, with \<open>timed_out\<close>. No handler fails an assertion on the way.\<close>

theorem callers_all_answered:
  assumes "connected_client host port ok pad h = Some c" "length pad = 6" "length pad' = 6"
    and "\<forall>ks \<in> set programs. \<forall>k \<in> set ks. can_send k" "\<forall>r. sendable (answer r)"
    and "sum_list (map length programs) < 2 ^ 63"
  shows "(\<nexists>f. f 0 = new_callers c programs \<and> (\<forall>n. callers_step answer pad' (f n) (f (Suc n)))) \<and>
    (\<forall>s. (callers_step answer pad')\<^sup>*\<^sup>* (new_callers c programs) s \<longrightarrow> (\<nexists>s'. callers_step answer pad' s s') \<longrightarrow>
       (\<forall>t < length programs. map made (filter (\<lambda>m. fst m = t) (cs_sent s)) = programs ! t) \<and>
       mset (cs_answered s) = mset (cs_sent s) \<and>
       cl_resolved (cs_client s) = map (\<lambda>m. (number_of m, answer (sent_request m)))
         (filter (\<lambda>m. \<not> is_callback (made m)) (cs_answered s)) \<and>
       list_all2 (callback_called answer) (filter (\<lambda>m. is_callback (made m)) (cs_answered s))
         (cl_called (cs_client s)))"
  using callers_runs_end(2) [OF assms] callers_end [OF assms] by blast

theorem callers_all_answered_witness:
  "\<exists>s. (callers_step (\<lambda>r. [7]) [0, 0, 0, 0, 0, 0])\<^sup>*\<^sup>* (new_callers ready_client two_threads) s \<and>
     mset (cs_answered s) = mset (cs_sent s) \<and>
     map made (filter (\<lambda>m. fst m = 0) (cs_sent s)) = [Future_call (lit ''add'') [V_int 1, V_int 2]]"
proof -
  obtain s where s: "(callers_step (\<lambda>r. [7]) [0, 0, 0, 0, 0, 0])\<^sup>*\<^sup>* (new_callers ready_client two_threads) s"
    "\<nexists>s'. callers_step (\<lambda>r. [7]) [0, 0, 0, 0, 0, 0] s s'" using two_threads_run by blast
  have first: "0 < length two_threads" "two_threads ! 0 = [Future_call (lit ''add'') [V_int 1, V_int 2]]"
    by (simp_all add: two_threads_def)
  from callers_all_answered [OF ready_client_connected six_bytes six_bytes two_threads_send(1) const_sendable two_threads_send(2)]
  have "mset (cs_answered s) = mset (cs_sent s)"
    "\<forall>t < length two_threads. map made (filter (\<lambda>m. fst m = t) (cs_sent s)) = two_threads ! t"
    using s by blast+
  then show ?thesis using s(1) first by auto
qed

end
