(* ===== verification/Example_Threads.thy ===== *)
theory Example_Threads imports Client_Threads Example_Client begin

text \<open>
  \<open>test_multiple_thread\<close> and \<open>test_threads\<close> of \<open>example/client/client.cpp\<close>: several threads share a
  client. Here are the programs of their threads; \<open>Client_Threads\<close> runs them.
\<close>

section \<open>Programs\<close>

definition multiple_thread_program :: "client_call list" where
  "multiple_thread_program = replicate 1000000 (Callback_call 0 (lit ''get_name'') 0 [V_person tom])"

text \<open>The threads per client, for the results of the four \<open>connect\<close>s: the first failure ends the test.\<close>

fun test_multiple_thread :: "bool list \<Rightarrow> client_call list list list" where
  "test_multiple_thread [] = []"
| "test_multiple_thread (r # rs) =
     (if r then replicate 2 multiple_thread_program # test_multiple_thread rs else [])"

text \<open>The main thread, \<open>thd1\<close> and \<open>thd2\<close>; the number of a callback is the value of its \<open>i\<close>.\<close>

definition test_threads :: "client_call list list" where
  "test_threads =
     [replicate 1000000 (Future_call (lit ''echo'') [V_string (lit ''test'')]),
      replicate 1000000 (Future_call (lit ''echo'') [V_string (lit ''test'')]),
      map (\<lambda>i. Callback_call DEFAULT_TIMEOUT (lit ''get_int'') i [V_size_t (of_nat i)]) [1000000..<2000000]]"

lemma small_calls:
  "can_send (Callback_call 0 (lit ''get_name'') 0 [V_person tom])"
  "can_send (Future_call (lit ''echo'') [V_string (lit ''test'')])"
  "can_send (Callback_call t (lit ''get_int'') cb [V_size_t i])"
  by (rule can_send_small, simp add: MAX_BUF_LEN_def V_person_def tom_def lit_def)+

text \<open>All their calls are small enough to be sent, and few enough to have numbers of their own.\<close>

lemma two_copies: "replicate 2 x = [x, x]"
  by (simp add: numeral_2_eq_2)

lemma threads_of_one_client:
  "programs \<in> set (test_multiple_thread rs) \<Longrightarrow> programs = replicate 2 multiple_thread_program"
  by (induction rs) (auto split: if_splits)

lemma test_programs_send:
  assumes "programs = test_threads \<or> programs \<in> set (test_multiple_thread rs)"
  shows "\<forall>ks \<in> set programs. \<forall>k \<in> set ks. can_send k" "sum_list (map length programs) < 2 ^ 63"
proof -
  consider "programs = test_threads" | "programs = replicate 2 multiple_thread_program"
    using assms threads_of_one_client by blast
  then have "(\<forall>ks \<in> set programs. \<forall>k \<in> set ks. can_send k) \<and> sum_list (map length programs) < 2 ^ 63"
    by cases (auto simp: test_threads_def multiple_thread_program_def small_calls two_copies simp del: upt_rec_numeral)
  then show "\<forall>ks \<in> set programs. \<forall>k \<in> set ks. can_send k" "sum_list (map length programs) < 2 ^ 63" by blast+
qed

section \<open>Properties\<close>

text \<open>The threads of \<open>test_threads\<close>, and those that share a client in \<open>test_multiple_thread\<close>, make all
  their calls in every run against a server that answers, whatever the interleaving: every run ends, a
  future of every \<open>echo\<close> is set to its own answer, and every callback is called exactly once.\<close>

theorem test_threads_answered:
  assumes "programs = test_threads \<or> programs \<in> set (test_multiple_thread rs)"
    and "connected_client host port ok pad h = Some c" "length pad = 6" "length pad' = 6" "\<forall>r. sendable (answer r)"
  shows "(\<exists>s. (callers_step answer pad')\<^sup>*\<^sup>* (new_callers c programs) s \<and> (\<nexists>s'. callers_step answer pad' s s')) \<and>
    (\<forall>s. (callers_step answer pad')\<^sup>*\<^sup>* (new_callers c programs) s \<longrightarrow> (\<nexists>s'. callers_step answer pad' s s') \<longrightarrow>
       length (cl_resolved (cs_client s)) + length (cl_called (cs_client s)) = sum_list (map length programs) \<and>
       distinct (map fst (cl_resolved (cs_client s))))"
proof (intro conjI allI impI)
  note runs = assms(2-4) test_programs_send(1) [OF assms(1)] assms(5) test_programs_send(2) [OF assms(1)]
  show "\<exists>s. (callers_step answer pad')\<^sup>*\<^sup>* (new_callers c programs) s \<and> (\<nexists>s'. callers_step answer pad' s s')"
    using callers_runs_end(1) [OF runs] .
  fix s assume "(callers_step answer pad')\<^sup>*\<^sup>* (new_callers c programs) s" "\<nexists>s'. callers_step answer pad' s s'"
  note at_end = callers_end [OF runs this]
  have "length (cs_answered s) = length (cs_sent s)" using at_end(2) mset_eq_length by blast
  moreover have "length (cs_sent s) = sum_list (map length programs)" using callers_count at_end(1,6) by blast
  moreover have "length (cl_called (cs_client s)) = length (filter (\<lambda>m. is_callback (made m)) (cs_answered s))"
    using at_end(4) by (simp add: list_all2_lengthD)
  ultimately show "length (cl_resolved (cs_client s)) + length (cl_called (cs_client s)) = sum_list (map length programs)"
    using at_end(3) sum_length_filter_compl [of "\<lambda>m. is_callback (made m)" "cs_answered s"] by simp
  have "map fst (cl_resolved (cs_client s)) = map number_of (filter (\<lambda>m. \<not> is_callback (made m)) (cs_answered s))"
    by (simp add: at_end(3) comp_def)
  then show "distinct (map fst (cl_resolved (cs_client s)))" using at_end(5) by (simp add: distinct_map_filter)
qed

text \<open>Three million calls of \<open>test_threads\<close>.\<close>

theorem test_threads_answered_witness:
  "\<exists>s. (callers_step (\<lambda>r. [7]) [0, 0, 0, 0, 0, 0])\<^sup>*\<^sup>* (new_callers ready_client test_threads) s \<and>
     length (cl_resolved (cs_client s)) + length (cl_called (cs_client s)) = 3000000"
proof -
  have total: "sum_list (map length test_threads) = 3000000"
    by (simp add: test_threads_def del: upt_rec_numeral)
  show ?thesis
    using test_threads_answered [OF disjI1 [OF refl] ready_client_connected six_bytes six_bytes const_sendable]
    unfolding total by blast
qed

end
