(* ===== verification/Meta_Util.thy ===== *)
theory Meta_Util imports Main begin

text \<open>
  \<open>include/rest_rpc/meta_util.hpp\<close> and \<open>cplusplus_14.h\<close>: sequences of indices, calls with the elements
  of a tuple, and the types that \<open>function_traits\<close> reads off a registered function. A tuple is the
  list of its elements, a pack of types the list of the types, a functor that is called for its effect
  a function on the state.
\<close>

section \<open>Index sequences\<close>

fun merge_and_renumber :: "nat list \<Rightarrow> nat list \<Rightarrow> nat list" where
  "merge_and_renumber is js = is @ map (\<lambda>j. length is + j) js"

text \<open>The template for \<open>N\<close> instantiates itself for both halves.\<close>

function make_index_sequence :: "nat \<Rightarrow> nat list" where
  "make_index_sequence n =
     (if n = 0 then [] else if n = 1 then [0]
      else merge_and_renumber (make_index_sequence (n div 2)) (make_index_sequence (n - n div 2)))"
  by auto
termination by (relation "measure id") auto

declare make_index_sequence.simps [simp del]

definition index_sequence_for :: "'t list \<Rightarrow> nat list" where
  "index_sequence_for ts = make_index_sequence (length ts)"

lemma make_index_sequence_upt: "make_index_sequence n = [0..<n]"
proof (induction n rule: make_index_sequence.induct)
  case (1 n)
  show ?case
  proof (cases "n = 0 \<or> n = 1")
    case True
    then show ?thesis by (subst make_index_sequence.simps) auto
  next
    case False
    have "[0..<n div 2] @ map (\<lambda>j. n div 2 + j) [0..<n - n div 2] = [0..<n]"
      using map_add_upt [of "n div 2" "n - n div 2"] upt_add_eq_append [of 0 "n div 2" "n - n div 2"]
      by (simp add: add.commute)
    then show ?thesis using 1 False by (subst make_index_sequence.simps) simp
  qed
qed

section \<open>Tuples\<close>

definition apply_helper :: "('e list \<Rightarrow> 'r) \<Rightarrow> 'e list \<Rightarrow> nat list \<Rightarrow> 'r" where
  "apply_helper f tp is = f (map (\<lambda>i. tp ! i) is)"

definition apply_tuple :: "('e list \<Rightarrow> 'r) \<Rightarrow> 'e list \<Rightarrow> 'r" where
  "apply_tuple f tp = apply_helper f tp (make_index_sequence (length tp))"

text \<open>The elements of an initializer list are evaluated from left to right.\<close>

definition for_each :: "'e list \<Rightarrow> ('e \<Rightarrow> 's \<Rightarrow> 's) \<Rightarrow> nat list \<Rightarrow> 's \<Rightarrow> 's" where
  "for_each t f is s = fold (\<lambda>i. f (t ! i)) is s"

definition for_each_i :: "'e list \<Rightarrow> ('e \<Rightarrow> nat \<Rightarrow> 's \<Rightarrow> 's) \<Rightarrow> nat list \<Rightarrow> 's \<Rightarrow> 's" where
  "for_each_i t f is s = fold (\<lambda>i. f (t ! i) i) is s"

definition tuple_switch_at :: "nat \<Rightarrow> (nat \<Rightarrow> 's \<Rightarrow> 's) \<Rightarrow> nat list \<Rightarrow> 's \<Rightarrow> 's" where
  "tuple_switch_at i f is s = fold (\<lambda>j s. if i = j then f j s else s) is s"

definition tuple_switch :: "nat \<Rightarrow> 'e list \<Rightarrow> (nat \<Rightarrow> 's \<Rightarrow> 's) \<Rightarrow> 's \<Rightarrow> 's" where
  "tuple_switch i t f s = tuple_switch_at i f (make_index_sequence (length t)) s"

text \<open>\<open>make_tuple_from_sequence\<close> has no \<open>return\<close>: what a call of it yields is undefined.\<close>

definition tuple_from_sequence :: "nat list \<Rightarrow> nat list option" where
  "tuple_from_sequence is = None"

definition make_tuple_from_sequence :: "nat \<Rightarrow> nat list option" where
  "make_tuple_from_sequence n = tuple_from_sequence (make_index_sequence n)"

lemma tuple_switch_at_upt: "tuple_switch_at i f [0..<n] s = (if i < n then f i s else s)"
  by (induction n) (auto simp: tuple_switch_at_def)

lemma map_nth_fold: "fold (\<lambda>i. f (t ! i)) [0..<length t] s = fold f t s"
  using fold_map [of f "nth t" "[0..<length t]"] by (simp add: map_nth comp_def)

section \<open>Types\<close>

text \<open>C++ types over the unqualified ones.\<close>

datatype 'b ctype = Plain 'b | Const "'b ctype" | Lvalue_ref "'b ctype" | Rvalue_ref "'b ctype"

fun remove_reference :: "'b ctype \<Rightarrow> 'b ctype" where
  "remove_reference (Lvalue_ref t) = t"
| "remove_reference (Rvalue_ref t) = t"
| "remove_reference t = t"

fun remove_const :: "'b ctype \<Rightarrow> 'b ctype" where
  "remove_const (Const t) = t"
| "remove_const t = t"

definition remove_const_reference :: "'b ctype \<Rightarrow> 'b ctype" where
  "remove_const_reference t = remove_const (remove_reference t)"

definition nth_type_of :: "nat \<Rightarrow> 't list \<Rightarrow> 't" where
  "nth_type_of n ts = ts ! n"

definition last_type_of :: "'t list \<Rightarrow> 't" where
  "last_type_of ts = nth_type_of (length ts - 1) ts"

text \<open>What \<open>function_traits\<close> is specialised for; a function object goes through its \<open>operator()\<close>.\<close>

datatype 'b callable =
    Function "'b ctype" "'b ctype list"
  | Function_pointer "'b ctype" "'b ctype list"
  | Std_function "'b ctype" "'b ctype list"
  | Member_function "'b ctype" 'b "'b ctype list"
  | Const_member_function "'b ctype" 'b "'b ctype list"
  | Function_object "'b callable"

text \<open>The \<open>tuple\<close> types as the lists of their components; \<open>str\<close> is \<open>std::string\<close>.\<close>

record 'b traits =
  ft_arity :: nat
  ft_return_type :: "'b ctype"
  ft_tuple_type :: "'b ctype list"
  ft_bare_tuple_type :: "'b ctype list"
  ft_args_tuple :: "'b ctype list"
  ft_args_tuple_2nd :: "'b ctype list"

fun function_type_traits :: "'b \<Rightarrow> 'b ctype \<Rightarrow> 'b ctype list \<Rightarrow> 'b traits" where
  "function_type_traits str ret (arg # args) =
     \<lparr>ft_arity = length args + 1, ft_return_type = ret, ft_tuple_type = arg # args,
      ft_bare_tuple_type = map remove_const_reference args,
      ft_args_tuple = Plain str # arg # map remove_const_reference args,
      ft_args_tuple_2nd = Plain str # map remove_const_reference args\<rparr>"
| "function_type_traits str ret [] =
     \<lparr>ft_arity = 0, ft_return_type = ret, ft_tuple_type = [], ft_bare_tuple_type = [],
      ft_args_tuple = [Plain str], ft_args_tuple_2nd = [Plain str]\<rparr>"

fun function_traits :: "'b \<Rightarrow> 'b callable \<Rightarrow> 'b traits" where
  "function_traits str (Function ret args) = function_type_traits str ret args"
| "function_traits str (Function_pointer ret args) = function_type_traits str ret args"
| "function_traits str (Std_function ret args) = function_type_traits str ret args"
| "function_traits str (Member_function ret cls args) = function_type_traits str ret args"
| "function_traits str (Const_member_function ret cls args) = function_type_traits str ret args"
| "function_traits str (Function_object call_operator) = function_traits str call_operator"

text \<open>No reference to a reference, no constant of a constant or of a reference.\<close>

fun legal_type :: "'b ctype \<Rightarrow> bool" where
  "legal_type (Plain b) \<longleftrightarrow> True"
| "legal_type (Const t) \<longleftrightarrow> (\<exists>b. t = Plain b)"
| "legal_type (Lvalue_ref t) \<longleftrightarrow> legal_type t \<and> (\<nexists>u. t = Lvalue_ref u \<or> t = Rvalue_ref u)"
| "legal_type (Rvalue_ref t) \<longleftrightarrow> legal_type t \<and> (\<nexists>u. t = Lvalue_ref u \<or> t = Rvalue_ref u)"

lemma bare_type: "legal_type t \<Longrightarrow> \<exists>b. remove_const_reference t = Plain b"
proof (cases t)
  case (Lvalue_ref u)
  moreover assume "legal_type t"
  ultimately show ?thesis by (cases u) (auto simp: remove_const_reference_def)
next
  case (Rvalue_ref u)
  moreover assume "legal_type t"
  ultimately show ?thesis by (cases u) (auto simp: remove_const_reference_def)
qed (auto simp: remove_const_reference_def)

section \<open>Properties\<close>

text \<open>C40. The halving \<open>make_index_sequence<N>\<close> is the sequence from 0 to \<open>N - 1\<close>, so that \<open>apply\<close> calls the
  function with the whole tuple, \<open>for_each\<close> and \<open>for_each_i\<close> visit every element once and in order, and
  \<open>tuple_switch\<close> calls its functor with the chosen index, and not at all beyond the end.\<close>

theorem tuples_by_index:
  "make_index_sequence n = [0..<n] \<and> apply_tuple f t = f t \<and>
   for_each t g (index_sequence_for t) s = fold g t s \<and>
   for_each_i t h (index_sequence_for t) s = fold (\<lambda>(e, i). h e i) (zip t [0..<length t]) s \<and>
   tuple_switch i t k s = (if i < length t then k i s else s)"
proof (intro conjI)
  show "apply_tuple f t = f t"
    by (simp add: apply_tuple_def apply_helper_def make_index_sequence_upt map_nth)
  show "for_each t g (index_sequence_for t) s = fold g t s"
    by (simp add: for_each_def index_sequence_for_def make_index_sequence_upt map_nth_fold)
  have "zip t [0..<length t] = map (\<lambda>i. (t ! i, i)) [0..<length t]"
    by (rule nth_equalityI) simp_all
  then show "for_each_i t h (index_sequence_for t) s = fold (\<lambda>(e, i). h e i) (zip t [0..<length t]) s"
    by (simp add: for_each_i_def index_sequence_for_def make_index_sequence_upt fold_map comp_def)
  show "tuple_switch i t k s = (if i < length t then k i s else s)"
    by (simp add: tuple_switch_def make_index_sequence_upt tuple_switch_at_upt)
qed (rule make_index_sequence_upt)

text \<open>The types \<open>unpack\<close> is called with are those of the parameters behind the first, all of them
  values: neither references nor constants.\<close>

theorem bare_types_are_values:
  assumes "\<forall>t \<in> set (ft_tuple_type (function_traits str f)). legal_type t"
  shows "length (ft_bare_tuple_type (function_traits str f)) = ft_arity (function_traits str f) - 1 \<and>
    (\<exists>bs. ft_bare_tuple_type (function_traits str f) = map Plain bs)"
proof -
  have "\<exists>ret args. function_traits str f = function_type_traits str ret args" by (induction f) auto
  then obtain ret args where f: "function_traits str f = function_type_traits str ret args" by blast
  show ?thesis
  proof (cases args)
    case (Cons arg rest)
    then have "\<forall>t \<in> set rest. legal_type t" using assms f by simp
    then have "\<exists>bs. map remove_const_reference rest = map Plain bs"
    proof (induction rest)
      case (Cons t ts)
      obtain b where "remove_const_reference t = Plain b" using bare_type Cons.prems by auto
      moreover obtain bs where "map remove_const_reference ts = map Plain bs" using Cons by auto
      ultimately have "map remove_const_reference (t # ts) = map Plain (b # bs)" by simp
      then show ?case by blast
    qed simp
    then show ?thesis using f Cons by simp
  qed (use f in simp)
qed

text \<open>\<open>void (rpc_conn, const std::string &, int)\<close>, with strings for the types.\<close>

theorem bare_types_are_values_witness:
  "ft_bare_tuple_type (function_traits ''string'' (Function_pointer (Plain ''void'')
     [Plain ''rpc_conn'', Lvalue_ref (Const (Plain ''string'')), Plain ''int''])) = map Plain [''string'', ''int''] \<and>
   (\<exists>bs. ft_bare_tuple_type (function_traits ''string'' (Function_pointer (Plain ''void'')
     [Plain ''rpc_conn'', Lvalue_ref (Const (Plain ''string'')), Plain ''int''])) = map Plain bs)"
  using bare_types_are_values [of "''string''" "Function_pointer (Plain ''void'')
     [Plain ''rpc_conn'', Lvalue_ref (Const (Plain ''string'')), Plain ''int'']"]
  by (simp add: remove_const_reference_def)

end
