(* ===== verification/Example_Types.thy ===== *)
theory Example_Types imports Meta_Util Example_Server begin

text \<open>
  The C++ types of the functions that \<open>example/server/server.cpp\<close> registers, and what
  \<open>function_traits\<close> makes of them: the argument types with which \<open>Router\<close> unpacks their requests.
\<close>

text \<open>\<open>void\<close>, \<open>rpc_conn\<close>, the class \<open>dummy\<close>, the class of a lambda, and the types that can be packed.\<close>

datatype type_name = Void | Rpc_conn | Dummy | Lambda | Packed cty

abbreviation by_value :: "cty \<Rightarrow> type_name ctype" where
  "by_value t \<equiv> Plain (Packed t)"

abbreviation const_ref :: "cty \<Rightarrow> type_name ctype" where
  "const_ref t \<equiv> Lvalue_ref (Const (Plain (Packed t)))"

text \<open>The signatures, in the order in which the functions are registered.\<close>

definition add_type :: "type_name callable" where
  "add_type = Member_function (by_value T_int) Dummy [Plain Rpc_conn, by_value T_int, by_value T_int]"

definition get_dummy_type :: "type_name callable" where
  "get_dummy_type = Function_pointer (by_value T_dummy1) [Plain Rpc_conn, by_value T_dummy1]"

definition translate_type :: "type_name callable" where
  "translate_type = Function_pointer (by_value T_string) [Plain Rpc_conn, const_ref T_string]"

definition hello_type :: "type_name callable" where
  "hello_type = Function_pointer (Plain Void) [Plain Rpc_conn, const_ref T_string]"

definition get_person_name_type :: "type_name callable" where
  "get_person_name_type = Function_pointer (by_value T_string) [Plain Rpc_conn, const_ref T_person]"

definition get_person_type :: "type_name callable" where
  "get_person_type = Function_pointer (by_value T_person) [Plain Rpc_conn]"

definition upload_type :: "type_name callable" where
  "upload_type = Function_pointer (Plain Void) [Plain Rpc_conn, const_ref T_string, const_ref T_string]"

definition download_type :: "type_name callable" where
  "download_type = Function_pointer (by_value T_string) [Plain Rpc_conn, const_ref T_string]"

definition get_name_type :: "type_name callable" where
  "get_name_type = Function_pointer (by_value T_string) [Plain Rpc_conn, const_ref T_person]"

definition async_echo_type :: "type_name callable" where
  "async_echo_type = Function_pointer (Plain Void) [Plain Rpc_conn, const_ref T_string]"

definition echo_type :: "type_name callable" where
  "echo_type = Function_pointer (by_value T_string) [Plain Rpc_conn, const_ref T_string]"

definition get_int_type :: "type_name callable" where
  "get_int_type = Function_pointer (by_value T_int) [Plain Rpc_conn, by_value T_int]"

text \<open>The two lambdas: the \<open>operator()\<close> of a lambda is a constant member function of its own class.\<close>

definition publish_type :: "type_name callable" where
  "publish_type = Function_object (Const_member_function (Plain Void) Lambda
     [Plain Rpc_conn, by_value T_string, by_value T_string, by_value T_string])"

definition example_types :: "(bytes \<times> type_name callable) list" where
  "example_types =
     [(lit ''get_dummy'', get_dummy_type), (lit ''translate'', translate_type), (lit ''hello'', hello_type),
      (lit ''get_person_name'', get_person_name_type), (lit ''get_person'', get_person_type),
      (lit ''upload'', upload_type), (lit ''download'', download_type), (lit ''get_name'', get_name_type),
      (lit ''async_echo'', async_echo_type), (lit ''echo'', echo_type), (lit ''get_int'', get_int_type),
      (lit ''publish_by_token'', publish_type), (lit ''publish'', publish_type)]"

text \<open>The argument types by which \<open>invoker::apply\<close> unpacks.\<close>

definition unpacked_types :: "type_name callable \<Rightarrow> type_name ctype list" where
  "unpacked_types f = ft_bare_tuple_type (function_traits (Packed T_string) f)"

lemmas signatures = add_type_def get_dummy_type_def translate_type_def hello_type_def get_person_name_type_def
  get_person_type_def upload_type_def download_type_def get_name_type_def async_echo_type_def echo_type_def
  get_int_type_def publish_type_def

lemmas handlers = add_handler_def get_dummy_handler_def translate_handler_def hello_handler_def
  get_person_name_handler_def get_person_handler_def upload_handler_def download_handler_def get_name_handler_def
  async_echo_handler_def echo_handler_def get_int_handler_def publish_by_token_handler_def publish_handler_def

text \<open>For every function of the example server the types that \<open>function_traits\<close> deduces from its C++
  signature are the argument types with which the router unpacks its requests: references and
  constants are gone, and so is the connection.\<close>

theorem example_argument_types:
  "map (\<lambda>(name, f). (name, unpacked_types f)) example_types =
     map (\<lambda>(model, name, h). (name, map by_value (hd_args h))) example_functions \<and>
   unpacked_types add_type = map by_value (mh_args add_handler)"
  by (simp add: example_types_def example_functions_def unpacked_types_def signatures handlers
      remove_const_reference_def)

end
