(* ===== verification/Server_Threads.thy ===== *)
theory Server_Threads imports Transitions begin

text \<open>
  How a server ends: \<open>stop\<close> of \<open>rpc_server.h\<close>, the loops of its two cleaning threads, and the threads
  of \<open>io_service_pool.h\<close> with the thread that waits for them in \<open>run\<close>, as interleaved steps.

  \<open>stop\<close> is called by the destructor, outside of the pool, or by the handler of a signal, on the pool
  thread of the signal set's context. A pass of a cleaning thread that finds its flag unset changes
  nothing of this state; such steps are left out, and so are the handlers of the pool threads.
\<close>

section \<open>Threads\<close>

datatype caller = Outside | On_pool nat

text \<open>Where \<open>stop\<close> is: before its first statement, in one of its joins, or returned.\<close>

datatype stop_pc = Not_called | Join_check | Join_pub_sub | Join_thd | Returned

text \<open>
  \<open>th_thd\<close> says that \<open>thd_\<close> was set, by \<open>async_run\<close>. The threads: the two cleaning threads, those of
  the pool, and the one in \<open>io_service_pool::run\<close> (\<open>thd_\<close> or the main thread).
\<close>

record threads =
  th_stop_check :: bool
  th_stop_check_pub_sub :: bool
  th_has_stoped :: bool
  th_thd :: bool
  th_check :: bool
  th_pub_sub :: bool
  th_pool :: "bool list"
  th_pool_stopped :: bool
  th_runner :: bool
  th_stop :: stop_pc

definition running :: "nat \<Rightarrow> bool \<Rightarrow> threads" where
  "running n async =
     \<lparr>th_stop_check = False, th_stop_check_pub_sub = False, th_has_stoped = False, th_thd = async,
      th_check = True, th_pub_sub = True, th_pool = replicate n True, th_pool_stopped = False,
      th_runner = True, th_stop = Not_called\<rparr>"

section \<open>The sections of stop\<close>

definition stop_begin :: "threads \<Rightarrow> threads" where
  "stop_begin t =
     (if th_has_stoped t then t\<lparr>th_stop := Returned\<rparr>
      else t\<lparr>th_stop_check := True, th_stop := Join_check\<rparr>)"

definition stop_check_joined :: "threads \<Rightarrow> threads" where
  "stop_check_joined t = t\<lparr>th_stop_check_pub_sub := True, th_stop := Join_pub_sub\<rparr>"

definition stop_pub_sub_joined :: "threads \<Rightarrow> threads" where
  "stop_pub_sub_joined t = t\<lparr>th_pool_stopped := True, th_stop := Join_thd\<rparr>"

definition stop_thd_joined :: "threads \<Rightarrow> threads" where
  "stop_thd_joined t = t\<lparr>th_has_stoped := True, th_stop := Returned\<rparr>"

text \<open>A pool thread in the middle of \<open>stop\<close> does not return to its event loop.\<close>

definition in_stop :: "caller \<Rightarrow> nat \<Rightarrow> threads \<Rightarrow> bool" where
  "in_stop who i t \<longleftrightarrow> who = On_pool i \<and> th_stop t \<noteq> Not_called \<and> th_stop t \<noteq> Returned"

inductive thread_step :: "caller \<Rightarrow> threads \<Rightarrow> threads \<Rightarrow> bool" for who where
  call_stop: "th_stop t = Not_called \<Longrightarrow> thread_step who t (stop_begin t)"
| check_ends: "th_check t \<Longrightarrow> th_stop_check t \<Longrightarrow> thread_step who t (t\<lparr>th_check := False\<rparr>)"
| join_check: "th_stop t = Join_check \<Longrightarrow> \<not> th_check t \<Longrightarrow> thread_step who t (stop_check_joined t)"
| pub_sub_ends: "th_pub_sub t \<Longrightarrow> th_stop_check_pub_sub t \<Longrightarrow> thread_step who t (t\<lparr>th_pub_sub := False\<rparr>)"
| join_pub_sub: "th_stop t = Join_pub_sub \<Longrightarrow> \<not> th_pub_sub t \<Longrightarrow> thread_step who t (stop_pub_sub_joined t)"
| pool_ends: "i < length (th_pool t) \<Longrightarrow> th_pool t ! i \<Longrightarrow> th_pool_stopped t \<Longrightarrow> \<not> in_stop who i t \<Longrightarrow>
    thread_step who t (t\<lparr>th_pool := (th_pool t)[i := False]\<rparr>)"
| run_returns: "th_runner t \<Longrightarrow> True \<notin> set (th_pool t) \<Longrightarrow> thread_step who t (t\<lparr>th_runner := False\<rparr>)"
| join_thd: "th_stop t = Join_thd \<Longrightarrow> th_thd t \<longrightarrow> \<not> th_runner t \<Longrightarrow> thread_step who t (stop_thd_joined t)"

inductive_cases thread_stepE: "thread_step who t t'"

lemmas stop_sections = stop_begin_def stop_check_joined_def stop_pub_sub_joined_def stop_thd_joined_def

section \<open>Every run ends\<close>

text \<open>What \<open>stop\<close> has done so far, and the number of steps still to be made.\<close>

definition stages :: "threads \<Rightarrow> bool" where
  "stages t \<longleftrightarrow>
     (case th_stop t of
        Not_called \<Rightarrow> \<not> th_has_stoped t
      | Join_check \<Rightarrow> th_stop_check t
      | Join_pub_sub \<Rightarrow> \<not> th_check t \<and> th_stop_check_pub_sub t
      | Join_thd \<Rightarrow> \<not> th_check t \<and> \<not> th_pub_sub t \<and> th_pool_stopped t
      | Returned \<Rightarrow> \<not> th_check t \<and> \<not> th_pub_sub t \<and> th_pool_stopped t \<and> (th_thd t \<longrightarrow> \<not> th_runner t))"

fun stop_left :: "stop_pc \<Rightarrow> nat" where
  "stop_left Not_called = 4"
| "stop_left Join_check = 3"
| "stop_left Join_pub_sub = 2"
| "stop_left Join_thd = 1"
| "stop_left Returned = 0"

definition left :: "threads \<Rightarrow> nat" where
  "left t = of_bool (th_check t) + of_bool (th_pub_sub t) + count_list (th_pool t) True + of_bool (th_runner t) +
     stop_left (th_stop t)"

lemma count_ended: "i < length xs \<Longrightarrow> xs ! i \<Longrightarrow> Suc (count_list (xs[i := False]) True) = count_list xs True"
  by (induction xs arbitrary: i) (auto split: nat.split simp: less_Suc_eq_0_disj)

lemma step_stages: "thread_step who t t' \<Longrightarrow> stages t \<Longrightarrow> stages t'"
  by (erule thread_stepE) (auto simp: stages_def stop_sections split: stop_pc.splits)

lemma step_left: "thread_step who t t' \<Longrightarrow> stages t \<Longrightarrow> left t' < left t"
  by (erule thread_stepE) (auto simp: left_def stages_def stop_sections dest: count_ended)

interpretation ending: decreasing_system "thread_step who" "\<lambda>n t. stages t \<and> left t = n" for who
  by unfold_locales (auto intro: step_stages step_left)

lemma run_stops: "stages s \<Longrightarrow> \<exists>t. (thread_step who)\<^sup>*\<^sup>* s t \<and> (\<nexists>u. thread_step who t u)"
  by (rule ending.run_ends [where n = "left s"]) simp

lemma threads_run_ends: "stages (f 0) \<Longrightarrow> \<exists>k. \<not> thread_step who (f k) (f (Suc k))"
  by (rule ending.no_infinite_run [where n = "left (f 0)"]) simp

lemma stages_running: "stages (running n async)"
  by (simp add: stages_def running_def)

section \<open>Where it ends\<close>

text \<open>No step changes the number of threads or whether \<open>thd_\<close> is set.\<close>

definition shape :: "nat \<Rightarrow> bool \<Rightarrow> threads \<Rightarrow> bool" where
  "shape n async t \<longleftrightarrow> stages t \<and> length (th_pool t) = n \<and> th_thd t = async"

interpretation shaped: invariant_system "thread_step who" "shape n async" for who n async
  by unfold_locales (erule thread_stepE; auto simp: shape_def stages_def stop_sections split: stop_pc.splits)

lemma shape_running: "shape n async (running n async)"
  by (simp add: shape_def stages_running) (simp add: running_def)

text \<open>The joins of the cleaning threads end: a state without a step is past them.\<close>

lemma stuck_before_join:
  assumes "stages t" "\<nexists>u. thread_step who t u"
  shows "th_stop t = Join_thd \<or> th_stop t = Returned"
proof (cases "th_stop t")
  case Not_called
  then show ?thesis using assms(2) call_stop by blast
next
  case Join_check
  then show ?thesis using assms(1,2) check_ends [of t who] join_check [of t who] by (auto simp: stages_def)
next
  case Join_pub_sub
  then show ?thesis using assms(1,2) pub_sub_ends [of t who] join_pub_sub [of t who] by (auto simp: stages_def)
qed simp_all

text \<open>And past the last join, when nobody waits for the thread he runs on.\<close>

lemma stuck_returned:
  assumes "stages t" "\<nexists>u. thread_step who t u" "th_thd t \<longrightarrow> who = Outside"
  shows "th_stop t = Returned"
  using stuck_before_join [OF assms(1,2)]
proof
  assume Join_thd: "th_stop t = Join_thd"
  then have stopped: "th_pool_stopped t" using assms(1) by (simp add: stages_def)
  have thd: "th_thd t" "th_runner t" using assms(2) join_thd [OF Join_thd] by blast+
  then have "\<not> in_stop who i t" for i using assms(3) by (simp add: in_stop_def)
  then have "\<not> th_pool t ! i" if "i < length (th_pool t)" for i
    using assms(2) pool_ends [OF that _ stopped] by blast
  then have "True \<notin> set (th_pool t)" by (auto simp: in_set_conv_nth)
  then show ?thesis using assms(2) run_returns [OF thd(2)] by blast
qed

lemma returned_all_ended:
  assumes "stages t" "\<nexists>u. thread_step who t u" "th_stop t = Returned"
  shows "\<not> th_check t \<and> \<not> th_pub_sub t \<and> True \<notin> set (th_pool t) \<and> \<not> th_runner t"
proof -
  have t: "\<not> th_check t" "\<not> th_pub_sub t" "th_pool_stopped t" using assms(1,3) by (simp_all add: stages_def)
  have "\<not> in_stop who i t" for i using assms(3) by (simp add: in_stop_def)
  then have "\<not> th_pool t ! i" if "i < length (th_pool t)" for i
    using assms(2) pool_ends [OF that _ t(3)] by blast
  then have pool: "True \<notin> set (th_pool t)" by (auto simp: in_set_conv_nth)
  then show ?thesis using t assms(2) run_returns [of t who] by blast
qed

text \<open>The handler of a signal on thread \<open>j\<close> of a pool that \<open>async_run\<close> has started.\<close>

definition joins_itself :: "nat \<Rightarrow> nat \<Rightarrow> threads \<Rightarrow> bool" where
  "joins_itself n j t \<longleftrightarrow> shape n True t \<and> j < n \<and> th_pool t ! j \<and> th_runner t \<and> th_stop t \<noteq> Returned \<and>
     (th_stop t = Not_called \<longrightarrow> \<not> th_pool_stopped t)"

interpretation self_join: invariant_system "thread_step (On_pool j)" "joins_itself n j" for n j
proof
  fix t t' assume step: "thread_step (On_pool j) t t'" and good: "joins_itself n j t"
  have "shape n True t'" using shaped.step_good [OF step] good by (simp add: joins_itself_def)
  moreover have "True \<in> set (th_pool t)" using good nth_mem [of j "th_pool t"] by (simp add: joins_itself_def shape_def)
  moreover have "th_pool t' ! j \<and> th_runner t' \<and> th_stop t' \<noteq> Returned \<and> (th_stop t' = Not_called \<longrightarrow> \<not> th_pool_stopped t')"
    using step
  proof (cases rule: thread_step.cases)
    case (pool_ends i)
    then have "i \<noteq> j" using good by (auto simp: joins_itself_def in_stop_def)
    then show ?thesis using pool_ends(1) good by (auto simp: joins_itself_def)
  qed (use good calculation(2) in \<open>auto simp: joins_itself_def stop_sections shape_def stages_def\<close>)
  ultimately show "joins_itself n j t'" using good by (simp add: joins_itself_def)
qed

section \<open>Properties\<close>

text \<open>C18. Unless it is called on a pool thread of a server started with \<open>async_run\<close>, \<open>stop\<close> ends the server
  whatever the interleaving: no run of its threads is infinite, and a run that has ended has \<open>stop\<close>
  returned, both cleaning threads and all pool threads ended, and \<open>run\<close> returned.\<close>

theorem stop_ends_server:
  assumes "async \<longrightarrow> who = Outside"
  shows "(\<nexists>f. f 0 = running n async \<and> (\<forall>k. thread_step who (f k) (f (Suc k)))) \<and>
    (\<forall>t. (thread_step who)\<^sup>*\<^sup>* (running n async) t \<longrightarrow> (\<nexists>u. thread_step who t u) \<longrightarrow>
       th_stop t = Returned \<and> \<not> th_check t \<and> \<not> th_pub_sub t \<and> True \<notin> set (th_pool t) \<and> \<not> th_runner t)"
proof (intro conjI allI impI)
  show "\<nexists>f. f 0 = running n async \<and> (\<forall>k. thread_step who (f k) (f (Suc k)))"
    using threads_run_ends stages_running by metis
next
  fix t assume run: "(thread_step who)\<^sup>*\<^sup>* (running n async) t" and stuck: "\<nexists>u. thread_step who t u"
  have t: "stages t" "th_thd t = async" using shaped.reachable_good [OF run shape_running] by (simp_all add: shape_def)
  show "th_stop t = Returned" using stuck_returned [OF t(1) stuck] assms t(2) by simp
  then show "\<not> th_check t" "\<not> th_pub_sub t" "True \<notin> set (th_pool t)" "\<not> th_runner t"
    using returned_all_ended [OF t(1) stuck] by simp_all
qed

theorem stop_ends_server_witness:
  "\<exists>t. (thread_step (On_pool 1))\<^sup>*\<^sup>* (running 4 False) t \<and> th_stop t = Returned \<and> \<not> th_runner t"
proof -
  obtain t where t: "(thread_step (On_pool 1))\<^sup>*\<^sup>* (running 4 False) t" "\<nexists>u. thread_step (On_pool 1) t u"
    using run_stops stages_running by blast
  then show ?thesis using stop_ends_server [of False "On_pool 1" 4] by blast
qed

text \<open>C20. A server started with \<open>async_run\<close> cannot be ended by a signal: its handler runs on a pool thread,
  and every run ends with \<open>stop\<close> waiting for \<open>thd_\<close>, which waits for that very pool thread.\<close>

theorem async_stop_deadlocks:
  assumes "j < n"
  shows "(\<nexists>f. f 0 = running n True \<and> (\<forall>k. thread_step (On_pool j) (f k) (f (Suc k)))) \<and>
    (\<forall>t. (thread_step (On_pool j))\<^sup>*\<^sup>* (running n True) t \<longrightarrow> (\<nexists>u. thread_step (On_pool j) t u) \<longrightarrow>
       th_stop t = Join_thd \<and> th_runner t \<and> th_pool t ! j)"
proof (intro conjI allI impI)
  show "\<nexists>f. f 0 = running n True \<and> (\<forall>k. thread_step (On_pool j) (f k) (f (Suc k)))"
    using threads_run_ends stages_running by metis
next
  fix t assume run: "(thread_step (On_pool j))\<^sup>*\<^sup>* (running n True) t" and stuck: "\<nexists>u. thread_step (On_pool j) t u"
  have "joins_itself n j (running n True)"
    using assms by (simp add: joins_itself_def shape_running) (simp add: running_def)
  then have t: "joins_itself n j t" using self_join.reachable_good [OF run] by blast
  then show "th_runner t" "th_pool t ! j" by (simp_all add: joins_itself_def)
  have "stages t" "th_stop t \<noteq> Returned" using t by (simp_all add: joins_itself_def shape_def)
  then show "th_stop t = Join_thd" using stuck_before_join [OF _ stuck] by blast
qed

theorem async_stop_deadlocks_witness:
  "\<exists>t. (thread_step (On_pool 0))\<^sup>*\<^sup>* (running 1 True) t \<and> th_stop t = Join_thd \<and> th_runner t \<and> th_pool t ! 0"
proof -
  obtain t where t: "(thread_step (On_pool 0))\<^sup>*\<^sup>* (running 1 True) t" "\<nexists>u. thread_step (On_pool 0) t u"
    using run_stops stages_running by blast
  then show ?thesis using async_stop_deadlocks [OF zero_less_one] by blast
qed

end
