(* ===== verification/Example_Main.thy ===== *)
theory Example_Main imports Server_Threads begin

text \<open>
  How \<open>main\<close> of \<open>example/server/server.cpp\<close> ends: the main thread in \<open>server.run()\<close>, the publishing
  thread, which looks at \<open>stop\<close> before each turn, the threads of the server as in \<open>Server_Threads\<close>, with
  a signal that is handled on a thread of the pool, and at the end the destructor of the server, which
  calls its \<open>stop\<close> once more.

  A turn of the publishing thread changes nothing of this state (\<open>Example_Publisher\<close> has what it does).
  \<open>bool stop\<close> is no atomic; a thread that reads it sees it as it was or as it is.
\<close>

section \<open>The main program\<close>

text \<open>Where \<open>main\<close> is: in \<open>server.run()\<close>, in \<open>thd.join()\<close>, at the end of the block; it returned, or the
  destructor's \<open>stop\<close> got past its first statement.\<close>

datatype main_pc = In_run | In_join | End_of_block | Main_returned | Stops_again

record main_threads =
  mt_server :: threads
  mt_stop :: bool
  mt_thd :: bool
  mt_pc :: main_pc

definition main_started :: "nat \<Rightarrow> main_threads" where
  "main_started n = \<lparr>mt_server = running n False, mt_stop = False, mt_thd = True, mt_pc = In_run\<rparr>"

definition run_returned :: "main_threads \<Rightarrow> main_threads" where
  "run_returned m = m\<lparr>mt_stop := True, mt_pc := In_join\<rparr>"

definition thd_joined :: "main_threads \<Rightarrow> main_threads" where
  "thd_joined m = m\<lparr>mt_pc := End_of_block\<rparr>"

definition server_destroyed :: "main_threads \<Rightarrow> main_threads" where
  "server_destroyed m = m\<lparr>mt_pc := if th_has_stoped (mt_server m) then Main_returned else Stops_again\<rparr>"

text \<open>The signal is handled on thread \<open>j\<close> of the pool.\<close>

inductive main_step :: "nat \<Rightarrow> main_threads \<Rightarrow> main_threads \<Rightarrow> bool" for j where
  server: "thread_step (On_pool j) (mt_server m) t \<Longrightarrow> main_step j m (m\<lparr>mt_server := t\<rparr>)"
| run_done: "mt_pc m = In_run \<Longrightarrow> \<not> th_runner (mt_server m) \<Longrightarrow> main_step j m (run_returned m)"
| publisher_ends: "mt_thd m \<Longrightarrow> mt_stop m \<Longrightarrow> main_step j m (m\<lparr>mt_thd := False\<rparr>)"
| join_done: "mt_pc m = In_join \<Longrightarrow> \<not> mt_thd m \<Longrightarrow> main_step j m (thd_joined m)"
| destroys: "mt_pc m = End_of_block \<Longrightarrow> main_step j m (server_destroyed m)"

inductive_cases main_stepE: "main_step j m m'"

lemmas main_sections = run_returned_def thd_joined_def server_destroyed_def

section \<open>The pool outlives the handler\<close>

text \<open>As long as \<open>stop\<close> has not returned the handler's thread is there, and \<open>run\<close> waits for it.\<close>

definition waits_for_stop :: "nat \<Rightarrow> nat \<Rightarrow> threads \<Rightarrow> bool" where
  "waits_for_stop n j t \<longleftrightarrow> shape n False t \<and> j < n \<and> (th_stop t = Returned \<longrightarrow> th_has_stoped t) \<and>
     (th_pool_stopped t \<longrightarrow> th_stop t \<noteq> Not_called) \<and> (th_stop t \<noteq> Returned \<longrightarrow> th_pool t ! j \<and> th_runner t)"

lemma true_in_set: "j < length xs \<Longrightarrow> xs ! j \<Longrightarrow> True \<in> set xs"
  using nth_mem [of j xs] by simp

interpretation handler_first: invariant_system "thread_step (On_pool j)" "waits_for_stop n j" for n j
proof
  fix t t' assume step: "thread_step (On_pool j) t t'" and good: "waits_for_stop n j t"
  have "shape n False t'" using shaped.step_good [OF step] good by (simp add: waits_for_stop_def)
  moreover have "th_stop t \<noteq> Returned \<longrightarrow> True \<in> set (th_pool t)"
    using good by (auto simp: waits_for_stop_def shape_def intro: true_in_set)
  moreover have "(th_stop t' = Returned \<longrightarrow> th_has_stoped t') \<and> (th_pool_stopped t' \<longrightarrow> th_stop t' \<noteq> Not_called) \<and>
      (th_stop t' \<noteq> Returned \<longrightarrow> th_pool t' ! j \<and> th_runner t')"
    using step
  proof (cases rule: thread_step.cases)
    case (pool_ends i)
    then have "th_stop t \<noteq> Returned \<longrightarrow> i \<noteq> j" using good by (auto simp: waits_for_stop_def in_stop_def)
    then show ?thesis using pool_ends(1) good by (auto simp: waits_for_stop_def)
  qed (use good calculation(2) in \<open>auto simp: waits_for_stop_def stop_sections shape_def stages_def\<close>)
  ultimately show "waits_for_stop n j t'" using good by (simp add: waits_for_stop_def)
qed

section \<open>Every run ends\<close>

fun main_left :: "main_pc \<Rightarrow> nat" where
  "main_left In_run = 3"
| "main_left In_join = 2"
| "main_left End_of_block = 1"
| "main_left _ = 0"

definition main_good :: "nat \<Rightarrow> nat \<Rightarrow> main_threads \<Rightarrow> bool" where
  "main_good n j m \<longleftrightarrow> waits_for_stop n j (mt_server m) \<and>
     (mt_pc m = In_run \<longrightarrow> \<not> mt_stop m \<and> mt_thd m) \<and>
     (mt_pc m \<noteq> In_run \<longrightarrow> mt_stop m \<and> th_stop (mt_server m) = Returned \<and> \<not> th_runner (mt_server m)) \<and>
     (mt_pc m = End_of_block \<or> mt_pc m = Main_returned \<longrightarrow> \<not> mt_thd m) \<and> mt_pc m \<noteq> Stops_again"

definition main_measure :: "main_threads \<Rightarrow> nat" where
  "main_measure m = left (mt_server m) + of_bool (mt_thd m) + main_left (mt_pc m)"

lemma returned_stays: "thread_step who t t' \<Longrightarrow> th_stop t = Returned \<Longrightarrow> th_stop t' = Returned"
  by (erule thread_stepE) (auto simp: stop_sections)

lemma runner_ended_stays: "thread_step who t t' \<Longrightarrow> \<not> th_runner t \<Longrightarrow> \<not> th_runner t'"
  by (erule thread_stepE) (auto simp: stop_sections)

lemma main_step_good:
  assumes "main_step j m m'" "main_good n j m"
  shows "main_good n j m' \<and> main_measure m' < main_measure m"
  using assms(1)
proof (cases rule: main_step.cases)
  case (server t)
  have "stages (mt_server m)" using assms(2) by (simp add: main_good_def waits_for_stop_def shape_def)
  then show ?thesis
    using server assms(2) handler_first.step_good [OF server(2)] returned_stays [OF server(2)]
      runner_ended_stays [OF server(2)] step_left [OF server(2)]
    by (auto simp: main_good_def main_measure_def)
qed (use assms(2) in \<open>auto simp: main_good_def main_measure_def main_sections waits_for_stop_def\<close>)

interpretation main_end: decreasing_system "main_step j" "\<lambda>k m. main_good n j m \<and> main_measure m = k" for n j
  by unfold_locales (use main_step_good in blast)

lemma main_started_good: "j < n \<Longrightarrow> main_good n j (main_started n)"
  using shape_running [of n False] by (simp add: main_good_def main_started_def waits_for_stop_def) (simp add: running_def)

lemma main_stuck:
  assumes "main_good n j m" "\<nexists>u. main_step j m u"
  shows "mt_pc m = Main_returned \<and> \<not> mt_thd m \<and> th_stop (mt_server m) = Returned \<and> \<not> th_check (mt_server m) \<and>
    \<not> th_pub_sub (mt_server m) \<and> True \<notin> set (th_pool (mt_server m))"
proof -
  have t: "stages (mt_server m)" "\<not> th_thd (mt_server m)"
    using assms(1) by (simp_all add: main_good_def waits_for_stop_def shape_def)
  have stuck: "\<nexists>u. thread_step (On_pool j) (mt_server m) u" using assms(2) server by blast
  have returned: "th_stop (mt_server m) = Returned" using stuck_returned [OF t(1) stuck] t(2) by simp
  note ended = returned_all_ended [OF t(1) stuck returned]
  have "mt_pc m \<noteq> In_run" using assms(2) run_done [of m j] ended by blast
  moreover from this have "\<not> mt_thd m" using assms publisher_ends [of m j] by (auto simp: main_good_def)
  moreover from this have "mt_pc m \<noteq> In_join" using assms(2) join_done [of m j] by blast
  moreover have "mt_pc m \<noteq> End_of_block" using assms(2) destroys [of m j] by blast
  ultimately show ?thesis using assms(1) returned ended by (cases "mt_pc m") (auto simp: main_good_def)
qed

section \<open>The end\<close>

text \<open>C19. A signal ends the example server, however its threads are interleaved: no run is infinite, and a
  run that has ended has \<open>main\<close> returned, with the publishing thread, the cleaning threads and the
  pool ended; the destructor finds the server stopped and does not stop it again.\<close>

theorem server_main_ends:
  assumes "j < n"
  shows "(\<nexists>f. f 0 = main_started n \<and> (\<forall>k. main_step j (f k) (f (Suc k)))) \<and>
    (\<forall>m. (main_step j)\<^sup>*\<^sup>* (main_started n) m \<longrightarrow> mt_pc m \<noteq> Stops_again \<and>
       ((\<nexists>u. main_step j m u) \<longrightarrow>
          mt_pc m = Main_returned \<and> \<not> mt_thd m \<and> th_stop (mt_server m) = Returned \<and> \<not> th_check (mt_server m) \<and>
          \<not> th_pub_sub (mt_server m) \<and> True \<notin> set (th_pool (mt_server m))))"
proof (intro conjI allI impI)
  show "\<nexists>f. f 0 = main_started n \<and> (\<forall>k. main_step j (f k) (f (Suc k)))"
    using main_end.no_infinite_run main_started_good [OF assms] by metis
next
  fix m assume "(main_step j)\<^sup>*\<^sup>* (main_started n) m"
  then have m: "main_good n j m"
    using main_end.any.reachable_good main_started_good [OF assms] by blast
  then show "mt_pc m \<noteq> Stops_again" by (simp add: main_good_def)
  assume "\<nexists>u. main_step j m u"
  from main_stuck [OF m this] show "mt_pc m = Main_returned" "\<not> mt_thd m" "th_stop (mt_server m) = Returned"
    "\<not> th_check (mt_server m)" "\<not> th_pub_sub (mt_server m)" "True \<notin> set (th_pool (mt_server m))" by simp_all
qed

text \<open>Four pool threads, the signal on the last.\<close>

theorem server_main_ends_witness:
  "\<exists>m. (main_step 3)\<^sup>*\<^sup>* (main_started 4) m \<and> mt_pc m = Main_returned \<and> \<not> mt_thd m"
proof -
  obtain m where m: "(main_step 3)\<^sup>*\<^sup>* (main_started 4) m" "\<nexists>u. main_step 3 m u"
    using main_end.run_ends [of 4 3 "main_started 4" "main_measure (main_started 4)"] main_started_good [of 3 4] by auto
  then show ?thesis using server_main_ends [of 3 4] by auto
qed

end
