(* ===== verification/Spec2Isabelle.thy ===== *)
theory Spec2Isabelle
  imports Md5_Vectors Configure Zk_Session String_View_Io End_To_End Client_Life
    Example_Runs Example_Publisher Example_Threads Example_Types Example_Main
begin

text \<open>
  A verification library for \<open>rest_rpc\<close>, a C++11 library for remote procedure calls over TCP
  (\<open>src/include/rest_rpc\<close>), with the parts of the vendored MessagePack that every message passes
  through and the example server and client. The model is the build without \<open>CINATRA_ENABLE_SSL\<close>, with
  assertions, on x86-64.

  \<^bold>\<open>How the program works.\<close> A server registers functions under names. A client's call packs the
  arguments with MessagePack, sends them behind a 24-byte header with the call's number and the MD5
  id of the name, and keeps a promise or a callback under the number. The server's connection reads
  header and body, the router finds the function by its id, unpacks, calls and packs the result, and
  the connection queues the answer under the same number. A client also subscribes to keys; the
  server publishes to all connections subscribed to one. Addresses are found through ZooKeeper.

  \<^bold>\<open>Theories and sources.\<close> (definitions have the names of the code, states are records)
  \<^item> \<open>Rpc_Prelude\<close>: bytes, words, little-endian numbers, C++ exceptions as \<open>exn\<close>, the result type
    \<open>exn + 'a\<close>, and the collections of hints. \<open>Transitions\<close>: the locales \<open>invariant_system\<close> and
    \<open>decreasing_system\<close>, which every step relation below interprets.
  \<^item> \<open>Md5\<close> (\<open>md5.hpp\<close>), \<open>Md5_Sines\<close> (its table against the sines that RFC 1321 takes it from), \<open>Md5_Rfc\<close>
    (RFC 1321 as specification, and that the code implements it for messages below 2^29 bytes), \<open>Md5_Vectors\<close> (the RFC's test vectors), \<open>Example_Ids\<close> (the ids of the
    example's names).
  \<^item> \<open>Msgpack_Pack\<close> (\<open>v1/pack.hpp\<close>), \<open>Msgpack_Parse\<close> (\<open>v3/parse.hpp\<close> with the object visitor),
    \<open>Msgpack_Roundtrip\<close> (what was packed parses back, and the parser always returns),
    \<open>Msgpack_Adaptor\<close> (C++ values: \<open>cval\<close> and their types \<open>cty\<close>).
  \<^item> \<open>Const_Vars\<close> (\<open>const_vars.h\<close>), \<open>Codec\<close> (\<open>codec.h\<close>; the locales \<open>codec\<close> and \<open>args_codec\<close> state what
    the layers above rely on, \<open>mp\<close> interprets them on the code's functions), \<open>Client_Util\<close>
    (\<open>client_util.hpp\<close>), \<open>Router\<close> (\<open>router.h\<close>).
  \<^item> \<open>Fifo_Writer\<close>: the queue of outgoing messages that \<open>connection.h\<close> and \<open>rpc_client.hpp\<close> have in
    common, as the locale \<open>fifo_writer\<close>; interpreted as \<open>out\<close> and \<open>cl\<close>.
  \<^item> \<open>Connection\<close> (\<open>connection.h\<close>), \<open>Io_Service_Pool\<close> (\<open>io_service_pool.h\<close>), \<open>Rpc_Server\<close>
    (\<open>rpc_server.h\<close>), \<open>Server_Threads\<close> (\<open>stop\<close> and the threads it waits for, where \<open>Rpc_Server\<close> has
    the flags and the pool after it), \<open>Rpc_Client\<close> (\<open>rpc_client.hpp\<close>), \<open>Client_Threads\<close> (threads that share a
    client: a call as its locked sections), \<open>Client_Life\<close> (\<open>run\<close>, \<open>stop\<close>, the destructor and the client's thread).
  \<^item> \<open>Zookeeper\<close> and \<open>Zk_Session\<close> (\<open>zookeeperclient.hpp\<close>: addresses, and the session with its watcher),
    \<open>Configure\<close> (\<open>configure.hpp\<close>).
  \<^item> \<open>Meta_Util\<close> (\<open>meta_util.hpp\<close>, \<open>cplusplus_14.h\<close>: tuples by index, the types read off a function),
    \<open>Example_Types\<close> (the types of the example's functions, against the router's model of them).
  \<^item> \<open>String_View\<close> and \<open>String_View_Io\<close> (\<open>string_view.hpp\<close>) and \<open>Any_Lite\<close> (\<open>nonstd_any.hpp\<close>), as compiled for C++11.
  \<^item> \<open>End_To_End\<close>: a client, two byte streams and a connection composed; \<open>run_calls\<close> is what the
    whole promises.
  \<^item> \<open>Example_Server\<close>, \<open>Example_Calls\<close>, \<open>Example_Publisher\<close>, \<open>Example_Main\<close> (\<open>example/server/server.cpp\<close>,
    \<open>qps.h\<close>: the functions, calls of them, the server with its publishing thread, and how \<open>main\<close> ends), \<open>Example_Client\<close>
    (\<open>example/client/client.cpp\<close>: its tests as scripts that call, print and may throw),
    \<open>Example_Runs\<close> (the scripts against the server) and \<open>Example_Threads\<close> (its tests with several threads).

  \<^bold>\<open>What is shown.\<close> The composed system refines the execution of the calls one after the other, every
  run of it ends with all calls answered, and a call of a registered function returns its value
  (\<open>End_To_End\<close>). Below: round trips of the codec and the parser for all values; MD5 against the RFC;
  every branch of the dispatch, errors included; invariants of connection, client and server under
  every interleaving of completions; order on the wire; the fate of promises, callbacks,
  subscriptions and tokens; refinement of the view's operations to lists; ownership of the holders of
  \<open>any\<close>; how a server and a client end. Some theorems pin down defects: a header of 10 MB stalls a
  connection, a failed write wedges the client's queue, an oversized asynchronous or published message
  ends the process (which a long token brings about), a reply's callback hears of its timeout only with
  the reply, a signal cannot end a server started with \<open>async_run\<close>, and destroying a client can end the
  process.

  \<^bold>\<open>Conventions.\<close> \<open>Inl e\<close> is a thrown exception; an outer \<open>None\<close> is the end of the process (a failed
  \<open>assert\<close>, an exception out of a handler, undefined behaviour), as each theory says. The conversion of
  received bytes into C++ values yields its undefined behaviour as \<open>Inl undefined_behaviour\<close>, which no
  \<open>catch\<close> of the models handles: it is there for tuples with wide strings, which the vendored MessagePack
  reads from the end of the array, and for numbers of structs that a short array leaves unset.
  \<open>plain_router\<close> are the routers whose functions have no wide string as parameter. Loops are
  structural recursions or \<open>function\<close>s with termination proofs; the parser's loop is bounded by the
  length of its buffer, which \<open>parser_returns\<close> shows to be enough. Handlers are atomic steps, because
  all handlers of one connection run on one thread and the data threads share is locked; only
  \<open>Client_Life\<close>, where a handler can be running while another thread stops the client, has their begin
  and end as steps.

  \<^bold>\<open>Parameters.\<close> Registered functions, the ZooKeeper C library, asio's judgement of addresses, the
  bytes of padding and of uninitialised memory, and the order of completions are arguments of the
  definitions or arbitrary steps.

  \<^bold>\<open>Not modelled.\<close> The SSL branches (no build file enables them), asio and the rest of MessagePack
  (third-party), \<open>make_unique\<close> of \<open>cplusplus_14.h\<close> (one allocation), memory exhaustion, and the
  allocation failures of the standard library.
\<close>

end
